(* ===== verification/Prelude.thy ===== *)
theory Prelude
  imports Main "HOL-Library.Word"
begin

text \<open>
  Shared vocabulary of the development: the machine types of the Go sources, the result
  type of operations that can fail or panic, and generic lemmas on lists, options and words.

  \<^item> a Go \<^verbatim>\<open>byte\<close> is an 8-bit word, \<^verbatim>\<open>uint64\<close> a 64-bit word; \<^verbatim>\<open>int\<close> is 64 bits wide on the
    supported platforms, and is a signed reading of a 64-bit word wherever it can overflow;
  \<^item> a slice is a list. Go distinguishes a nil slice from an empty one only by comparison
    with nil; where the code makes that comparison the model uses an option;
  \<^item> an operation that returns \<^verbatim>\<open>(value, error)\<close> has a sum as its result, \<^verbatim>\<open>Inl\<close> the error;
    one that can also panic has a \<^verbatim>\<open>result\<close>.
\<close>

unbundle bit_operations_syntax

type_synonym byte = "8 word"
type_synonym bytes = "8 word list"
type_synonym u64 = "64 word"

subsection \<open>Results of operations that can fail\<close>

datatype ('e, 'a) result = Ok (the_Ok: 'a) | Err 'e | Panic

fun bind_result :: "('e, 'a) result \<Rightarrow> ('a \<Rightarrow> ('e, 'b) result) \<Rightarrow> ('e, 'b) result" where
  "bind_result (Ok a) f = f a"
| "bind_result (Err e) f = Err e"
| "bind_result Panic f = Panic"

lemma bind_result_Ok_iff:
  "bind_result r f = Ok b \<longleftrightarrow> (\<exists>a. r = Ok a \<and> f a = Ok b)"
  by (cases r) auto

lemma bind_result_cong [fundef_cong]:
  "r = r' \<Longrightarrow> (\<And>a. r' = Ok a \<Longrightarrow> f a = f' a) \<Longrightarrow> bind_result r f = bind_result r' f'"
  by (cases r') auto

lemma unat_byte_less: "unat (b :: byte) < 256"
  by (rule order_less_le_trans [OF unsigned_less]) simp

lemma unat_u64_less: "unat (x :: u64) < 2 ^ 64"
  by (rule order_less_le_trans [OF unsigned_less]) simp

lemma unat_u64_of_nat: "n < 2 ^ 64 \<Longrightarrow> unat (of_nat n :: u64) = n"
  by (simp add: unat_of_nat)

lemma unat_u64_add: "unat x + unat y < 2 ^ 64 \<Longrightarrow> unat (x + y :: u64) = unat x + unat y"
  by (simp add: unat_word_ariths)

lemma unat_u64_mult: "unat x * unat y < 2 ^ 64 \<Longrightarrow> unat (x * y :: u64) = unat x * unat y"
  by (simp add: unat_word_ariths)

end
