(* ===== verification/Compress.thy ===== *)
theory Compress
  imports Prelude
begin

text \<open>
  The sparse-bitset compression of \<^verbatim>\<open>common/bitutil/compress.go\<close>: \<^verbatim>\<open>CompressBytes\<close> and
  \<^verbatim>\<open>DecompressBytes\<close> with the recursive encoder and decoder they use. The two \<^verbatim>\<open>for\<close> loops of the
  source are the functions \<open>encode_loop\<close> and \<open>decode_loop\<close>, indexed as in the source.
  A nil and an empty slice are both the empty list: no caller tells them apart.
  The target size is a natural number (the length of a bit vector in every caller).

  Shown: decompression inverts compression; the decoder accepts only the encoder's own output,
  so the encoding is canonical; what is decoded has the requested size.
\<close>

datatype compress_error =
  errMissingData | errUnreferencedData | errExceededTarget | errZeroContent

subsection \<open>The encoder\<close>

fun encode_loop :: "nat \<Rightarrow> bytes \<Rightarrow> bytes \<Rightarrow> bytes \<Rightarrow> bytes \<times> bytes" where
  "encode_loop i [] nonZeroBitset nonZeroBytes = (nonZeroBitset, nonZeroBytes)"
| "encode_loop i (b # data) nonZeroBitset nonZeroBytes =
     (if b \<noteq> 0
      then encode_loop (Suc i) data
             (nonZeroBitset[i div 8 := nonZeroBitset ! (i div 8) OR push_bit (7 - i mod 8) 1])
             (nonZeroBytes @ [b])
      else encode_loop (Suc i) data nonZeroBitset nonZeroBytes)"

lemma length_encode_loop: "length (fst (encode_loop i data bs nz)) = length bs"
  by (induction i data bs nz rule: encode_loop.induct) auto

function bitsetEncodeBytes :: "bytes \<Rightarrow> bytes" where
  "bitsetEncodeBytes data =
     (if length data = 0 then []
      else if length data = 1 then (if data ! 0 = 0 then [] else data)
      else let (nonZeroBitset, nonZeroBytes) =
                 encode_loop 0 data (replicate ((length data + 7) div 8) 0) []
           in if length nonZeroBytes = 0 then []
              else bitsetEncodeBytes nonZeroBitset @ nonZeroBytes)"
  by pat_completeness auto
termination
proof (relation "measure length", goal_cases)
  case 1
  show ?case by simp
next
  case (2 data p bs nz)
  have "length bs = (length data + 7) div 8"
    using 2(3,4) length_encode_loop [of 0 data "replicate ((length data + 7) div 8) 0" "[]"]
    by (metis fst_conv length_replicate)
  moreover have "length data \<ge> 2" using 2(1,2) by linarith
  ultimately show ?case by simp
qed

definition CompressBytes :: "bytes \<Rightarrow> bytes" where
  "CompressBytes data =
     (let out = bitsetEncodeBytes data in if length out < length data then out else data)"

subsection \<open>The decoder\<close>

text \<open>
  One iteration per bit of the bitset; the remaining iterations are the first argument. The
  three checks are in the order of the source.
\<close>

fun decode_loop :: "nat \<Rightarrow> nat \<Rightarrow> bytes \<Rightarrow> bytes \<Rightarrow> nat \<Rightarrow> bytes \<Rightarrow> compress_error + (bytes \<times> nat)" where
  "decode_loop 0 i nonZeroBitset data ptr decomp = Inr (decomp, ptr)"
| "decode_loop (Suc n) i nonZeroBitset data ptr decomp =
     (if nonZeroBitset ! (i div 8) AND push_bit (7 - i mod 8) 1 \<noteq> 0
      then if ptr \<ge> length data then Inl errMissingData
           else if i \<ge> length decomp then Inl errExceededTarget
           else if data ! ptr = 0 then Inl errZeroContent
           else decode_loop n (Suc i) nonZeroBitset data (Suc ptr) (decomp[i := data ! ptr])
      else decode_loop n (Suc i) nonZeroBitset data ptr decomp)"

function bitsetDecodePartialBytes :: "bytes \<Rightarrow> nat \<Rightarrow> compress_error + (bytes \<times> nat)" where
  "bitsetDecodePartialBytes data target =
     (if target = 0 then Inr ([], 0)
      else if length data = 0 then Inr (replicate target 0, 0)
      else if target = 1 then (if data ! 0 \<noteq> 0 then Inr ([data ! 0], 1) else Inr ([data ! 0], 0))
      else case bitsetDecodePartialBytes data ((target + 7) div 8) of
             Inl e \<Rightarrow> Inl e
           | Inr (nonZeroBitset, ptr) \<Rightarrow>
               decode_loop (8 * length nonZeroBitset) 0 nonZeroBitset data ptr (replicate target 0))"
  by pat_completeness auto
termination
  by (relation "measure snd") auto

definition bitsetDecodeBytes :: "bytes \<Rightarrow> nat \<Rightarrow> compress_error + bytes" where
  "bitsetDecodeBytes data target =
     (case bitsetDecodePartialBytes data target of
        Inl e \<Rightarrow> Inl e
      | Inr (out, n) \<Rightarrow> if n \<noteq> length data then Inl errUnreferencedData else Inr out)"

definition DecompressBytes :: "bytes \<Rightarrow> nat \<Rightarrow> compress_error + bytes" where
  "DecompressBytes data target =
     (if length data > target then Inl errExceededTarget
      else if length data = target then Inr data
      else bitsetDecodeBytes data target)"

declare bitsetEncodeBytes.simps [simp del]
declare bitsetDecodePartialBytes.simps [simp del]

subsection \<open>What the loops compute\<close>

definition bitset_bit :: "bytes \<Rightarrow> nat \<Rightarrow> bool" where
  "bitset_bit bs i \<longleftrightarrow> bit (bs ! (i div 8)) (7 - i mod 8)"

lemma and_mask_bit_iff: "(w :: byte) AND push_bit k 1 \<noteq> 0 \<longleftrightarrow> bit w k"
  by (simp add: and_exp_eq_0_iff_not_bit)

lemma decode_loop_Suc:
  "decode_loop (Suc n) i bs data ptr decomp =
     (if bitset_bit bs i
      then if ptr \<ge> length data then Inl errMissingData
           else if i \<ge> length decomp then Inl errExceededTarget
           else if data ! ptr = 0 then Inl errZeroContent
           else decode_loop n (Suc i) bs data (Suc ptr) (decomp[i := data ! ptr])
      else decode_loop n (Suc i) bs data ptr decomp)"
  by (simp only: decode_loop.simps bitset_bit_def and_mask_bit_iff)

declare decode_loop.simps(2) [simp del]

lemma bitset_bit_set:
  assumes "i div 8 < length bs" "j div 8 < length bs"
  shows "bitset_bit (bs[i div 8 := bs ! (i div 8) OR push_bit (7 - i mod 8) 1]) j
           \<longleftrightarrow> j = i \<or> bitset_bit bs j"
proof (cases "i div 8 = j div 8")
  case True
  have "i mod 8 < 8" "j mod 8 < 8" by simp_all
  then have "7 - i mod 8 = 7 - j mod 8 \<longleftrightarrow> i mod 8 = j mod 8"
    by linarith
  moreover have "i mod 8 = j mod 8 \<longleftrightarrow> i = j"
    using True by (metis div_mult_mod_eq)
  ultimately show ?thesis
    using True assms by (auto simp: bitset_bit_def bit_simps)
next
  case False
  then show ?thesis using assms by (auto simp: bitset_bit_def)
qed


lemma encode_loop_bytes: "snd (encode_loop i data bs nz) = nz @ filter (\<lambda>b. b \<noteq> 0) data"
  by (induction i data bs nz rule: encode_loop.induct) auto

lemma encode_loop_bits:
  assumes "i + length data \<le> 8 * length bs" "j < 8 * length bs"
  shows "bitset_bit (fst (encode_loop i data bs nz)) j
           \<longleftrightarrow> bitset_bit bs j \<or> i \<le> j \<and> j < i + length data \<and> data ! (j - i) \<noteq> 0"
  using assms
proof (induction i data bs nz rule: encode_loop.induct)
  case (1 i bs nz)
  then show ?case by auto
next
  case (2 i b data bs nz)
  have shift: "i \<le> j \<and> j < i + length (b # data) \<and> (b # data) ! (j - i) \<noteq> 0
      \<longleftrightarrow> j = i \<and> b \<noteq> 0 \<or> Suc i \<le> j \<and> j < Suc i + length data \<and> data ! (j - Suc i) \<noteq> 0"
    by (cases "j = i") (auto simp: nth_Cons')
  have div: "i div 8 < length bs" "j div 8 < length bs"
    using 2(3,4) by (auto simp: less_mult_imp_div_less mult.commute)
  show ?case
  proof (cases "b = 0")
    case True
    then show ?thesis using 2(2) 2(3,4) shift by auto
  next
    case False
    then show ?thesis using 2(1)[OF False] 2(3,4) shift bitset_bit_set [OF div] by auto
  qed
qed

lemma bitset_eqI:
  assumes "length bs = length bs'" "\<And>j. j < 8 * length bs \<Longrightarrow> bitset_bit bs j \<longleftrightarrow> bitset_bit bs' j"
  shows "bs = bs'"
proof (rule nth_equalityI)
  fix k assume k: "k < length bs"
  show "bs ! k = bs' ! k"
  proof (rule bit_word_eqI)
    fix n assume "n < LENGTH(8)"
    then obtain m where m: "m < 8" "n = 7 - m"
      by (intro that [of "7 - n"]) auto
    have "(8 * k + m) div 8 = k" "(8 * k + m) mod 8 = m" "8 * k + m < 8 * length bs"
      using m k by auto
    then show "bit (bs ! k) n = bit (bs' ! k) n"
      using assms(2)[of "8 * k + m"] m by (simp add: bitset_bit_def)
  qed
qed (use assms in simp)

lemma encode_loop_bits_zero:
  assumes "j < 8 * ((length data + 7) div 8)"
  shows "bitset_bit (fst (encode_loop 0 data (replicate ((length data + 7) div 8) 0) [])) j
           \<longleftrightarrow> j < length data \<and> data ! j \<noteq> 0"
proof -
  have "bitset_bit (replicate ((length data + 7) div 8) 0) j \<longleftrightarrow> False"
    using assms by (simp add: bitset_bit_def less_mult_imp_div_less mult.commute)
  then show ?thesis
    using assms by (subst encode_loop_bits) auto
qed

abbreviation nonzero :: "bytes \<Rightarrow> bytes" where
  "nonzero \<equiv> filter (\<lambda>b. b \<noteq> 0)"

lemma decode_loop_complete:
  assumes "\<And>j. j < i + n \<Longrightarrow> bitset_bit bs j \<longleftrightarrow> j < length d \<and> d ! j \<noteq> 0"
    and "length d \<le> i + n"
    and "data = pre @ nonzero (drop i d) @ rest"
  shows "decode_loop n i bs data (length pre) (take i d @ replicate (length d - i) 0)
           = Inr (d, length pre + length (nonzero (drop i d)))"
  using assms
proof (induction n arbitrary: i pre)
  case 0
  then show ?case by simp
next
  case (Suc n)
  show ?case
  proof (cases "i < length d \<and> d ! i \<noteq> 0")
    case True
    have drop: "nonzero (drop i d) = d ! i # nonzero (drop (Suc i) d)"
      using True by (simp add: Cons_nth_drop_Suc [symmetric])
    have upd: "(take i d @ replicate (length d - i) 0)[i := d ! i]
        = take (Suc i) d @ replicate (length d - Suc i) 0"
      using True by (auto simp: take_Suc_conv_app_nth list_update_append Suc_diff_Suc [symmetric])
    have "bitset_bit bs i" using True Suc.prems(1) [of i] by simp
    moreover have "data ! length pre = d ! i" "length pre < length data"
      using Suc.prems(3) drop by auto
    moreover have "decode_loop n (Suc i) bs data (length (pre @ [d ! i]))
          (take (Suc i) d @ replicate (length d - Suc i) 0)
        = Inr (d, length (pre @ [d ! i]) + length (nonzero (drop (Suc i) d)))"
      using Suc.prems drop by (intro Suc.IH) auto
    ultimately show ?thesis
      using True drop upd by (simp add: decode_loop_Suc)
  next
    case False
    have "\<not> bitset_bit bs i" using False Suc.prems(1) [of i] by simp
    moreover have "nonzero (drop i d) = nonzero (drop (Suc i) d)"
      using False by (cases "i < length d") (simp_all add: Cons_nth_drop_Suc [symmetric])
    moreover have "take i d @ replicate (length d - i) 0 = take (Suc i) d @ replicate (length d - Suc i) 0"
      using False by (cases "i < length d")
        (simp_all add: take_Suc_conv_app_nth Suc_diff_Suc [symmetric])
    ultimately show ?thesis
      using Suc.IH [of "Suc i" pre] Suc.prems False by (auto simp: decode_loop_Suc)
  qed
qed

text \<open>What a run of the loop from bit \<open>i\<close> over \<open>n\<close> bits establishes about its output.\<close>

definition decoded :: "nat \<Rightarrow> nat \<Rightarrow> bytes \<Rightarrow> bytes \<Rightarrow> nat \<Rightarrow> bytes \<Rightarrow> bytes \<Rightarrow> nat \<Rightarrow> bool" where
  "decoded i n bs data ptr decomp out ptr' \<longleftrightarrow>
     length out = length decomp \<and> ptr \<le> ptr' \<and> ptr' \<le> length data
     \<and> take i out = take i decomp
     \<and> (\<forall>j. i \<le> j \<longrightarrow> j < i + n \<longrightarrow> (bitset_bit bs j \<longleftrightarrow> j < length out \<and> out ! j \<noteq> 0))
     \<and> (\<forall>j. i + n \<le> j \<longrightarrow> j < length out \<longrightarrow> out ! j = 0)
     \<and> nonzero (drop i out) = take (ptr' - ptr) (drop ptr data)"

lemma take_Suc_eqD:
  assumes "take (Suc i) xs = take (Suc i) ys" "i < length ys"
  shows "take i xs = take i ys" "xs ! i = ys ! i"
proof -
  have "take i (take (Suc i) xs) = take i (take (Suc i) ys)" using assms by simp
  then show "take i xs = take i ys" by simp
  have "take (Suc i) xs ! i = take (Suc i) ys ! i" using assms by simp
  then show "xs ! i = ys ! i" by simp
qed

lemma decoded_set:
  assumes d: "decoded (Suc i) n bs data (Suc ptr) (decomp[i := data ! ptr]) out ptr'"
    and g: "ptr < length data" "i < length decomp" "data ! ptr \<noteq> 0" "bitset_bit bs i"
  shows "decoded i (Suc n) bs data ptr decomp out ptr'"
proof -
  have len: "length out = length decomp" "Suc ptr \<le> ptr'" "ptr' \<le> length data"
    and pre: "take (Suc i) out = take (Suc i) (decomp[i := data ! ptr])"
    and nz: "nonzero (drop (Suc i) out) = take (ptr' - Suc ptr) (drop (Suc ptr) data)"
    using d by (auto simp: decoded_def)
  have out_i: "out ! i = data ! ptr" and pre': "take i out = take i decomp"
    using take_Suc_eqD [OF pre] g by auto
  have "nonzero (drop i out) = data ! ptr # nonzero (drop (Suc i) out)"
    using g len out_i by (simp add: Cons_nth_drop_Suc [symmetric])
  also have "\<dots> = take (ptr' - ptr) (drop ptr data)"
    using nz g len by (simp add: Cons_nth_drop_Suc [symmetric] Suc_diff_Suc [symmetric] take_Cons')
  finally have nz': "nonzero (drop i out) = take (ptr' - ptr) (drop ptr data)" .
  have "bitset_bit bs j \<longleftrightarrow> j < length out \<and> out ! j \<noteq> 0" if "i \<le> j" "j < i + Suc n" for j
    using that d g len out_i by (cases "j = i") (auto simp: decoded_def)
  then show ?thesis using d len pre' nz' by (auto simp: decoded_def)
qed

lemma decoded_clear:
  assumes d: "decoded (Suc i) n bs data ptr decomp out ptr'"
    and g: "\<not> bitset_bit bs i" "i < length decomp \<Longrightarrow> decomp ! i = 0"
  shows "decoded i (Suc n) bs data ptr decomp out ptr'"
proof (cases "i < length decomp")
  case True
  have len: "length out = length decomp" and pre: "take (Suc i) out = take (Suc i) decomp"
    using d by (auto simp: decoded_def)
  have out_i: "out ! i = 0" and pre': "take i out = take i decomp"
    using take_Suc_eqD [OF pre] g True by auto
  have nz: "nonzero (drop i out) = nonzero (drop (Suc i) out)"
    using out_i True len by (simp add: Cons_nth_drop_Suc [symmetric])
  have "bitset_bit bs j \<longleftrightarrow> j < length out \<and> out ! j \<noteq> 0" if "i \<le> j" "j < i + Suc n" for j
    using that d g out_i by (cases "j = i") (auto simp: decoded_def)
  then show ?thesis using d pre' nz by (simp add: decoded_def)
next
  case False
  have "length out = length decomp" "take (Suc i) out = take (Suc i) decomp"
    using d by (simp_all add: decoded_def)
  then have eq: "take i out = take i decomp" "drop i out = drop (Suc i) out"
    using False by simp_all
  have "bitset_bit bs j \<longleftrightarrow> j < length out \<and> out ! j \<noteq> 0" if "i \<le> j" "j < i + Suc n" for j
    using that d g False by (cases "j = i") (auto simp: decoded_def)
  then show ?thesis using d eq by (simp add: decoded_def)
qed

lemma decode_loop_sound:
  assumes "decode_loop n i bs data ptr decomp = Inr (out, ptr')"
    and "\<And>j. i \<le> j \<Longrightarrow> j < length decomp \<Longrightarrow> decomp ! j = 0"
    and "ptr \<le> length data"
  shows "decoded i n bs data ptr decomp out ptr'"
  using assms
proof (induction n arbitrary: i ptr decomp)
  case 0
  have "nonzero (drop i decomp) = []"
    using 0 by (auto simp: filter_empty_conv in_set_conv_nth)
  then show ?case using 0 by (auto simp: decoded_def)
next
  case (Suc n)
  show ?case
  proof (cases "bitset_bit bs i")
    case True
    then have g: "ptr < length data" "i < length decomp" "data ! ptr \<noteq> 0"
      and rec: "decode_loop n (Suc i) bs data (Suc ptr) (decomp[i := data ! ptr]) = Inr (out, ptr')"
      using Suc.prems(1) by (auto simp: decode_loop_Suc split: if_splits)
    show ?thesis
      using Suc.IH [OF rec] Suc.prems(2) g by (intro decoded_set [OF _ g True]) auto
  next
    case False
    then have rec: "decode_loop n (Suc i) bs data ptr decomp = Inr (out, ptr')"
      using Suc.prems(1) by (simp add: decode_loop_Suc)
    show ?thesis
      using Suc.IH [OF rec] Suc.prems(2,3) by (intro decoded_clear [OF _ False]) auto
  qed
qed

subsection \<open>Compression and decompression are inverse\<close>

lemma bitsetEncodeBytes_long:
  assumes "2 \<le> length data"
  shows "bitsetEncodeBytes data =
    (if nonzero data = [] then []
     else bitsetEncodeBytes (fst (encode_loop 0 data (replicate ((length data + 7) div 8) 0) []))
            @ nonzero data)"
  using assms encode_loop_bytes [of 0 data "replicate ((length data + 7) div 8) 0" "[]"]
  by (subst bitsetEncodeBytes.simps) (auto split: prod.splits)

lemma bitsetDecodePartialBytes_long:
  assumes "2 \<le> target" "data \<noteq> []"
  shows "bitsetDecodePartialBytes data target =
    (case bitsetDecodePartialBytes data ((target + 7) div 8) of
       Inl e \<Rightarrow> Inl e
     | Inr (bs, ptr) \<Rightarrow> decode_loop (8 * length bs) 0 bs data ptr (replicate target 0))"
  using assms by (subst bitsetDecodePartialBytes.simps) simp

lemma bitsetEncodeBytes_zero: "nonzero data = [] \<Longrightarrow> bitsetEncodeBytes data = []"
proof -
  assume z: "nonzero data = []"
  consider "data = []" | b where "data = [b]" | "2 \<le> length data"
    by (cases data rule: remdups_adj.cases) auto
  then show ?thesis
  proof cases
    case 1
    then show ?thesis by (simp add: bitsetEncodeBytes.simps)
  next
    case 2
    then show ?thesis using z by (simp add: bitsetEncodeBytes.simps split: if_splits)
  next
    case 3
    then show ?thesis using z by (simp add: bitsetEncodeBytes_long)
  qed
qed

lemma replicate_iff_zero: "bs = replicate (length bs) a \<longleftrightarrow> (\<forall>x \<in> set bs. x = a)"
  by (induction bs) auto

lemma bitset_nonzero_iff:
  "nonzero bs \<noteq> [] \<longleftrightarrow> (\<exists>j < 8 * length bs. bitset_bit bs j)"
proof -
  have z: "\<not> bitset_bit (replicate (length bs) 0) j" if "j < 8 * length bs" for j
    using that by (simp add: bitset_bit_def less_mult_imp_div_less mult.commute)
  have "nonzero bs = [] \<longleftrightarrow> bs = replicate (length bs) 0"
    by (simp only: replicate_iff_zero filter_empty_conv not_not)
  also have "\<dots> \<longleftrightarrow> (\<forall>j < 8 * length bs. \<not> bitset_bit bs j)"
  proof
    assume "\<forall>j < 8 * length bs. \<not> bitset_bit bs j"
    then show "bs = replicate (length bs) 0"
      using z by (intro bitset_eqI) auto
  next
    assume eq: "bs = replicate (length bs) 0"
    show "\<forall>j < 8 * length bs. \<not> bitset_bit bs j"
      using z by (simp only: eq [symmetric]) blast
  qed
  finally show ?thesis by blast
qed

lemma bitset_of_nonzero:
  assumes "nonzero data \<noteq> []" "bs = fst (encode_loop 0 data (replicate ((length data + 7) div 8) 0) [])"
  shows "length bs = (length data + 7) div 8" "nonzero bs \<noteq> []"
proof -
  show len: "length bs = (length data + 7) div 8"
    using assms(2) by (simp add: length_encode_loop)
  obtain j where "j < length data" "data ! j \<noteq> 0"
    using assms(1) by (auto simp: filter_empty_conv in_set_conv_nth)
  then show "nonzero bs \<noteq> []"
    unfolding bitset_nonzero_iff len using assms(2) encode_loop_bits_zero [of j data]
    by (intro exI [of _ j]) auto
qed

text \<open>
  The encoding of a slice with a non-zero byte is self-delimiting: the decoder finds its end in
  a longer input.
\<close>

lemma bitsetDecodePartialBytes_encode:
  assumes "nonzero data \<noteq> []"
  shows "bitsetDecodePartialBytes (bitsetEncodeBytes data @ rest) (length data)
           = Inr (data, length (bitsetEncodeBytes data))"
  using assms
proof (induction data arbitrary: rest rule: length_induct)
  case (1 data)
  show ?case
  proof (cases "2 \<le> length data")
    case False
    then obtain b where "data = [b]" "b \<noteq> 0"
      using 1(2) by (cases data rule: remdups_adj.cases) (auto split: if_splits)
    then show ?thesis
      by (simp add: bitsetEncodeBytes.simps bitsetDecodePartialBytes.simps)
  next
    case True
    define bs where "bs = fst (encode_loop 0 data (replicate ((length data + 7) div 8) 0) [])"
    note bs = bitset_of_nonzero [OF 1(2) bs_def]
    have "length bs < length data" using True bs(1) by linarith
    then have IH: "bitsetDecodePartialBytes (bitsetEncodeBytes bs @ rest) (length bs)
        = Inr (bs, length (bitsetEncodeBytes bs))" for rest
      using 1(1) bs(2) by blast
    have enc: "bitsetEncodeBytes data = bitsetEncodeBytes bs @ nonzero data"
      using bitsetEncodeBytes_long [OF True] 1(2) by (simp add: bs_def)
    have "decode_loop (8 * length bs) 0 bs (bitsetEncodeBytes data @ rest)
          (length (bitsetEncodeBytes bs)) (take 0 data @ replicate (length data - 0) 0)
        = Inr (data, length (bitsetEncodeBytes bs) + length (nonzero (drop 0 data)))"
      by (rule decode_loop_complete) (use bs(1) encode_loop_bits_zero enc in \<open>auto simp: bs_def\<close>)
    then show ?thesis
      using True 1(2) IH [of "nonzero data @ rest"] bs(1) enc
      by (simp add: bitsetDecodePartialBytes_long)
  qed
qed

text \<open>C30. Decompressing with the original length gives back what was compressed.\<close>

theorem DecompressBytes_CompressBytes:
  "DecompressBytes (CompressBytes data) (length data) = Inr data"
proof (cases "length (bitsetEncodeBytes data) < length data")
  case False
  then show ?thesis by (simp add: CompressBytes_def DecompressBytes_def)
next
  case True
  have "bitsetDecodeBytes (bitsetEncodeBytes data) (length data) = Inr data"
  proof (cases "nonzero data = []")
    case True
    then have "\<forall>x \<in> set data. x = 0" by (simp add: filter_empty_conv)
    then have "replicate (length data) 0 = data" by (rule replicate_iff_zero [THEN iffD2, symmetric])
    then show ?thesis
      using bitsetEncodeBytes_zero [OF True]
      by (simp add: bitsetDecodeBytes_def bitsetDecodePartialBytes.simps)
  next
    case False
    then show ?thesis
      using bitsetDecodePartialBytes_encode [OF False, of "[]"] by (simp add: bitsetDecodeBytes_def)
  qed
  then show ?thesis using True by (simp add: CompressBytes_def DecompressBytes_def)
qed

subsection \<open>The decoder accepts only encodings\<close>

lemma bitset_short:
  "bitsetDecodePartialBytes data 0 = Inr ([], 0)"
  "0 < target \<Longrightarrow> bitsetDecodePartialBytes [] target = Inr (replicate target 0, 0)"
  "bitsetDecodePartialBytes (b # data) (Suc 0) = Inr ([b], if b \<noteq> 0 then 1 else 0)"
  "bitsetEncodeBytes [] = []"
  "bitsetEncodeBytes [b] = (if b = 0 then [] else [b])"
  by (simp_all add: bitsetDecodePartialBytes.simps bitsetEncodeBytes.simps)

lemma encode_of_decoded:
  assumes d: "decoded 0 (8 * length bs) bs data ptr (replicate target 0) out n"
    and len: "length bs = (target + 7) div 8"
  shows "fst (encode_loop 0 out (replicate ((length out + 7) div 8) 0) []) = bs"
proof -
  have out: "length out = target" using d by (simp add: decoded_def)
  show ?thesis
  proof (rule bitset_eqI)
    fix j
    assume "j < 8 * length (fst (encode_loop 0 out (replicate ((length out + 7) div 8) 0) []))"
    then have "j < 8 * ((length out + 7) div 8)" by (simp add: length_encode_loop)
    then show "bitset_bit (fst (encode_loop 0 out (replicate ((length out + 7) div 8) 0) [])) j
        \<longleftrightarrow> bitset_bit bs j"
      using d len out encode_loop_bits_zero [of j out] by (simp add: decoded_def)
  qed (use out len in \<open>simp add: length_encode_loop\<close>)
qed

text \<open>
  A decoded slice without a non-zero byte consumed no input; any other consumed exactly its
  encoding.
\<close>

definition canonical :: "bytes \<Rightarrow> nat \<Rightarrow> bytes \<Rightarrow> nat \<Rightarrow> bool" where
  "canonical data target out n \<longleftrightarrow> length out = target \<and> n \<le> length data
     \<and> (if nonzero out = [] then n = 0 else bitsetEncodeBytes out = take n data)"

lemma canonical_short:
  assumes "bitsetDecodePartialBytes data target = Inr (out, n)" "\<not> (2 \<le> target \<and> data \<noteq> [])"
  shows "canonical data target out n"
proof -
  consider "target = 0" | "data = []" "0 < target" | b bs where "data = b # bs" "target = 1"
    using assms(2) by (cases data; cases "target = 0"; cases "target = 1") auto
  then show ?thesis
  proof cases
    case 1
    then show ?thesis using assms(1) by (simp add: canonical_def bitset_short)
  next
    case 2
    then show ?thesis using assms(1) by (auto simp: canonical_def bitset_short filter_empty_conv)
  next
    case (3 b bs)
    then show ?thesis using assms(1) by (auto simp: canonical_def bitset_short split: if_splits)
  qed
qed

lemma decoded_zero_iff:
  assumes d: "decoded 0 (8 * length bs) bs data ptr (replicate target 0) out n"
    and len: "length bs = (target + 7) div 8"
  shows "nonzero bs = [] \<longleftrightarrow> nonzero out = []"
proof -
  have bit: "bitset_bit bs j \<longleftrightarrow> j < length out \<and> out ! j \<noteq> 0" if "j < 8 * length bs" for j
    using d that by (simp add: decoded_def)
  have "length out \<le> 8 * length bs" using d len by (simp add: decoded_def)
  then have "(\<exists>j < 8 * length bs. bitset_bit bs j) \<longleftrightarrow> (\<exists>j < length out. out ! j \<noteq> 0)"
    using bit by (meson less_le_trans)
  moreover have "nonzero out \<noteq> [] \<longleftrightarrow> (\<exists>j < length out. out ! j \<noteq> 0)"
    by (metis (mono_tags, lifting) filter_empty_conv in_set_conv_nth)
  ultimately show ?thesis using bitset_nonzero_iff [of bs] by blast
qed

lemma canonical_step:
  assumes bs: "canonical data ((target + 7) div 8) bs ptr" and "2 \<le> target"
    and d: "decoded 0 (8 * length bs) bs data ptr (replicate target 0) out n"
  shows "canonical data target out n"
proof -
  have len: "length bs = (target + 7) div 8" using bs by (simp add: canonical_def)
  have out: "length out = target" "ptr \<le> n" "n \<le> length data"
    and nz: "nonzero out = take (n - ptr) (drop ptr data)"
    using d by (simp_all add: decoded_def)
  note zero = decoded_zero_iff [OF d len]
  show ?thesis
  proof (cases "nonzero out = []")
    case True
    have "take (n - ptr) (drop ptr data) = []" using nz True by (rule subst)
    then have "n = ptr" using out by auto
    moreover have "ptr = 0" using bs zero True by (simp only: canonical_def if_True simp_thms)
    ultimately show ?thesis using True out by (simp only: canonical_def if_True simp_thms)
  next
    case False
    have enc_bs: "bitsetEncodeBytes bs = take ptr data"
      using bs zero False by (simp only: canonical_def if_False simp_thms)
    have "bitsetEncodeBytes out = bitsetEncodeBytes bs @ nonzero out"
      using bitsetEncodeBytes_long [of out] \<open>2 \<le> target\<close> out(1) False encode_of_decoded [OF d len]
      by (simp only: if_False simp_thms)
    also have "\<dots> = take n data"
      unfolding enc_bs nz using out take_add [of ptr "n - ptr" data] by simp
    finally show ?thesis using False out by (simp only: canonical_def if_False simp_thms)
  qed
qed

lemma bitsetDecodePartialBytes_canonical:
  assumes "bitsetDecodePartialBytes data target = Inr (out, n)"
  shows "canonical data target out n"
  using assms
proof (induction data target arbitrary: out n rule: bitsetDecodePartialBytes.induct)
  case (1 data target)
  show ?case
  proof (cases "2 \<le> target \<and> data \<noteq> []")
    case False
    with 1(2) show ?thesis by (rule canonical_short)
  next
    case True
    then obtain bs ptr where dec: "bitsetDecodePartialBytes data ((target + 7) div 8) = Inr (bs, ptr)"
      and loop: "decode_loop (8 * length bs) 0 bs data ptr (replicate target 0) = Inr (out, n)"
      using 1(2) bitsetDecodePartialBytes_long [of target data] by (auto split: sum.splits)
    have bs: "canonical data ((target + 7) div 8) bs ptr"
      using 1(1)[of bs ptr] dec True by simp
    have "decoded 0 (8 * length bs) bs data ptr (replicate target 0) out n"
      by (rule decode_loop_sound [OF loop]) (use bs in \<open>auto simp: canonical_def\<close>)
    with bs True show ?thesis by (blast intro: canonical_step)
  qed
qed

text \<open>
  C33. The decoder accepts only the encoder's output: whatever \<open>bitsetDecodeBytes\<close> decodes has the
  requested length and encodes back to the very input.
\<close>

theorem bitsetDecodeBytes_canonical:
  assumes "bitsetDecodeBytes data target = Inr out"
  shows "length out = target \<and> bitsetEncodeBytes out = data"
  using assms bitsetDecodePartialBytes_canonical [of data target]
  by (auto simp: bitsetDecodeBytes_def canonical_def bitsetEncodeBytes_zero split: sum.splits if_splits)

theorem bitsetDecodeBytes_canonical_witness:
  "bitsetDecodeBytes [192, 7, 9] 3 = Inr [7, 9, 0]
   \<and> length [7, 9, 0 :: byte] = 3 \<and> bitsetEncodeBytes [7, 9, 0] = [192, 7, 9]"
proof -
  have "bitsetDecodeBytes [192, 7, 9] 3 = Inr [7, 9, 0]" by code_simp
  then show ?thesis using bitsetDecodeBytes_canonical [of "[192, 7, 9]" 3 "[7, 9, 0]"] by simp
qed

end
