(* ===== verification/Bitutil.thy ===== *)
theory Bitutil
  imports Prelude
begin

text \<open>
  The bulk operations of \<^verbatim>\<open>common/bitutil/bitutil.go\<close>: \<^verbatim>\<open>XORBytes\<close>, \<^verbatim>\<open>ANDBytes\<close>, \<^verbatim>\<open>ORBytes\<close> and
  \<^verbatim>\<open>TestBytes\<close>, each in its word-wise and its byte-wise version. A machine word (\<^verbatim>\<open>uintptr\<close>, 8 bytes)
  is read from and written to the memory of a slice by \<open>load_word\<close> and \<open>store_word\<close>, least
  significant byte first. The destination is passed in and returned updated together with the
  number of bytes processed. A byte-wise write past the end of the destination panics; the
  word-wise version is outside its documented precondition there and is given the same outcome.

  Shown: the word-wise versions compute what the byte-wise ones do, so the result does not depend
  on the platform. The argument is made once for any pair of a byte and a word operation that
  agree byte by byte (locale \<open>bytewise\<close>), and used for the three operations.
\<close>

definition wordSize :: nat where
  "wordSize = 8"

definition load_word :: "bytes \<Rightarrow> nat \<Rightarrow> u64" where
  "load_word p i = foldr (\<lambda>b w. push_bit 8 w OR ucast b) (take wordSize (drop (wordSize * i) p)) 0"

definition word_bytes :: "u64 \<Rightarrow> bytes" where
  "word_bytes w = map (\<lambda>j. ucast (drop_bit (8 * j) w)) [0..<wordSize]"

definition store_word :: "bytes \<Rightarrow> nat \<Rightarrow> u64 \<Rightarrow> bytes" where
  "store_word p i w = take (wordSize * i) p @ word_bytes w @ drop (wordSize * i + wordSize) p"

subsection \<open>The loops\<close>

text \<open>\<^verbatim>\<open>for i := from; i < n; i++ { dst[i] = a[i] op b[i] }\<close>\<close>

fun byte_loop :: "(byte \<Rightarrow> byte \<Rightarrow> byte) \<Rightarrow> nat list \<Rightarrow> bytes \<Rightarrow> bytes \<Rightarrow> bytes \<Rightarrow> (unit, bytes) result" where
  "byte_loop f [] dst a b = Ok dst"
| "byte_loop f (i # is) dst a b =
     (if i < length dst then byte_loop f is (dst[i := f (a ! i) (b ! i)]) a b else Panic)"

text \<open>\<^verbatim>\<open>for i := 0; i < w; i++ { dw[i] = aw[i] op bw[i] }\<close>\<close>

fun word_loop :: "(u64 \<Rightarrow> u64 \<Rightarrow> u64) \<Rightarrow> nat list \<Rightarrow> bytes \<Rightarrow> bytes \<Rightarrow> bytes \<Rightarrow> bytes" where
  "word_loop f [] dst a b = dst"
| "word_loop f (i # is) dst a b =
     word_loop f is (store_word dst i (f (load_word a i) (load_word b i))) a b"

definition safe_bytes :: "(byte \<Rightarrow> byte \<Rightarrow> byte) \<Rightarrow> bytes \<Rightarrow> bytes \<Rightarrow> bytes \<Rightarrow> (unit, bytes \<times> nat) result" where
  "safe_bytes f dst a b =
     (let n = (if length b < length a then length b else length a)
      in bind_result (byte_loop f [0..<n] dst a b) (\<lambda>d. Ok (d, n)))"

definition fast_bytes ::
  "(u64 \<Rightarrow> u64 \<Rightarrow> u64) \<Rightarrow> (byte \<Rightarrow> byte \<Rightarrow> byte) \<Rightarrow> bytes \<Rightarrow> bytes \<Rightarrow> bytes \<Rightarrow> (unit, bytes \<times> nat) result" where
  "fast_bytes fw fb dst a b =
     (let n = (if length b < length a then length b else length a);
          w = n div wordSize
      in if length dst < n then Panic
         else bind_result
                (byte_loop fb [n - n mod wordSize..<n]
                   (if w > 0 then word_loop fw [0..<w] dst a b else dst) a b)
                (\<lambda>d. Ok (d, n)))"

definition safeXORBytes :: "bytes \<Rightarrow> bytes \<Rightarrow> bytes \<Rightarrow> (unit, bytes \<times> nat) result" where
  "safeXORBytes = safe_bytes (XOR)"

definition fastXORBytes :: "bytes \<Rightarrow> bytes \<Rightarrow> bytes \<Rightarrow> (unit, bytes \<times> nat) result" where
  "fastXORBytes = fast_bytes (XOR) (XOR)"

definition XORBytes :: "bool \<Rightarrow> bytes \<Rightarrow> bytes \<Rightarrow> bytes \<Rightarrow> (unit, bytes \<times> nat) result" where
  "XORBytes supportsUnaligned dst a b =
     (if supportsUnaligned then fastXORBytes dst a b else safeXORBytes dst a b)"

definition safeANDBytes :: "bytes \<Rightarrow> bytes \<Rightarrow> bytes \<Rightarrow> (unit, bytes \<times> nat) result" where
  "safeANDBytes = safe_bytes (AND)"

definition fastANDBytes :: "bytes \<Rightarrow> bytes \<Rightarrow> bytes \<Rightarrow> (unit, bytes \<times> nat) result" where
  "fastANDBytes = fast_bytes (AND) (AND)"

definition ANDBytes :: "bool \<Rightarrow> bytes \<Rightarrow> bytes \<Rightarrow> bytes \<Rightarrow> (unit, bytes \<times> nat) result" where
  "ANDBytes supportsUnaligned dst a b =
     (if supportsUnaligned then fastANDBytes dst a b else safeANDBytes dst a b)"

definition safeORBytes :: "bytes \<Rightarrow> bytes \<Rightarrow> bytes \<Rightarrow> (unit, bytes \<times> nat) result" where
  "safeORBytes = safe_bytes (OR)"

definition fastORBytes :: "bytes \<Rightarrow> bytes \<Rightarrow> bytes \<Rightarrow> (unit, bytes \<times> nat) result" where
  "fastORBytes = fast_bytes (OR) (OR)"

definition ORBytes :: "bool \<Rightarrow> bytes \<Rightarrow> bytes \<Rightarrow> bytes \<Rightarrow> (unit, bytes \<times> nat) result" where
  "ORBytes supportsUnaligned dst a b =
     (if supportsUnaligned then fastORBytes dst a b else safeORBytes dst a b)"

definition safeTestBytes :: "bytes \<Rightarrow> bool" where
  "safeTestBytes p = list_ex (\<lambda>i. p ! i \<noteq> 0) [0..<length p]"

definition fastTestBytes :: "bytes \<Rightarrow> bool" where
  "fastTestBytes p =
     (let n = length p; w = n div wordSize
      in if w > 0 \<and> list_ex (\<lambda>i. load_word p i \<noteq> 0) [0..<w] then True
         else list_ex (\<lambda>i. p ! i \<noteq> 0) [n - n mod wordSize..<n])"

definition TestBytes :: "bool \<Rightarrow> bytes \<Rightarrow> bool" where
  "TestBytes supportsUnaligned p =
     (if supportsUnaligned then fastTestBytes p else safeTestBytes p)"

subsection \<open>Words and their bytes\<close>

lemma bit_foldr_bytes:
  "k < 64 \<Longrightarrow> length bs \<le> 8 \<Longrightarrow>
     bit (foldr (\<lambda>b w. push_bit 8 w OR ucast b) bs (0 :: u64)) k
       \<longleftrightarrow> k div 8 < length bs \<and> bit ((bs :: bytes) ! (k div 8)) (k mod 8)"
proof (induction bs arbitrary: k)
  case Nil
  then show ?case by simp
next
  case (Cons b bs)
  show ?case
  proof (cases "k < 8")
    case True
    then show ?thesis by (simp add: bit_simps)
  next
    case False
    moreover have "\<not> bit b k" using False bit_imp_le_length [of b k] by auto
    moreover have "k div 8 = Suc ((k - 8) div 8)" "k mod 8 = (k - 8) mod 8"
      using False by (simp_all add: le_div_geq le_mod_geq)
    ultimately show ?thesis
      using Cons.IH [of "k - 8"] Cons.prems by (simp add: bit_simps)
  qed
qed

lemma bit_load_word:
  assumes "k < 64" "8 * i + 8 \<le> length p"
  shows "bit (load_word p i) k \<longleftrightarrow> bit (p ! (8 * i + k div 8)) (k mod 8)"
proof -
  have "k div 8 < 8" using assms(1) by (simp add: less_mult_imp_div_less)
  then show ?thesis
    using assms unfolding load_word_def wordSize_def by (subst bit_foldr_bytes) auto
qed

lemma byte_of_load_word:
  assumes "j < 8" "8 * i + 8 \<le> length p"
  shows "ucast (drop_bit (8 * j) (load_word p i)) = p ! (8 * i + j)"
proof (rule bit_word_eqI)
  fix n assume "n < LENGTH(8)"
  then have "n < 8" by simp
  then show "bit (ucast (drop_bit (8 * j) (load_word p i)) :: byte) n = bit (p ! (8 * i + j)) n"
    using assms by (simp add: bit_simps bit_load_word)
qed

lemma load_word_eq_0_iff:
  assumes "8 * i + 8 \<le> length p"
  shows "load_word p i = 0 \<longleftrightarrow> (\<forall>j < 8. p ! (8 * i + j) = 0)"
proof
  assume "load_word p i = 0"
  then show "\<forall>j < 8. p ! (8 * i + j) = 0"
    using byte_of_load_word [OF _ assms] by (metis drop_bit_of_0 unsigned_0)
next
  assume z: "\<forall>j < 8. p ! (8 * i + j) = 0"
  show "load_word p i = 0"
  proof (rule bit_word_eqI)
    fix k assume "k < LENGTH(64)"
    moreover from this have "k div 8 < 8" by (simp add: less_mult_imp_div_less)
    ultimately show "bit (load_word p i) k = bit (0 :: u64) k"
      using z assms by (simp add: bit_load_word)
  qed
qed

lemma length_word_bytes [simp]: "length (word_bytes w) = 8"
  by (simp add: word_bytes_def wordSize_def)

lemma length_store_word [simp]:
  "8 * i + 8 \<le> length p \<Longrightarrow> length (store_word p i w) = length p"
  by (simp add: store_word_def wordSize_def)

lemma nth_store_word:
  assumes "8 * i + 8 \<le> length p" "k < length p"
  shows "store_word p i w ! k =
    (if k div 8 = i then ucast (drop_bit (8 * (k mod 8)) w) else p ! k)"
proof -
  consider "k < 8 * i" | "8 * i \<le> k" "k < 8 * i + 8" | "8 * i + 8 \<le> k" by linarith
  then show ?thesis
  proof cases
    case 1
    moreover from this have "k div 8 < i" by (simp add: less_mult_imp_div_less mult.commute)
    ultimately show ?thesis using assms by (simp add: store_word_def wordSize_def nth_append)
  next
    case 2
    then obtain j where "k = 8 * i + j" "j < 8" by (metis add_less_cancel_left le_Suc_ex)
    then show ?thesis using assms
      by (simp add: store_word_def wordSize_def nth_append word_bytes_def)
  next
    case 3
    moreover from this have "k div 8 \<noteq> i" "\<not> k - 8 * i < 8" by auto
    ultimately show ?thesis using assms
      by (simp add: store_word_def wordSize_def nth_append add.assoc)
  qed
qed


subsection \<open>Word-wise and byte-wise loops agree\<close>

lemma byte_loop_append:
  "byte_loop f (is @ js) dst a b = bind_result (byte_loop f is dst a b) (\<lambda>d. byte_loop f js d a b)"
  by (induction f "is" dst a b rule: byte_loop.induct) auto

lemma byte_loop_map:
  "m \<le> n \<Longrightarrow> n \<le> length dst \<Longrightarrow>
     byte_loop f [m..<n] dst a b
       = Ok (map (\<lambda>i. if m \<le> i \<and> i < n then f (a ! i) (b ! i) else dst ! i) [0..<length dst])"
proof (induction "n - m" arbitrary: m dst)
  case 0
  then show ?case by (auto intro!: nth_equalityI)
next
  case (Suc k)
  then have "m < n" by simp
  then have "[m..<n] = m # [Suc m..<n]" by (rule upt_conv_Cons)
  then show ?case
    using Suc by (auto intro!: nth_equalityI simp: nth_list_update)
qed

lemma byte_loop_short:
  "length dst < n \<Longrightarrow> byte_loop f [0..<n] dst a b = Panic"
proof -
  assume "length dst < n"
  then have "[0..<n] = [0..<length dst] @ length dst # [Suc (length dst)..<n]"
    by (metis less_imp_add_positive upt_add_eq_append upt_conv_Cons le0 less_add_same_cancel1)
  then show ?thesis by (simp add: byte_loop_append byte_loop_map)
qed

locale bytewise =
  fixes fw :: "u64 \<Rightarrow> u64 \<Rightarrow> u64" and fb :: "byte \<Rightarrow> byte \<Rightarrow> byte"
  assumes byte_of: "j < 8 \<Longrightarrow> ucast (drop_bit (8 * j) (fw v w))
    = fb (ucast (drop_bit (8 * j) v)) (ucast (drop_bit (8 * j) w))"
begin

lemma word_loop_map:
  "8 * w \<le> length dst \<Longrightarrow> 8 * w \<le> length a \<Longrightarrow> 8 * w \<le> length b \<Longrightarrow>
     word_loop fw [v..<w] dst a b
       = map (\<lambda>i. if 8 * v \<le> i \<and> i < 8 * w then fb (a ! i) (b ! i) else dst ! i) [0..<length dst]"
proof (induction "w - v" arbitrary: v dst)
  case 0
  then show ?case by (auto intro!: nth_equalityI)
next
  case (Suc k)
  then have v: "v < w" by simp
  then have "[v..<w] = v # [Suc v..<w]" by (rule upt_conv_Cons)
  moreover have "store_word dst v (fw (load_word a v) (load_word b v)) ! i
      = (if i div 8 = v then fb (a ! i) (b ! i) else dst ! i)" if "i < length dst" for i
    using Suc.prems v that byte_of_load_word [of "i mod 8" v a] byte_of_load_word [of "i mod 8" v b]
    by (auto simp: nth_store_word byte_of)
  ultimately show ?case
    using Suc v by (auto intro!: nth_equalityI)
qed

lemma fast_eq_safe: "fast_bytes fw fb = safe_bytes fb"
proof (intro ext)
  fix dst a b :: bytes
  define n where "n = (if length b < length a then length b else length a)"
  define m where "m = n - n mod wordSize"
  have n: "n \<le> length a" "n \<le> length b" by (auto simp: n_def)
  have m: "8 * (n div 8) = m" "m \<le> n" by (auto simp: m_def wordSize_def minus_mod_eq_mult_div)
  show "fast_bytes fw fb dst a b = safe_bytes fb dst a b"
  proof (cases "length dst < n")
    case True
    then show ?thesis
      by (simp add: fast_bytes_def safe_bytes_def byte_loop_short flip: n_def)
  next
    case False
    have "(if n div wordSize > 0 then word_loop fw [0..<n div wordSize] dst a b else dst)
        = map (\<lambda>i. if i < m then fb (a ! i) (b ! i) else dst ! i) [0..<length dst]"
      using word_loop_map [of "n div 8" dst a b 0] False n m
      by (auto simp: wordSize_def map_nth)
    then have "fast_bytes fw fb dst a b = bind_result (byte_loop fb [m..<n]
        (map (\<lambda>i. if i < m then fb (a ! i) (b ! i) else dst ! i) [0..<length dst]) a b)
        (\<lambda>d. Ok (d, n))"
      using False by (simp add: fast_bytes_def flip: n_def m_def)
    also have "\<dots> = safe_bytes fb dst a b"
      using False m by (auto simp: safe_bytes_def byte_loop_map simp flip: n_def intro!: nth_equalityI)
    finally show ?thesis .
  qed
qed

lemma fast_bytes_result:
  assumes "min (length a) (length b) \<le> length dst"
  shows "fast_bytes fw fb dst a b = Ok (map2 fb a b @ drop (min (length a) (length b)) dst,
                                        min (length a) (length b))"
proof -
  have "(if length b < length a then length b else length a) = min (length a) (length b)" by auto
  then show ?thesis
    using assms by (auto simp: fast_eq_safe safe_bytes_def byte_loop_map nth_append
        intro!: nth_equalityI)
qed

end

interpretation xor_bytes: bytewise "(XOR)" "(XOR)"
  by unfold_locales (simp add: drop_bit_xor unsigned_xor_eq)

interpretation and_bytes: bytewise "(AND)" "(AND)"
  by unfold_locales (simp add: drop_bit_and unsigned_and_eq)

interpretation or_bytes: bytewise "(OR)" "(OR)"
  by unfold_locales (simp add: drop_bit_or unsigned_or_eq)

subsection \<open>Properties\<close>


text \<open>
  \<^verbatim>\<open>XORBytes\<close> is its own inverse: when the destination has room, XORing two slices of equal length
  and XORing the result with the second slice again gives back the first, on either platform.
\<close>

theorem XORBytes_involutive:
  assumes "length a = length b" "length b = length dst"
  shows "bind_result (XORBytes fast dst a b) (\<lambda>(d, n). XORBytes fast' dst d b) = Ok (a, length a)"
proof -
  have "XORBytes f dst x b = Ok (map2 (XOR) x b, length b)" if "length x = length b" for f x
    using that assms xor_bytes.fast_bytes_result [of x b dst]
    by (simp add: XORBytes_def fastXORBytes_def safeXORBytes_def xor_bytes.fast_eq_safe)
  moreover have "map2 (XOR) (map2 (XOR) a b) b = a"
    using assms by (auto intro!: nth_equalityI simp: xor.assoc)
  ultimately show ?thesis using assms by simp
qed

theorem XORBytes_involutive_witness:
  "bind_result (XORBytes True [0, 0, 0] [1, 2, 255] [7, 7, 7]) (\<lambda>(d, n). XORBytes False [0, 0, 0] d [7, 7, 7])
     = Ok ([1, 2, 255], 3)"
  using XORBytes_involutive [of "[1, 2, 255]" "[7, 7, 7]" "[0, 0, 0]" True False] by simp

lemma words_zero_iff:
  "(\<exists>i < length p div 8. load_word p i \<noteq> 0)
     \<longleftrightarrow> (\<exists>k < length p - length p mod 8. p ! k \<noteq> 0)"
proof -
  have m: "8 * (length p div 8) = length p - length p mod 8" by (simp add: minus_mod_eq_mult_div)
  then have "(\<exists>i < length p div 8. load_word p i \<noteq> 0) \<longleftrightarrow>
      (\<exists>i < length p div 8. \<exists>j < 8. p ! (8 * i + j) \<noteq> 0)"
    by (intro ex_cong1 conj_cong refl) (simp add: load_word_eq_0_iff)
  also have "\<dots> \<longleftrightarrow> (\<exists>k < length p - length p mod 8. p ! k \<noteq> 0)"
  proof (safe, goal_cases)
    case (1 i j)
    then show ?case using m by (intro exI [of _ "8 * i + j"]) auto
  next
    case (2 k)
    then show ?case
      using m by (intro exI [of _ "k div 8"])
        (auto intro!: exI [of _ "k mod 8"] simp: less_mult_imp_div_less mult.commute)
  qed
  finally show ?thesis .
qed

text \<open>
  \<^verbatim>\<open>TestBytes\<close> answers false, on either platform, exactly for the slices of zero bytes.
\<close>

theorem TestBytes_correct: "\<not> TestBytes fast p \<longleftrightarrow> p = replicate (length p) 0"
proof -
  have "TestBytes fast p \<longleftrightarrow> (\<exists>k < length p. p ! k \<noteq> 0)"
  proof (cases fast)
    case True
    then have "TestBytes fast p \<longleftrightarrow> (\<exists>i < length p div 8. load_word p i \<noteq> 0) \<or>
        (\<exists>k. length p - length p mod 8 \<le> k \<and> k < length p \<and> p ! k \<noteq> 0)"
      by (auto simp: TestBytes_def fastTestBytes_def list_ex_iff wordSize_def Let_def)
    then show ?thesis unfolding words_zero_iff by (meson diff_le_self not_le less_le_trans)
  next
    case False
    then show ?thesis by (auto simp: TestBytes_def safeTestBytes_def list_ex_iff)
  qed
  then show ?thesis by (auto simp: list_eq_iff_nth_eq)
qed

end
