(* ===== verification/Gomath.thy ===== *)
theory Gomath
  imports Prelude
begin

text \<open>
  \<^verbatim>\<open>common/math/integer.go\<close> and \<^verbatim>\<open>common/math/big.go\<close>. Unsigned 64-bit integers are 64-bit words, a
  \<^verbatim>\<open>*big.Int\<close> is the integer it holds (an operation that overwrites its argument returns the new value
  too), \<^verbatim>\<open>Bits()\<close> is the list of the 64-bit words of the absolute value, least significant first.
  \<^verbatim>\<open>strconv.ParseUint\<close>, \<^verbatim>\<open>big.Int.SetString\<close> and the verb \<open>%#x\<close> are modelled as the standard library
  defines them.

  Shown: the overflow flags are exact; a parsed number is the value its digits denote, and parsing
  fails exactly on non-digits and on values out of range; marshalling round trips; two's complement
  conversions, byte extraction, padding, and exponentiation by squaring compute what they are meant to.
\<close>

subsection \<open>Overflow-checked arithmetic\<close>

definition MaxUint64 :: u64 where
  "MaxUint64 = -1"

definition SafeSub :: "u64 \<Rightarrow> u64 \<Rightarrow> u64 \<times> bool" where
  "SafeSub x y = (x - y, x < y)"

definition SafeAdd :: "u64 \<Rightarrow> u64 \<Rightarrow> u64 \<times> bool" where
  "SafeAdd x y = (x + y, y > MaxUint64 - x)"

definition SafeMul :: "u64 \<Rightarrow> u64 \<Rightarrow> u64 \<times> bool" where
  "SafeMul x y = (if x = 0 \<or> y = 0 then (0, False) else (x * y, y > MaxUint64 div x))"

subsection \<open>Digits and unsigned numbers of the standard library\<close>

definition digit_val :: "char \<Rightarrow> nat option" where
  "digit_val ch =
     (let d = of_char ch :: nat in
      if of_char (CHR ''0'') \<le> d \<and> d \<le> of_char (CHR ''9'') then Some (d - of_char (CHR ''0''))
      else if of_char (CHR ''a'') \<le> d \<and> d \<le> of_char (CHR ''z'') then Some (d - of_char (CHR ''a'') + 10)
      else if of_char (CHR ''A'') \<le> d \<and> d \<le> of_char (CHR ''Z'') then Some (d - of_char (CHR ''A'') + 10)
      else None)"

datatype num_error = NumErrSyntax | NumErrRange

fun parse_uint_loop :: "nat \<Rightarrow> u64 \<Rightarrow> u64 \<Rightarrow> string \<Rightarrow> u64 \<times> num_error option" where
  "parse_uint_loop base cutoff n [] = (n, None)"
| "parse_uint_loop base cutoff n (d # s) =
     (case digit_val d of
        None \<Rightarrow> (0, Some NumErrSyntax)
      | Some v \<Rightarrow>
          if v \<ge> base then (0, Some NumErrSyntax)
          else if n \<ge> cutoff then (MaxUint64, Some NumErrRange)
          else (let m = n * of_nat base; n1 = m + of_nat v in
                if n1 < m \<or> n1 > MaxUint64 then (MaxUint64, Some NumErrRange)
                else parse_uint_loop base cutoff n1 s))"

definition ParseUint :: "string \<Rightarrow> nat \<Rightarrow> u64 \<times> num_error option" where
  "ParseUint s base =
     (if s = [] then (0, Some NumErrSyntax)
      else parse_uint_loop base (MaxUint64 div of_nat base + 1) 0 s)"

definition has_0x :: "string \<Rightarrow> bool" where
  "has_0x s \<longleftrightarrow> length s \<ge> 2 \<and> (take 2 s = ''0x'' \<or> take 2 s = ''0X'')"

definition ParseUint64 :: "string \<Rightarrow> u64 \<times> bool" where
  "ParseUint64 s =
     (if s = [] then (0, True)
      else if has_0x s then (let (v, err) = ParseUint (drop 2 s) 16 in (v, err = None))
      else (let (v, err) = ParseUint s 10 in (v, err = None)))"

definition MustParseUint64 :: "string \<Rightarrow> (unit, u64) result" where
  "MustParseUint64 s = (let (v, ok) = ParseUint64 s in if \<not> ok then Panic else Ok v)"

definition hex_digit :: "nat \<Rightarrow> char" where
  "hex_digit d = (if d < 10 then char_of (d + 48) else char_of (d + 87))"

fun hex_digits :: "nat \<Rightarrow> string" where
  "hex_digits n = (if n < 16 then [hex_digit n] else hex_digits (n div 16) @ [hex_digit (n mod 16)])"

declare hex_digits.simps [simp del]

definition HexOrDecimal64_UnmarshalText :: "string \<Rightarrow> (string, u64) result" where
  "HexOrDecimal64_UnmarshalText input =
     (let (i, ok) = ParseUint64 input in if \<not> ok then Err ''invalid hex or decimal integer'' else Ok i)"

definition HexOrDecimal64_MarshalText :: "u64 \<Rightarrow> string" where
  "HexOrDecimal64_MarshalText i = ''0x'' @ hex_digits (unat i)"

subsection \<open>Big integers\<close>

fun bit_len :: "nat \<Rightarrow> nat" where
  "bit_len n = (if n = 0 then 0 else Suc (bit_len (n div 2)))"

declare bit_len.simps [simp del]

definition BitLen :: "int \<Rightarrow> nat" where
  "BitLen x = bit_len (nat \<bar>x\<bar>)"

fun nat_words :: "nat \<Rightarrow> u64 list" where
  "nat_words n = (if n = 0 then [] else of_nat n # nat_words (n div 2 ^ 64))"

declare nat_words.simps [simp del]

definition Bits :: "int \<Rightarrow> u64 list" where
  "Bits x = nat_words (nat \<bar>x\<bar>)"

fun le_bytes :: "nat \<Rightarrow> nat \<Rightarrow> bytes" where
  "le_bytes 0 n = []"
| "le_bytes (Suc k) n = of_nat n # le_bytes k (n div 256)"

text \<open>\<^verbatim>\<open>big.Int.Bytes\<close>: the absolute value, most significant byte first, without leading zeros.\<close>

definition big_Bytes :: "int \<Rightarrow> bytes" where
  "big_Bytes x = rev (le_bytes ((BitLen x + 7) div 8) (nat \<bar>x\<bar>))"

text \<open>\<^verbatim>\<open>big.Int.SetBytes\<close>\<close>

definition big_SetBytes :: "bytes \<Rightarrow> int" where
  "big_SetBytes bs = foldl (\<lambda>acc b. acc * 256 + uint b) 0 bs"

definition tt255 :: int where "tt255 = 2 ^ 255"

definition tt256 :: int where "tt256 = 2 ^ 256"

definition tt256m1 :: int where "tt256m1 = tt256 - 1"

fun scan_nat :: "nat \<Rightarrow> nat \<Rightarrow> string \<Rightarrow> nat option" where
  "scan_nat base acc [] = Some acc"
| "scan_nat base acc (d # s) =
     (case digit_val d of
        None \<Rightarrow> None
      | Some v \<Rightarrow> if v < base then scan_nat base (acc * base + v) s else None)"

text \<open>\<^verbatim>\<open>big.Int.SetString\<close> in a base other than 0: an optional sign and at least one digit.\<close>

definition SetString :: "string \<Rightarrow> nat \<Rightarrow> int option" where
  "SetString s base =
     (let (neg, ds) = (case s of
          [] \<Rightarrow> (False, [])
        | ch # cs \<Rightarrow> if ch = CHR ''-'' then (True, cs) else if ch = CHR ''+'' then (False, cs) else (False, s))
      in if ds = [] then None
         else map_option (\<lambda>n. if neg then - int n else int n) (scan_nat base 0 ds))"

definition ParseBig256 :: "string \<Rightarrow> int option" where
  "ParseBig256 s =
     (if s = [] then Some 0
      else let bigint = (if has_0x s then SetString (drop 2 s) 16 else SetString s 10)
           in case bigint of
                None \<Rightarrow> None
              | Some x \<Rightarrow> if BitLen x > 256 then None else Some x)"

definition MustParseBig256 :: "string \<Rightarrow> (unit, int) result" where
  "MustParseBig256 s = (case ParseBig256 s of None \<Rightarrow> Panic | Some v \<Rightarrow> Ok v)"

definition HexOrDecimal256_UnmarshalText :: "string \<Rightarrow> (string, int) result" where
  "HexOrDecimal256_UnmarshalText input =
     (case ParseBig256 input of None \<Rightarrow> Err ''invalid hex or decimal integer'' | Some b \<Rightarrow> Ok b)"

definition HexOrDecimal256_MarshalText :: "int option \<Rightarrow> string" where
  "HexOrDecimal256_MarshalText i =
     (case i of
        None \<Rightarrow> ''0x0''
      | Some x \<Rightarrow> (if x < 0 then ''-'' else []) @ ''0x'' @ hex_digits (nat \<bar>x\<bar>))"

text \<open>\<^verbatim>\<open>big.Int.Exp\<close> without a modulus returns 1 for an exponent that is not positive.\<close>

definition BigPow :: "int \<Rightarrow> int \<Rightarrow> int" where
  "BigPow a b = (if b \<le> 0 then 1 else a ^ nat b)"

definition BigMax :: "int \<Rightarrow> int \<Rightarrow> int" where
  "BigMax x y = (if x < y then y else x)"

definition BigMin :: "int \<Rightarrow> int \<Rightarrow> int" where
  "BigMin x y = (if x > y then y else x)"

fun first_bit_loop :: "nat \<Rightarrow> int \<Rightarrow> nat" where
  "first_bit_loop k v =
     (if k = 0 then BitLen v
      else if bit v (BitLen v - k) then BitLen v - k else first_bit_loop (k - 1) v)"

declare first_bit_loop.simps [simp del]

definition FirstBitSet :: "int \<Rightarrow> nat" where
  "FirstBitSet v = first_bit_loop (BitLen v) v"

definition wordBits :: nat where "wordBits = 64"

definition wordBytes :: nat where "wordBytes = wordBits div 8"

definition bigEndianByteAt :: "int \<Rightarrow> nat \<Rightarrow> byte" where
  "bigEndianByteAt bigint n =
     (let words = Bits bigint; i = n div wordBytes in
      if i \<ge> length words then 0
      else ucast (drop_bit (8 * (n mod wordBytes)) (words ! i)))"

definition Byte :: "int \<Rightarrow> nat \<Rightarrow> nat \<Rightarrow> byte" where
  "Byte bigint padlength n =
     (if n \<ge> padlength then 0 else bigEndianByteAt bigint (padlength - 1 - n))"

fun read_word :: "nat \<Rightarrow> u64 \<Rightarrow> nat \<Rightarrow> bytes \<Rightarrow> nat \<times> bytes" where
  "read_word 0 d i buf = (i, buf)"
| "read_word (Suc j) d i buf =
     (if i > 0 then read_word j (drop_bit 8 d) (i - 1) (buf[i - 1 := ucast d]) else (i, buf))"

fun read_words :: "u64 list \<Rightarrow> nat \<Rightarrow> bytes \<Rightarrow> bytes" where
  "read_words [] i buf = buf"
| "read_words (d # ds) i buf = (let (i', buf') = read_word wordBytes d i buf in read_words ds i' buf')"

definition ReadBits :: "int \<Rightarrow> bytes \<Rightarrow> bytes" where
  "ReadBits bigint buf = read_words (Bits bigint) (length buf) buf"

definition PaddedBigBytes :: "int \<Rightarrow> nat \<Rightarrow> bytes" where
  "PaddedBigBytes bigint n =
     (if BitLen bigint div 8 \<ge> n then big_Bytes bigint else ReadBits bigint (replicate n 0))"

definition U256 :: "int \<Rightarrow> int" where
  "U256 x = x AND tt256m1"

definition S256 :: "int \<Rightarrow> int" where
  "S256 x = (if x < tt255 then x else x - tt256)"

fun exp_word :: "nat \<Rightarrow> u64 \<Rightarrow> int \<Rightarrow> int \<Rightarrow> int \<times> int" where
  "exp_word 0 w r base = (r, base)"
| "exp_word (Suc i) w r base =
     exp_word i (drop_bit 1 w) (if w AND 1 = 1 then U256 (r * base) else r) (U256 (base * base))"

fun exp_words :: "u64 list \<Rightarrow> int \<Rightarrow> int \<Rightarrow> int \<times> int" where
  "exp_words [] r base = (r, base)"
| "exp_words (w # ws) r base = (let (r', base') = exp_word wordBits w r base in exp_words ws r' base')"

text \<open>The result, and the value left in \<^verbatim>\<open>base\<close>.\<close>

definition Exp :: "int \<Rightarrow> int \<Rightarrow> int \<times> int" where
  "Exp base exponent = exp_words (Bits exponent) 1 base"

subsection \<open>Exact overflow flags\<close>

lemma unat_MaxUint64: "unat MaxUint64 = 2 ^ 64 - 1"
  by (simp add: MaxUint64_def unsigned_minus_1_eq_mask mask_eq_exp_minus_1)

lemma less_Max_div:
  assumes "0 < unat x"
  shows "MaxUint64 div x < y \<longleftrightarrow> 2 ^ 64 \<le> unat y * unat x"
proof -
  have "MaxUint64 div x < y \<longleftrightarrow> \<not> unat y \<le> (2 ^ 64 - 1) div unat x"
    by (simp only: word_less_nat_alt unat_div unat_MaxUint64 not_le)
  also have "\<dots> \<longleftrightarrow> 2 ^ 64 \<le> unat y * unat x"
    using assms by (auto simp: less_eq_div_iff_mult_less_eq)
  finally show ?thesis .
qed

lemma SafeAdd_exact: "SafeAdd x y = (x + y, 2 ^ 64 \<le> unat x + unat y)"
proof -
  have "y > MaxUint64 - x \<longleftrightarrow> unat y > 2 ^ 64 - 1 - unat x"
    using unat_sub [of x MaxUint64] unat_u64_less [of x]
    by (simp add: word_less_nat_alt word_le_nat_alt unat_MaxUint64)
  then show ?thesis using unat_u64_less [of x] by (auto simp: SafeAdd_def)
qed

lemma SafeMul_exact: "SafeMul x y = (x * y, 2 ^ 64 \<le> unat x * unat y)"
  by (auto simp: SafeMul_def less_Max_div unat_gt_0 mult.commute)

text \<open>
  C39. \<^verbatim>\<open>SafeAdd\<close>, \<^verbatim>\<open>SafeSub\<close> and \<^verbatim>\<open>SafeMul\<close> return the result modulo two to the 64 and a flag that is set
  exactly when the mathematical result does not fit in 64 bits.
\<close>

theorem safe_arithmetic_exact:
  "unat (fst (SafeAdd x y)) = (unat x + unat y) mod 2 ^ 64 \<and>
   snd (SafeAdd x y) = (2 ^ 64 \<le> unat x + unat y) \<and>
   uint (fst (SafeSub x y)) = (uint x - uint y) mod 2 ^ 64 \<and>
   snd (SafeSub x y) = (uint x - uint y < 0) \<and>
   unat (fst (SafeMul x y)) = unat x * unat y mod 2 ^ 64 \<and>
   snd (SafeMul x y) = (2 ^ 64 \<le> unat x * unat y)"
  by (simp add: SafeAdd_exact SafeMul_exact SafeSub_def unat_word_ariths uint_word_ariths
      word_less_alt)

subsection \<open>Parsing numbers\<close>

lemma scan_nat_mono: "scan_nat base acc s = Some n \<Longrightarrow> 0 < base \<Longrightarrow> acc \<le> n"
proof (induction base acc s rule: scan_nat.induct)
  case (2 base acc d s)
  then obtain v where "digit_val d = Some v" "v < base" "acc * base + v \<le> n"
    by (auto split: option.splits if_splits)
  moreover have "acc \<le> acc * base" using 2 by simp
  ultimately show ?case by linarith
qed auto

lemma parse_uint_loop_digit:
  assumes base: "1 < base" "base \<le> 36" and d: "digit_val d = Some v" "v < base"
  shows "parse_uint_loop base (MaxUint64 div of_nat base + 1) n (d # s) =
    (if unat n * base + v < 2 ^ 64
     then parse_uint_loop base (MaxUint64 div of_nat base + 1) (n * of_nat base + of_nat v) s
     else (MaxUint64, Some NumErrRange))"
proof -
  have ub: "unat (of_nat base :: u64) = base" and uv: "unat (of_nat v :: u64) = v"
    using assms by (simp_all add: unat_u64_of_nat)
  have "(2 ^ 64 - 1) div base \<le> (2 ^ 64 - 1) div (2 :: nat)"
    using base by (intro div_le_mono2) auto
  then have "(2 ^ 64 - 1) div base < (2 :: nat) ^ 64 - 1"
    by (rule le_less_trans) simp
  then have "MaxUint64 div of_nat base < MaxUint64"
    by (simp only: word_less_nat_alt unat_div unat_MaxUint64 ub)
  then have "unat (MaxUint64 div of_nat base + 1) = unat (MaxUint64 div of_nat base) + 1"
    using unat_u64_add [of "MaxUint64 div of_nat base" 1]
    by (simp add: word_less_nat_alt unat_MaxUint64)
  then have "n \<ge> MaxUint64 div of_nat base + 1 \<longleftrightarrow> MaxUint64 div of_nat base < n"
    by (simp add: word_less_nat_alt word_le_nat_alt Suc_le_eq)
  then have cut: "n \<ge> MaxUint64 div of_nat base + 1 \<longleftrightarrow> 2 ^ 64 \<le> unat n * base"
    using less_Max_div [of "of_nat base" n] ub base by simp
  have max: "\<not> n1 > MaxUint64" for n1
    using unat_u64_less [of n1] by (simp add: word_less_nat_alt unat_MaxUint64)
  have um: "unat (n * of_nat base) = unat n * base" if "unat n * base < 2 ^ 64"
    using that ub by (simp add: unat_u64_mult)
  have wrap: "n * of_nat base + of_nat v < n * of_nat base \<longleftrightarrow> 2 ^ 64 \<le> unat n * base + v"
    if "unat n * base < 2 ^ 64"
    using um [OF that] uv that assms
    by (auto simp: word_less_nat_alt unat_word_ariths(1) [of "n * of_nat base"] mod_if)
  show ?thesis
    using assms(3,4) by (simp add: cut max Let_def) (auto simp: wrap)
qed

lemma parse_uint_loop_iff:
  assumes base: "1 < base" "base \<le> 36"
  shows "parse_uint_loop base (MaxUint64 div of_nat base + 1) n s = (m, None)
    \<longleftrightarrow> (\<exists>k. scan_nat base (unat n) s = Some k \<and> k < 2 ^ 64 \<and> m = of_nat k)"
proof (induction s arbitrary: n)
  case Nil
  show ?case using unat_u64_less [of n] by auto
next
  case (Cons d s)
  show ?case
  proof (cases "\<exists>v. digit_val d = Some v \<and> v < base")
    case True
    then obtain v where v: "digit_val d = Some v" "v < base" by auto
    have "unat n * base + v \<le> k" if "scan_nat base (unat n * base + v) s = Some k" for k
      using scan_nat_mono [OF that] base by simp
    moreover have "unat (n * of_nat base + of_nat v) = unat n * base + v"
      if "unat n * base + v < 2 ^ 64"
      using that v base by (simp add: unat_u64_add unat_u64_mult unat_u64_of_nat)
    ultimately show ?thesis
      using v Cons.IH [of "n * of_nat base + of_nat v"] base
      by (auto simp: parse_uint_loop_digit simp del: parse_uint_loop.simps)
  next
    case False
    then show ?thesis by (auto split: option.splits)
  qed
qed

lemma ParseUint_iff:
  assumes "1 < base" "base \<le> 36"
  shows "ParseUint s base = (m, None)
    \<longleftrightarrow> s \<noteq> [] \<and> (\<exists>k. scan_nat base 0 s = Some k \<and> k < 2 ^ 64 \<and> m = of_nat k)"
  using parse_uint_loop_iff [OF assms, of 0 s m] by (simp add: ParseUint_def)

text \<open>
  \<^verbatim>\<open>ParseUint64\<close> succeeds exactly on the empty string, which is zero, and on the non-empty strings
  of decimal digits, or of hexadecimal digits after \<open>0x\<close> or \<open>0X\<close>, that denote a number below two to
  the 64; it then returns that number.
\<close>

theorem ParseUint64_correct:
  "ParseUint64 s = (v, True) \<longleftrightarrow>
     (if s = [] then v = 0
      else if has_0x s
      then drop 2 s \<noteq> [] \<and> (\<exists>k. scan_nat 16 0 (drop 2 s) = Some k \<and> k < 2 ^ 64 \<and> v = of_nat k)
      else \<exists>k. scan_nat 10 0 s = Some k \<and> k < 2 ^ 64 \<and> v = of_nat k)"
proof -
  have ok: "(let (v', err) = p in (v', err = None)) = (v, True) \<longleftrightarrow> p = (v, None)"
    for p :: "u64 \<times> num_error option"
    by (cases p) auto
  show ?thesis
    unfolding ParseUint64_def
    by (simp only: ok ParseUint_iff if_distrib [of "\<lambda>p. p = (v, True)"] split: if_split) auto
qed

lemma digit_val_hex_digit: "d < 16 \<Longrightarrow> digit_val (hex_digit d) = Some d"
  by (auto simp: digit_val_def hex_digit_def Let_def)

lemma scan_nat_append:
  "scan_nat base acc (s @ t) = Option.bind (scan_nat base acc s) (\<lambda>n. scan_nat base n t)"
  by (induction base acc s rule: scan_nat.induct) (auto split: option.splits)

lemma scan_hex_digits: "scan_nat 16 0 (hex_digits n) = Some n"
proof (induction n rule: hex_digits.induct)
  case (1 n)
  then show ?case
    by (subst hex_digits.simps) (auto simp: digit_val_hex_digit scan_nat_append)
qed

lemma hex_digits_not_Nil [simp]: "hex_digits n \<noteq> []"
  by (subst hex_digits.simps) simp

lemma hex_digits_no_sign: "hd (hex_digits n) \<noteq> CHR ''-'' \<and> hd (hex_digits n) \<noteq> CHR ''+''"
proof (induction n rule: hex_digits.induct)
  case (1 n)
  have "hex_digit d \<noteq> CHR ''-'' \<and> hex_digit d \<noteq> CHR ''+''" if "d < 16" for d
    using digit_val_hex_digit [OF that] by (auto simp: digit_val_def)
  then show ?case using 1 by (subst (1 2) hex_digits.simps) (auto simp: hd_append)
qed

lemma has_0x_prefixed [simp]: "has_0x (CHR ''0'' # CHR ''x'' # s)"
  by (simp add: has_0x_def)

text \<open>
  \<^verbatim>\<open>HexOrDecimal64\<close>: unmarshalling the text a value is marshalled to gives the value back.
\<close>

theorem HexOrDecimal64_roundtrip:
  "HexOrDecimal64_UnmarshalText (HexOrDecimal64_MarshalText i) = Ok i"
proof -
  have "ParseUint (hex_digits (unat i)) 16 = (i, None)"
    using unat_u64_less [of i] by (simp add: ParseUint_iff scan_hex_digits)
  then show ?thesis
    by (simp add: HexOrDecimal64_UnmarshalText_def HexOrDecimal64_MarshalText_def ParseUint64_def)
qed

subsection \<open>Words, bytes and bit lengths of big integers\<close>

lemma bit_len_bounds: "n < 2 ^ bit_len n \<and> (0 < n \<longrightarrow> 2 ^ (bit_len n - 1) \<le> n)"
proof (induction n rule: bit_len.induct)
  case (1 n)
  show ?case
  proof (cases "n < 2")
    case True
    then have "n = 0 \<or> n = 1" by auto
    then show ?thesis by (elim disjE) (simp_all add: bit_len.simps [of 0] bit_len.simps [of "Suc 0"])
  next
    case False
    then have IH: "n div 2 < 2 ^ bit_len (n div 2)" "2 ^ (bit_len (n div 2) - 1) \<le> n div 2"
      and eq: "bit_len n = Suc (bit_len (n div 2))"
      using 1 by (auto simp: bit_len.simps [of n])
    moreover have "0 < bit_len (n div 2)" using False by (simp add: bit_len.simps [of "n div 2"])
    ultimately show ?thesis by (cases "bit_len (n div 2)") auto
  qed
qed

lemma bit_len_le_iff: "bit_len n \<le> k \<longleftrightarrow> n < 2 ^ k"
proof
  assume "bit_len n \<le> k"
  then show "n < 2 ^ k"
    using bit_len_bounds [of n] power_increasing [of "bit_len n" k "2 :: nat"] by linarith
next
  assume n: "n < 2 ^ k"
  show "bit_len n \<le> k"
  proof (rule ccontr)
    assume "\<not> bit_len n \<le> k"
    moreover from this have "n \<noteq> 0" by (cases "n = 0") (simp_all add: bit_len.simps [of 0])
    moreover have "(2 :: nat) ^ k \<le> 2 ^ (bit_len n - 1)"
      using \<open>\<not> bit_len n \<le> k\<close> by (intro power_increasing) auto
    ultimately show False using n bit_len_bounds [of n] by linarith
  qed
qed

lemma length_le_bytes [simp]: "length (le_bytes k n) = k"
  by (induction k n rule: le_bytes.induct) auto

lemma le_bytes_add: "le_bytes (j + k) n = le_bytes j n @ le_bytes k (n div 256 ^ j)"
  by (induction j n rule: le_bytes.induct) (auto simp: div_mult2_eq)

lemma le_bytes_zero: "le_bytes k 0 = replicate k 0"
  by (induction k) auto

lemma nth_le_bytes: "j < k \<Longrightarrow> le_bytes k n ! j = of_nat (n div 256 ^ j)"
  by (induction k n arbitrary: j rule: le_bytes.induct) (auto simp: nth_Cons div_mult2_eq split: nat.split)

lemma mod_mult_div: "0 < a \<Longrightarrow> (n :: nat) mod (a * b) div a = n div a mod b"
  by (simp add: mod_mult2_eq)

lemma byte_of_nat_mod: "(of_nat (n mod 256 ^ Suc d) :: byte) = of_nat n"
proof -
  have "n mod 256 ^ Suc d mod 256 = n mod 256" by (rule mod_mod_cancel) simp
  then show ?thesis by (simp only: word_of_nat_eq_iff take_bit_eq_mod) simp
qed

lemma le_bytes_mod:
  assumes "j \<le> k"
  shows "le_bytes j (n mod 256 ^ k) = le_bytes j n"
proof (rule nth_equalityI)
  fix i assume "i < length (le_bytes j (n mod 256 ^ k))"
  then have i: "i < j" by simp
  then obtain d where k: "k = i + Suc d" using assms less_imp_Suc_add [of i k] by auto
  have "n mod 256 ^ k div 256 ^ i = n div 256 ^ i mod 256 ^ Suc d"
    unfolding k power_add by (rule mod_mult_div) simp
  then show "le_bytes j (n mod 256 ^ k) ! i = le_bytes j n ! i"
    using i by (simp only: nth_le_bytes byte_of_nat_mod)
qed simp

lemma nat_words_bound: "n < 256 ^ (8 * length (nat_words n))"
proof (induction n rule: nat_words.induct)
  case (1 n)
  show ?case
  proof (cases "n = 0")
    case False
    then have "n div 2 ^ 64 < 256 ^ (8 * length (nat_words (n div 2 ^ 64)))" using 1 by simp
    then have "n < 256 ^ (8 * length (nat_words (n div 2 ^ 64))) * 2 ^ 64"
      by (rule div_less_iff_less_mult [THEN iffD1, rotated]) simp
    moreover have "(256 :: nat) ^ (8 * length (nat_words n))
        = 256 ^ (8 * length (nat_words (n div 2 ^ 64))) * 2 ^ 64"
      using False by (subst nat_words.simps) (simp add: power_add)
    ultimately show ?thesis by (simp only:)
  qed (simp add: nat_words.simps)
qed

lemma unat_of_nat_256: "unat (of_nat n :: u64) = n mod 256 ^ 8"
  by (simp add: unat_of_nat)

lemma unat_drop_byte: "unat (drop_bit 8 (d :: u64)) = unat d div 256"
  by (simp add: drop_bit_eq_div unat_div)

lemma read_word_eq:
  "read_word k d (length pre) (pre @ post) =
     (length pre - k, take (length pre - k) pre @ rev (le_bytes (min k (length pre)) (unat d)) @ post)"
proof (induction k arbitrary: d pre post)
  case (Suc k)
  show ?case
  proof (cases pre rule: rev_cases)
    case (snoc pre' b)
    have "(ucast d :: byte) = of_nat (unat d)" by (simp add: of_nat_unat)
    then show ?thesis
      using Suc [of "drop_bit 8 d" pre' "ucast d # post"] snoc
      by (simp add: list_update_append unat_drop_byte)
  qed simp
qed simp

lemma read_words_eq:
  "read_words (nat_words n) (length pre) (pre @ post) =
     take (length pre - 8 * length (nat_words n)) pre
       @ rev (le_bytes (min (8 * length (nat_words n)) (length pre)) n) @ post"
proof (induction n arbitrary: pre post rule: nat_words.induct)
  case (1 n)
  show ?case
  proof (cases "n = 0")
    case True
    then show ?thesis by (simp add: nat_words.simps)
  next
    case False
    define q where "q = n div 2 ^ 64"
    define l where "l = min 8 (length pre)"
    define pre' where "pre' = take (length pre - 8) pre"
    have ws: "nat_words n = of_nat n # nat_words q"
      using False unfolding q_def by (subst nat_words.simps) (rule if_not_P)
    have lb: "le_bytes l (unat (of_nat n :: u64)) = le_bytes l n"
      unfolding unat_of_nat_256 by (rule le_bytes_mod) (simp add: l_def)
    have step: "read_words (nat_words n) (length pre) (pre @ post) =
        read_words (nat_words q) (length pre') (pre' @ rev (le_bytes l n) @ post)"
      unfolding ws read_words.simps
      by (simp add: read_word_eq wordBytes_def wordBits_def pre'_def lb flip: l_def)
    have IH: "read_words (nat_words q) (length pre') (pre' @ rev (le_bytes l n) @ post) =
        take (length pre' - 8 * length (nat_words q)) pre'
          @ rev (le_bytes (min (8 * length (nat_words q)) (length pre')) q) @ rev (le_bytes l n) @ post"
      using 1 [OF False] unfolding q_def by blast
    have m: "min (8 * length (nat_words n)) (length pre)
        = l + min (8 * length (nat_words q)) (length pre')"
      by (auto simp: ws l_def pre'_def)
    have "le_bytes (min (8 * length (nat_words n)) (length pre)) n
        = le_bytes l n @ le_bytes (min (8 * length (nat_words q)) (length pre')) q"
    proof (cases "length pre < 8")
      case True
      then show ?thesis unfolding m le_bytes_add by (simp add: pre'_def)
    next
      case False
      then have "n div 256 ^ l = q" by (simp add: l_def q_def)
      then show ?thesis unfolding m le_bytes_add by simp
    qed
    then show ?thesis
      unfolding step IH by (simp add: pre'_def ws min_def)
  qed
qed

text \<open>
  \<^verbatim>\<open>ReadBits\<close> into a zeroed buffer leaves the low bytes of the absolute value there, most significant
  first.
\<close>

lemma ReadBits_eq: "ReadBits x (replicate n 0) = rev (le_bytes n (nat \<bar>x\<bar>))"
proof -
  define v where "v = nat \<bar>x\<bar>"
  define w where "w = 8 * length (nat_words v)"
  have "ReadBits x (replicate n 0) = replicate (n - w) 0 @ rev (le_bytes (min w n) v)"
    using read_words_eq [of v "replicate n 0" "[]"]
    by (simp add: ReadBits_def Bits_def flip: v_def w_def)
  also have "\<dots> = rev (le_bytes (min w n + (n - w)) v)"
  proof (cases "w \<le> n")
    case True
    have "v div 256 ^ w = 0" using nat_words_bound [of v] by (simp add: w_def)
    then show ?thesis using True unfolding le_bytes_add by (simp add: le_bytes_zero)
  qed simp
  finally show ?thesis by (simp add: v_def min_def)
qed

lemma big_SetBytes_rev:
  "big_SetBytes (rev (le_bytes k n)) = int (n mod 256 ^ k)"
proof (induction k n rule: le_bytes.induct)
  case (1 n)
  then show ?case by (simp add: big_SetBytes_def)
next
  case (2 k n)
  have "uint (of_nat n :: byte) = int (n mod 256)" by (simp add: unat_of_nat uint_nat)
  moreover have "n mod 256 ^ Suc k = (n div 256 mod 256 ^ k) * 256 + n mod 256"
    using mod_mult2_eq [of n 256 "256 ^ k"] by simp
  ultimately show ?case using 2 by (simp add: big_SetBytes_def)
qed

lemma nth_nat_words: "i < length (nat_words n) \<Longrightarrow> nat_words n ! i = of_nat (n div 256 ^ (8 * i))"
proof (induction n arbitrary: i rule: nat_words.induct)
  case (1 n)
  show ?case
  proof (cases i)
    case 0
    then show ?thesis using 1 by (subst nat_words.simps) (auto simp: nat_words.simps [of 0])
  next
    case (Suc j)
    have n: "n \<noteq> 0" using "1.prems" by (cases "n = 0") (simp_all add: nat_words.simps [of 0])
    then have ws: "nat_words n = of_nat n # nat_words (n div 2 ^ 64)"
      by (subst nat_words.simps) (rule if_not_P)
    have "nat_words (n div 2 ^ 64) ! j = of_nat (n div 2 ^ 64 div 256 ^ (8 * j))"
      using 1 n Suc ws by simp
    moreover have "n div 2 ^ 64 div 256 ^ (8 * j) = n div 256 ^ (8 * i)"
      unfolding Suc by (simp add: div_mult2_eq [symmetric] power_add)
    ultimately show ?thesis unfolding ws Suc by (simp only: nth_Cons_Suc)
  qed
qed

lemma bigEndianByteAt_eq: "bigEndianByteAt x n = of_nat (nat \<bar>x\<bar> div 256 ^ n)"
proof -
  define v where "v = nat \<bar>x\<bar>"
  define i where "i = n div 8"
  define j where "j = n mod 8"
  have n: "n = 8 * i + j" and j: "j < 8" by (simp_all add: i_def j_def)
  show ?thesis
  proof (cases "i < length (nat_words v)")
    case True
    have "ucast (drop_bit (8 * j) (nat_words v ! i)) = (of_nat (v div 256 ^ n) :: byte)"
    proof -
      have "unat (drop_bit (8 * j) (nat_words v ! i)) = v div 256 ^ (8 * i) mod 256 ^ 8 div 256 ^ j"
        by (simp only: nth_nat_words True unat_drop_bit_eq unat_of_nat_256)
          (simp add: drop_bit_eq_div power_mult)
      also have "\<dots> = v div 256 ^ (8 * i) div 256 ^ j mod 256 ^ Suc (7 - j)"
        using j mod_mult_div [of "256 ^ j" "v div 256 ^ (8 * i)" "256 ^ Suc (7 - j)"]
        by (simp flip: power_add power_Suc)
      also have "\<dots> = v div 256 ^ n mod 256 ^ Suc (7 - j)"
        by (simp only: n power_add div_mult2_eq)
      finally show ?thesis
        by (metis byte_of_nat_mod of_nat_unat word_of_nat_eq_iff unsigned_ucast_eq)
    qed
    then show ?thesis
      using True by (simp add: bigEndianByteAt_def Bits_def wordBytes_def wordBits_def i_def j_def v_def)
  next
    case False
    then have "(256 :: nat) ^ (8 * length (nat_words v)) \<le> 256 ^ n"
      by (intro power_increasing) (auto simp: n)
    then have "v < 256 ^ n" using nat_words_bound [of v] by (rule order_less_le_trans [rotated])
    then have "v div 256 ^ n = 0" by simp
    then show ?thesis
      using False by (simp add: bigEndianByteAt_def Bits_def wordBytes_def wordBits_def i_def v_def)
  qed
qed

lemma PaddedBigBytes_eq:
  "PaddedBigBytes x n = rev (le_bytes (max n ((BitLen x + 7) div 8)) (nat \<bar>x\<bar>))"
proof (cases "BitLen x div 8 \<ge> n")
  case False
  then have "(BitLen x + 7) div 8 \<le> n" by linarith
  then show ?thesis using False by (simp add: PaddedBigBytes_def ReadBits_eq max_def)
next
  case True
  then have "n \<le> (BitLen x + 7) div 8" by linarith
  then show ?thesis using True by (simp add: PaddedBigBytes_def big_Bytes_def max_def)
qed

text \<open>
  \<^verbatim>\<open>PaddedBigBytes\<close> encodes the absolute value in big-endian order on at least the requested number
  of bytes and never more than it needs: reading the bytes back gives the value, and the \<open>k\<close>-th byte
  is the one \<^verbatim>\<open>Byte\<close> returns for that pad length.
\<close>

theorem PaddedBigBytes_correct:
  "big_SetBytes (PaddedBigBytes x n) = \<bar>x\<bar> \<and>
   length (PaddedBigBytes x n) = max n ((BitLen x + 7) div 8) \<and>
   PaddedBigBytes x n = map (Byte x (length (PaddedBigBytes x n))) [0..<length (PaddedBigBytes x n)]"
proof -
  define v where "v = nat \<bar>x\<bar>"
  define l where "l = max n ((BitLen x + 7) div 8)"
  have pb: "PaddedBigBytes x n = rev (le_bytes l v)"
    by (simp add: PaddedBigBytes_eq v_def l_def)
  have "BitLen x \<le> 8 * l" by (auto simp: l_def)
  then have "v < 2 ^ (8 * l)" by (simp add: BitLen_def bit_len_le_iff v_def)
  then have "v < 256 ^ l" by (simp add: power_mult)
  then have "big_SetBytes (rev (le_bytes l v)) = \<bar>x\<bar>"
    by (simp add: big_SetBytes_rev v_def)
  moreover have "rev (le_bytes l v) = map (Byte x l) [0..<l]"
    by (rule nth_equalityI) (auto simp: rev_nth nth_le_bytes Byte_def bigEndianByteAt_eq v_def)
  ultimately show ?thesis by (simp add: pb l_def)
qed

subsection \<open>Two's complement and exponentiation\<close>

lemma U256_mod: "U256 x = x mod 2 ^ 256"
  unfolding U256_def tt256m1_def tt256_def
  by (simp only: mask_eq_exp_minus_1 [symmetric] take_bit_eq_mask [symmetric] take_bit_eq_mod)

lemma twos_complement:
  fixes h x :: int
  assumes "0 < h"
  defines "z \<equiv> (if x mod (2 * h) < h then x mod (2 * h) else x mod (2 * h) - 2 * h)"
  shows "- h \<le> z \<and> z < h \<and> (z = x \<longleftrightarrow> - h \<le> x \<and> x < h)"
proof -
  define m where "m = x mod (2 * h)"
  have m: "0 \<le> m" "m < 2 * h" using assms by (simp_all add: m_def)
  have "m = (if 0 \<le> x then x else x + 2 * h)" if x: "- h \<le> x \<and> x < h"
  proof (cases "0 \<le> x")
    case False
    then have "(x + 2 * h) mod (2 * h) = x + 2 * h" using x by (intro mod_pos_pos_trivial) auto
    then show ?thesis using False by (simp add: m_def)
  qed (use x in \<open>simp add: m_def\<close>)
  moreover have "z = (if m < h then m else m - 2 * h)" by (simp add: z_def m_def)
  ultimately show ?thesis using m by (cases "- h \<le> x \<and> x < h") (auto split: if_splits)
qed

text \<open>
  \<^verbatim>\<open>U256\<close> and \<^verbatim>\<open>S256\<close> convert between a number and its 256-bit two's complement: \<^verbatim>\<open>S256\<close> after \<^verbatim>\<open>U256\<close> is
  the identity on the signed 256-bit range, and its result is always in that range.
\<close>

theorem S256_U256:
  "- (2 ^ 255) \<le> S256 (U256 x) \<and> S256 (U256 x) < 2 ^ 255 \<and>
   (S256 (U256 x) = x \<longleftrightarrow> - (2 ^ 255) \<le> x \<and> x < 2 ^ 255)"
proof -
  have "(2 :: int) ^ 256 = 2 * 2 ^ 255" by simp
  then have "S256 (U256 x) =
      (if x mod (2 * 2 ^ 255) < 2 ^ 255 then x mod (2 * 2 ^ 255) else x mod (2 * 2 ^ 255) - 2 * 2 ^ 255)"
    unfolding S256_def U256_mod tt255_def tt256_def by (simp only:)
  then show ?thesis using twos_complement [of "2 ^ 255" x] by (simp only: zero_less_power zero_less_numeral)
qed

lemma U256_mult_left: "U256 (U256 x * y) = U256 (x * y)"
  unfolding U256_mod by (rule mod_mult_left_eq)

lemma U256_mult_right: "U256 (x * U256 y) = U256 (x * y)"
  unfolding U256_mod by (rule mod_mult_right_eq)

lemma U256_power: "U256 (U256 x ^ n) = U256 (x ^ n)"
  unfolding U256_mod by (rule power_mod)

lemma unat_low_bit: "unat (w :: u64) = 2 * unat (drop_bit 1 w) + (if w AND 1 = 1 then 1 else 0)"
proof -
  have "unat (w AND 1) = unat w mod 2" by (simp add: and_one_eq unat_mod)
  then have "w AND 1 = 1 \<longleftrightarrow> unat w mod 2 = 1" by (metis unsigned_1 word_unat_eq_iff)
  moreover have "unat (drop_bit 1 w) = unat w div 2"
    by (simp only: drop_bit_eq_div unat_div) simp
  ultimately show ?thesis by (auto simp: mod2_eq_if)
qed

lemma exp_word_correct:
  assumes "unat w < 2 ^ k"
  shows "U256 (fst (exp_word k w r b)) = U256 (r * b ^ unat w) \<and>
         U256 (snd (exp_word k w r b)) = U256 (b ^ (2 ^ k))"
  using assms
proof (induction k arbitrary: w r b)
  case 0
  then show ?case by simp
next
  case (Suc k)
  let ?r = "if w AND 1 = 1 then U256 (r * b) else r"
  note w = unat_low_bit [of w]
  have IH: "U256 (fst (exp_word (Suc k) w r b)) = U256 (?r * U256 (b * b) ^ unat (drop_bit 1 w))"
      "U256 (snd (exp_word (Suc k) w r b)) = U256 (U256 (b * b) ^ (2 ^ k))"
    using Suc.IH [of "drop_bit 1 w" ?r "U256 (b * b)"] Suc.prems w by (simp_all split: if_splits)
  have "U256 (?r * U256 (b * b) ^ unat (drop_bit 1 w)) = U256 (?r * (b * b) ^ unat (drop_bit 1 w))"
    by (metis U256_mult_right U256_power)
  also have "\<dots> = U256 (r * b ^ unat w)"
    by (subst w) (simp add: U256_mult_left power_mult power2_eq_square mult.assoc mult.left_commute)
  finally show ?case
    using IH by (simp add: U256_power power_mult power2_eq_square)
qed

lemma exp_words_correct:
  "U256 (fst (exp_words (nat_words n) r b)) = U256 (r * b ^ n) \<and>
   U256 (snd (exp_words (nat_words n) r b)) = U256 (b ^ (2 ^ (64 * length (nat_words n))))"
proof (induction n arbitrary: r b rule: nat_words.induct)
  case (1 n)
  show ?case
  proof (cases "n = 0")
    case True
    then show ?thesis by (simp add: nat_words.simps)
  next
    case False
    define q where "q = n div 2 ^ 64"
    have ws: "nat_words n = of_nat n # nat_words q"
      using False unfolding q_def by (subst nat_words.simps) (rule if_not_P)
    obtain r' b' where rb: "exp_word 64 (of_nat n) r b = (r', b')" by fastforce
    then have step: "U256 r' = U256 (r * b ^ (n mod 2 ^ 64))" "U256 b' = U256 (b ^ (2 ^ 64))"
      using exp_word_correct [of "of_nat n" 64 r b] unat_u64_less [of "of_nat n"]
      by (simp_all only: fst_conv snd_conv unat_of_nat_256 power_mult [symmetric]) (simp_all add: unat_of_nat)
    have IH: "U256 (fst (exp_words (nat_words q) r' b')) = U256 (r' * b' ^ q)"
        "U256 (snd (exp_words (nat_words q) r' b')) = U256 (b' ^ (2 ^ (64 * length (nat_words q))))"
      using 1 [OF False] unfolding q_def by blast+
    have "U256 (r' * b' ^ q) = U256 (U256 r' * U256 (U256 b' ^ q))"
      by (simp only: U256_mult_left U256_mult_right U256_power)
    also have "\<dots> = U256 (r * b ^ (n mod 2 ^ 64) * (b ^ (2 ^ 64)) ^ q)"
      by (simp only: step U256_mult_left U256_mult_right U256_power)
    also have "\<dots> = U256 (r * b ^ (2 ^ 64 * q + n mod 2 ^ 64))"
      by (simp only: power_add power_mult mult.assoc mult.commute [of "b ^ (n mod 2 ^ 64)"])
    also have "2 ^ 64 * q + n mod 2 ^ 64 = n" unfolding q_def by (rule mult_div_mod_eq)
    finally have r: "U256 (r' * b' ^ q) = U256 (r * b ^ n)" .
    have "U256 (b' ^ m) = U256 ((b ^ (2 ^ 64)) ^ m)" for m
      by (metis U256_power step(2))
    then have b: "U256 (b' ^ (2 ^ (64 * k))) = U256 (b ^ (2 ^ (64 * Suc k)))" for k
      by (simp only: power_mult [symmetric] power_add [symmetric] mult_Suc_right)
    show ?thesis
      unfolding ws using IH r b [of "length (nat_words q)"]
      by (simp only: exp_words.simps wordBits_def rb Let_def split_conv list.size add_0_right add_Suc_right fst_conv)
  qed
qed

lemma U256_id: "0 \<le> x \<Longrightarrow> x < 2 ^ 256 \<Longrightarrow> U256 x = x"
  unfolding U256_mod by (rule mod_pos_pos_trivial)

lemma U256_idem: "U256 (U256 x) = U256 x"
  unfolding U256_mod by (rule mod_mod_trivial)

lemma exp_word_reduced:
  "U256 r = r \<Longrightarrow> U256 b = b \<or> 0 < k \<Longrightarrow>
     U256 (fst (exp_word k w r b)) = fst (exp_word k w r b) \<and>
     U256 (snd (exp_word k w r b)) = snd (exp_word k w r b)"
  by (induction k w r b rule: exp_word.induct) (auto simp: U256_idem)

lemma exp_words_reduced:
  "U256 r = r \<Longrightarrow> U256 b = b \<or> ws \<noteq> [] \<Longrightarrow>
     U256 (fst (exp_words ws r b)) = fst (exp_words ws r b) \<and>
     U256 (snd (exp_words ws r b)) = snd (exp_words ws r b)"
proof (induction ws arbitrary: r b)
  case (Cons w ws)
  then show ?case
    using exp_word_reduced [of r b wordBits w]
    by (cases "exp_word wordBits w r b") (auto simp: wordBits_def)
qed simp

text \<open>
  C37. \<^verbatim>\<open>Exp\<close> returns the base raised to the absolute value of the exponent, truncated to 256 bits. It
  squares in place: for a non-zero exponent the caller's base is overwritten by the base raised to
  two to the number of bits of the exponent's words, truncated to 256 bits.
\<close>

theorem Exp_correct:
  "fst (Exp base exponent) = base ^ nat \<bar>exponent\<bar> mod 2 ^ 256 \<and>
   snd (Exp base exponent) =
     (if exponent = 0 then base else base ^ (2 ^ (64 * length (Bits exponent))) mod 2 ^ 256)"
proof (cases "exponent = 0")
  case True
  have "(1 :: int) mod 2 ^ 256 = 1" by (rule mod_pos_pos_trivial) simp_all
  then show ?thesis using True by (simp only: Exp_def Bits_def) (simp add: nat_words.simps)
next
  case False
  have one: "U256 1 = 1" by (rule U256_id) simp_all
  have "Bits exponent \<noteq> []" using False by (simp add: Bits_def nat_words.simps)
  then have "U256 (fst (Exp base exponent)) = fst (Exp base exponent) \<and>
             U256 (snd (Exp base exponent)) = snd (Exp base exponent)"
    unfolding Exp_def by (intro exp_words_reduced one disjI2)
  moreover have "U256 (fst (Exp base exponent)) = U256 (base ^ nat \<bar>exponent\<bar>) \<and>
      U256 (snd (Exp base exponent)) = U256 (base ^ (2 ^ (64 * length (Bits exponent))))"
    using exp_words_correct [of "nat \<bar>exponent\<bar>" 1 base]
    unfolding Exp_def Bits_def by (simp only: mult_1_left)
  ultimately show ?thesis using False unfolding U256_mod by metis
qed

end
