(* ===== verification/HexTypes.thy ===== *)
theory HexTypes
  imports Gomath
begin

text \<open>
  Hexadecimal text and the fixed-size types: \<^verbatim>\<open>common/types/util/bytes.go\<close>, \<^verbatim>\<open>common/types/util/hex\<close> and
  the conversions of \<^verbatim>\<open>common/types/hash.go\<close> and \<^verbatim>\<open>address.go\<close>. Text, whether a \<^verbatim>\<open>string\<close> or a \<^verbatim>\<open>[]byte\<close> of
  characters, is a \<^typ>\<open>string\<close>; binary data is \<^typ>\<open>bytes\<close>; a hash or an address is its list of bytes.
  The package \<^verbatim>\<open>encoding/hex\<close> is modelled by \<open>hex_encode\<close> and \<open>hex_decode\<close> (as of Go 1.10: the bytes decoded
  before an error are returned with it, and an invalid character is reported before an odd length).
  An unmarshalling method that overwrites its receiver returns the new value; on an error the
  receiver is left as it was.

  Shown: the encoders and decoders are inverse to each other, numbers have one encoding up to the case
  of its letters, the two decoders of 64-bit numbers accept the same texts, and the checksum of an
  address never changes the address it denotes.
\<close>

subsection \<open>The standard library\<close>

definition fromHexChar :: "char \<Rightarrow> nat option" where
  "fromHexChar ch = (case digit_val ch of None \<Rightarrow> None | Some v \<Rightarrow> if v < 16 then Some v else None)"

datatype hexlib_error = ErrLength | InvalidByteError

fun hex_encode :: "bytes \<Rightarrow> string" where
  "hex_encode [] = []"
| "hex_encode (b # bs) = hex_digit (unat b div 16) # hex_digit (unat b mod 16) # hex_encode bs"

fun hex_decode :: "string \<Rightarrow> bytes \<times> hexlib_error option" where
  "hex_decode [] = ([], None)"
| "hex_decode [ch] = ([], Some (if fromHexChar ch = None then InvalidByteError else ErrLength))"
| "hex_decode (x # y # s) =
     (case (fromHexChar x, fromHexChar y) of
        (Some a, Some b) \<Rightarrow> (let (bs, err) = hex_decode s in (of_nat (16 * a + b) # bs, err))
      | _ \<Rightarrow> ([], Some InvalidByteError))"

text \<open>The builtin \<^verbatim>\<open>copy(dst, src)\<close>: the destination afterwards.\<close>

definition go_copy :: "'a list \<Rightarrow> 'a list \<Rightarrow> 'a list" where
  "go_copy dst src = take (length dst) src @ drop (length src) dst"

subsection \<open>\<^verbatim>\<open>common/types/util/bytes.go\<close>\<close>

definition Bytes2Hex :: "bytes \<Rightarrow> string" where
  "Bytes2Hex d = hex_encode d"

definition Hex2Bytes :: "string \<Rightarrow> bytes" where
  "Hex2Bytes str = fst (hex_decode str)"

definition ToHex :: "bytes \<Rightarrow> string" where
  "ToHex b = (let h = Bytes2Hex b; h' = (if length h = 0 then ''0'' else h) in ''0x'' @ h')"

definition FromHex :: "string \<Rightarrow> bytes" where
  "FromHex s =
     (let s1 = (if length s > 1 \<and> (take 2 s = ''0x'' \<or> take 2 s = ''0X'') then drop 2 s else s);
          s2 = (if length s1 mod 2 = 1 then CHR ''0'' # s1 else s1)
      in Hex2Bytes s2)"

definition CopyBytes :: "bytes option \<Rightarrow> bytes option" where
  "CopyBytes b = (case b of None \<Rightarrow> None | Some bs \<Rightarrow> Some (go_copy (replicate (length bs) 0) bs))"

definition HasHexPrefix :: "string \<Rightarrow> bool" where
  "HasHexPrefix str \<longleftrightarrow>
     length str \<ge> 2 \<and> str ! 0 = CHR ''0'' \<and> (str ! 1 = CHR ''x'' \<or> str ! 1 = CHR ''X'')"

definition isHexCharacter :: "char \<Rightarrow> bool" where
  "isHexCharacter ch \<longleftrightarrow>
     (let d = of_char ch :: nat in
      (of_char (CHR ''0'') \<le> d \<and> d \<le> of_char (CHR ''9'')) \<or>
      (of_char (CHR ''a'') \<le> d \<and> d \<le> of_char (CHR ''f'')) \<or>
      (of_char (CHR ''A'') \<le> d \<and> d \<le> of_char (CHR ''F'')))"

definition IsHex :: "string \<Rightarrow> bool" where
  "IsHex str = (if length str mod 2 \<noteq> 0 then False else list_all isHexCharacter str)"

definition Hex2BytesFixed :: "string \<Rightarrow> nat \<Rightarrow> bytes" where
  "Hex2BytesFixed str flen =
     (let h = fst (hex_decode str) in
      if length h = flen then h
      else if length h > flen then drop (length h - flen) h
      else replicate (flen - length h) 0 @ go_copy (replicate (length h) 0) h)"

definition RightPadBytes :: "bytes \<Rightarrow> nat \<Rightarrow> bytes" where
  "RightPadBytes p l = (if l \<le> length p then p else go_copy (replicate l 0) p)"

definition LeftPadBytes :: "bytes \<Rightarrow> nat \<Rightarrow> bytes" where
  "LeftPadBytes p l =
     (if l \<le> length p then p
      else replicate (l - length p) 0 @ go_copy (replicate (length p) 0) p)"

subsection \<open>\<^verbatim>\<open>common/types/util/hex/hex.go\<close>\<close>

datatype dec_error =
    ErrEmptyString | ErrSyntax | ErrMissingPrefix | ErrOddLength | ErrEmptyNumber
  | ErrLeadingZero | ErrUint64Range | ErrUintRange | ErrBig256Range

definition has0xPrefix :: "string \<Rightarrow> bool" where
  "has0xPrefix input \<longleftrightarrow>
     length input \<ge> 2 \<and> input ! 0 = CHR ''0'' \<and> (input ! 1 = CHR ''x'' \<or> input ! 1 = CHR ''X'')"

text \<open>\<^verbatim>\<open>mapError\<close> on the errors of the two library packages.\<close>

fun mapNumError :: "num_error \<Rightarrow> dec_error" where
  "mapNumError NumErrRange = ErrUint64Range"
| "mapNumError NumErrSyntax = ErrSyntax"

fun mapHexError :: "hexlib_error \<Rightarrow> dec_error" where
  "mapHexError InvalidByteError = ErrSyntax"
| "mapHexError ErrLength = ErrOddLength"

definition hex_result :: "bytes \<times> hexlib_error option \<Rightarrow> (dec_error, bytes) result" where
  "hex_result r = (case r of (b, None) \<Rightarrow> Ok b | (_, Some e) \<Rightarrow> Err (mapHexError e))"

definition Decode :: "string \<Rightarrow> (dec_error, bytes) result" where
  "Decode input =
     (if length input = 0 then Err ErrEmptyString
      else if \<not> has0xPrefix input then Err ErrMissingPrefix
      else hex_result (hex_decode (drop 2 input)))"

definition MustDecode :: "string \<Rightarrow> (dec_error, bytes) result" where
  "MustDecode input = (case Decode input of Ok b \<Rightarrow> Ok b | _ \<Rightarrow> Panic)"

definition Encode :: "bytes \<Rightarrow> string" where
  "Encode b = ''0x'' @ hex_encode b"

definition checkNumber :: "string \<Rightarrow> (dec_error, string) result" where
  "checkNumber input =
     (if length input = 0 then Err ErrEmptyString
      else if \<not> has0xPrefix input then Err ErrMissingPrefix
      else let raw = drop 2 input in
        if length raw = 0 then Err ErrEmptyNumber
        else if length raw > 1 \<and> raw ! 0 = CHR ''0'' then Err ErrLeadingZero
        else Ok raw)"

definition DecodeUint64 :: "string \<Rightarrow> (dec_error, u64) result" where
  "DecodeUint64 input =
     bind_result (checkNumber input)
       (\<lambda>raw. case ParseUint raw 16 of (dec, None) \<Rightarrow> Ok dec | (_, Some e) \<Rightarrow> Err (mapNumError e))"

definition MustDecodeUint64 :: "string \<Rightarrow> (dec_error, u64) result" where
  "MustDecodeUint64 input = (case DecodeUint64 input of Ok v \<Rightarrow> Ok v | _ \<Rightarrow> Panic)"

definition EncodeUint64 :: "u64 \<Rightarrow> string" where
  "EncodeUint64 i = ''0x'' @ hex_digits (unat i)"

definition badNibble :: u64 where
  "badNibble = NOT 0"

definition decodeNibble :: "char \<Rightarrow> u64" where
  "decodeNibble ch =
     (let d = of_char ch :: nat in
      if d \<ge> of_char (CHR ''0'') \<and> d \<le> of_char (CHR ''9'') then of_nat (d - of_char (CHR ''0''))
      else if d \<ge> of_char (CHR ''A'') \<and> d \<le> of_char (CHR ''F'') then of_nat (d - of_char (CHR ''A'') + 10)
      else if d \<ge> of_char (CHR ''a'') \<and> d \<le> of_char (CHR ''f'') then of_nat (d - of_char (CHR ''a'') + 10)
      else badNibble)"

definition bigWordNibbles :: nat where
  "bigWordNibbles = 16"

fun nibble_loop :: "u64 \<Rightarrow> string \<Rightarrow> (dec_error, u64) result" where
  "nibble_loop w [] = Ok w"
| "nibble_loop w (ch # s) =
     (let nib = decodeNibble ch in
      if nib = badNibble then Err ErrSyntax else nibble_loop (w * 16 + nib) s)"

fun big_word_loop :: "nat \<Rightarrow> string \<Rightarrow> nat \<Rightarrow> (dec_error, u64 list) result" where
  "big_word_loop 0 raw e = Ok []"
| "big_word_loop (Suc k) raw e =
     (let start = e - bigWordNibbles in
      bind_result (nibble_loop 0 (drop start (take e raw)))
        (\<lambda>w. bind_result (big_word_loop k raw start) (\<lambda>ws. Ok (w # ws))))"

text \<open>\<^verbatim>\<open>big.Int.SetBits\<close>\<close>

fun SetBits :: "u64 list \<Rightarrow> int" where
  "SetBits [] = 0"
| "SetBits (w # ws) = uint w + 2 ^ 64 * SetBits ws"

definition decode_big :: "string \<Rightarrow> (dec_error, int) result" where
  "decode_big raw =
     (if length raw > 64 then Err ErrBig256Range
      else bind_result (big_word_loop (length raw div bigWordNibbles + 1) raw (length raw))
             (\<lambda>ws. Ok (SetBits ws)))"

definition DecodeBig :: "string \<Rightarrow> (dec_error, int) result" where
  "DecodeBig input = bind_result (checkNumber input) decode_big"

definition MustDecodeBig :: "string \<Rightarrow> (dec_error, int) result" where
  "MustDecodeBig input = (case DecodeBig input of Ok v \<Rightarrow> Ok v | _ \<Rightarrow> Panic)"

text \<open>The verb \<open>%#x\<close> on a big integer writes the sign before the prefix.\<close>

definition EncodeBig :: "int \<Rightarrow> string" where
  "EncodeBig bigint =
     (if BitLen bigint = 0 then ''0x0''
      else (if bigint < 0 then ''-'' else []) @ ''0x'' @ hex_digits (nat \<bar>bigint\<bar>))"

subsection \<open>\<^verbatim>\<open>common/types/util/hex/json.go\<close>\<close>

text \<open>The errors of the unmarshalling methods: \<^verbatim>\<open>decError\<close>, the formatted length error, and
  \<^verbatim>\<open>json.UnmarshalTypeError\<close> with the message that it wraps (\<^term>\<open>None\<close> for a value that is not a string).\<close>

datatype text_error =
    DecError dec_error
  | LengthError nat nat string
  | UnmarshalTypeError "dec_error option" string

definition isString :: "string \<Rightarrow> bool" where
  "isString input \<longleftrightarrow>
     length input \<ge> 2 \<and> input ! 0 = CHR 0x22 \<and> input ! (length input - 1) = CHR 0x22"

definition unquote :: "string \<Rightarrow> string" where
  "unquote input = drop 1 (take (length input - 1) input)"

definition checkText :: "string \<Rightarrow> bool \<Rightarrow> (text_error, string) result" where
  "checkText input wantPrefix =
     (if length input = 0 then Ok []
      else if \<not> has0xPrefix input \<and> wantPrefix then Err (DecError ErrMissingPrefix)
      else let raw = (if has0xPrefix input then drop 2 input else input) in
        if length raw mod 2 \<noteq> 0 then Err (DecError ErrOddLength) else Ok raw)"

definition checkNumberText :: "string \<Rightarrow> (text_error, string) result" where
  "checkNumberText input =
     (if length input = 0 then Ok []
      else if \<not> has0xPrefix input then Err (DecError ErrMissingPrefix)
      else let raw = drop 2 input in
        if length raw = 0 then Err (DecError ErrEmptyNumber)
        else if length raw > 1 \<and> raw ! 0 = CHR ''0'' then Err (DecError ErrLeadingZero)
        else Ok raw)"

fun wrapTypeError :: "(text_error, 'a) result \<Rightarrow> string \<Rightarrow> (text_error, 'a) result" where
  "wrapTypeError (Err (DecError e)) typ = Err (UnmarshalTypeError (Some e) typ)"
| "wrapTypeError r typ = r"

definition unmarshal_json ::
  "(string \<Rightarrow> (text_error, 'a) result) \<Rightarrow> string \<Rightarrow> string \<Rightarrow> (text_error, 'a) result" where
  "unmarshal_json unmarshal typ input =
     (if \<not> isString input then Err (UnmarshalTypeError None typ)
      else wrapTypeError (unmarshal (unquote input)) typ)"

fun dec_result :: "(dec_error, 'a) result \<Rightarrow> (text_error, 'a) result" where
  "dec_result (Ok v) = Ok v"
| "dec_result (Err e) = Err (DecError e)"
| "dec_result Panic = Panic"

definition Bytes_MarshalText :: "bytes \<Rightarrow> string" where
  "Bytes_MarshalText b = ''0x'' @ hex_encode b"

definition Bytes_UnmarshalText :: "string \<Rightarrow> (text_error, bytes) result" where
  "Bytes_UnmarshalText input =
     bind_result (checkText input True) (\<lambda>raw. dec_result (hex_result (hex_decode raw)))"

definition Bytes_UnmarshalJSON :: "string \<Rightarrow> (text_error, bytes) result" where
  "Bytes_UnmarshalJSON = unmarshal_json Bytes_UnmarshalText ''hex.Bytes''"

definition fixed_text :: "bool \<Rightarrow> string \<Rightarrow> string \<Rightarrow> bytes \<Rightarrow> (text_error, bytes) result" where
  "fixed_text wantPrefix typname input out =
     bind_result (checkText input wantPrefix) (\<lambda>raw.
       if length raw div 2 \<noteq> length out
       then Err (LengthError (length raw) (length out * 2) typname)
       else if list_ex (\<lambda>b. decodeNibble b = badNibble) raw then Err (DecError ErrSyntax)
       else Ok (go_copy out (fst (hex_decode raw))))"

definition UnmarshalFixedText :: "string \<Rightarrow> string \<Rightarrow> bytes \<Rightarrow> (text_error, bytes) result" where
  "UnmarshalFixedText = fixed_text True"

definition UnmarshalFixedUnprefixedText :: "string \<Rightarrow> string \<Rightarrow> bytes \<Rightarrow> (text_error, bytes) result" where
  "UnmarshalFixedUnprefixedText = fixed_text False"

definition UnmarshalFixedJSON :: "string \<Rightarrow> string \<Rightarrow> bytes \<Rightarrow> (text_error, bytes) result" where
  "UnmarshalFixedJSON typ input out = unmarshal_json (\<lambda>i. UnmarshalFixedText typ i out) typ input"

definition Big_MarshalText :: "int \<Rightarrow> string" where
  "Big_MarshalText b = EncodeBig b"

definition Big_UnmarshalText :: "string \<Rightarrow> (text_error, int) result" where
  "Big_UnmarshalText input = bind_result (checkNumberText input) (\<lambda>raw. dec_result (decode_big raw))"

definition Big_UnmarshalJSON :: "string \<Rightarrow> (text_error, int) result" where
  "Big_UnmarshalJSON = unmarshal_json Big_UnmarshalText ''*hex.Big''"

definition Uint64_MarshalText :: "u64 \<Rightarrow> string" where
  "Uint64_MarshalText b = ''0x'' @ hex_digits (unat b)"

definition Uint64_UnmarshalText :: "string \<Rightarrow> (text_error, u64) result" where
  "Uint64_UnmarshalText input =
     bind_result (checkNumberText input) (\<lambda>raw.
       if length raw > 16 then Err (DecError ErrUint64Range)
       else dec_result (nibble_loop 0 raw))"

definition Uint64_UnmarshalJSON :: "string \<Rightarrow> (text_error, u64) result" where
  "Uint64_UnmarshalJSON = unmarshal_json Uint64_UnmarshalText ''hex.Uint64''"

definition Uint_MarshalText :: "u64 \<Rightarrow> string" where
  "Uint_MarshalText b = Uint64_MarshalText b"

definition Uint_UnmarshalText :: "string \<Rightarrow> (text_error, u64) result" where
  "Uint_UnmarshalText input =
     (case Uint64_UnmarshalText input of
        Ok u \<Rightarrow> if u > MaxUint64 then Err (DecError ErrUintRange) else Ok u
      | Err e \<Rightarrow> if e = DecError ErrUint64Range then Err (DecError ErrUintRange) else Err e
      | Panic \<Rightarrow> Panic)"

definition Uint_UnmarshalJSON :: "string \<Rightarrow> (text_error, u64) result" where
  "Uint_UnmarshalJSON = unmarshal_json Uint_UnmarshalText ''hex.Uint''"

subsection \<open>\<^verbatim>\<open>common/types/hash.go\<close> and \<^verbatim>\<open>common/types/address.go\<close>\<close>

type_synonym hash = bytes
type_synonym address = bytes

definition HashLength :: nat where "HashLength = 32"

definition AddressLength :: nat where "AddressLength = 20"

datatype types_error = ErrBytesTooLong

definition Hash_SetBytes :: "hash \<Rightarrow> bytes \<Rightarrow> hash" where
  "Hash_SetBytes h b =
     (let b' = (if length b > length h then drop (length b - HashLength) b else b)
      in take (HashLength - length b') h @ go_copy (drop (HashLength - length b') h) b')"

definition BytesToHash :: "bytes \<Rightarrow> hash" where
  "BytesToHash b = Hash_SetBytes (replicate HashLength 0) b"

definition BigToHash :: "int \<Rightarrow> hash" where
  "BigToHash b = BytesToHash (big_Bytes b)"

definition HexToHash :: "string \<Rightarrow> hash" where
  "HexToHash s = BytesToHash (FromHex s)"

definition Hash_Big :: "hash \<Rightarrow> int" where
  "Hash_Big h = big_SetBytes h"

definition Hash_Hex :: "hash \<Rightarrow> string" where
  "Hash_Hex h = Encode h"

definition Hash_UnmarshalBinary :: "hash \<Rightarrow> bytes \<Rightarrow> (types_error, hash) result" where
  "Hash_UnmarshalBinary h b = (if length b \<le> HashLength then Ok (BytesToHash b) else Err ErrBytesTooLong)"

definition Hash_MarshalBinaryTo :: "hash \<Rightarrow> bytes \<Rightarrow> bytes" where
  "Hash_MarshalBinaryTo h b = go_copy b h"

definition Hash_MarshalText :: "hash \<Rightarrow> string" where
  "Hash_MarshalText h = Bytes_MarshalText h"

definition Hash_UnmarshalText :: "hash \<Rightarrow> string \<Rightarrow> (text_error, hash) result" where
  "Hash_UnmarshalText h b = UnmarshalFixedText ''Hash'' b h"

definition Hash_UnmarshalJSON :: "hash \<Rightarrow> string \<Rightarrow> (text_error, hash) result" where
  "Hash_UnmarshalJSON h b = UnmarshalFixedJSON ''types.Hash'' b h"

definition Address_SetBytes :: "address \<Rightarrow> bytes \<Rightarrow> address" where
  "Address_SetBytes a b =
     (let b' = (if length b > length a then drop (length b - AddressLength) b else b)
      in take (AddressLength - length b') a @ go_copy (drop (AddressLength - length b') a) b')"

definition BytesToAddress :: "bytes \<Rightarrow> address" where
  "BytesToAddress b = Address_SetBytes (replicate AddressLength 0) b"

definition BigToAddress :: "int \<Rightarrow> address" where
  "BigToAddress b = BytesToAddress (big_Bytes b)"

definition HexToAddress :: "string \<Rightarrow> address" where
  "HexToAddress s = BytesToAddress (FromHex s)"

definition IsHexAddress :: "string \<Rightarrow> bool" where
  "IsHexAddress s =
     (let s' = (if HasHexPrefix s then drop 2 s else s)
      in length s' = 2 * AddressLength \<and> IsHex s')"

definition Address_Big :: "address \<Rightarrow> int" where
  "Address_Big a = big_SetBytes a"

definition Address_Hash :: "address \<Rightarrow> hash" where
  "Address_Hash a = BytesToHash a"

text \<open>The loop of \<^verbatim>\<open>Hex\<close>; \<^verbatim>\<open>result[i] -= 32\<close> turns a small letter into a capital.\<close>

fun checksum_loop :: "bytes \<Rightarrow> nat \<Rightarrow> string \<Rightarrow> (unit, string) result" where
  "checksum_loop hash i [] = Ok []"
| "checksum_loop hash i (ch # s) =
     (if i div 2 \<ge> length hash then Panic
      else let hashByte = (if i mod 2 = 0 then drop_bit 4 (hash ! (i div 2)) else hash ! (i div 2) AND 0xf);
               ch' = (if of_char ch > (of_char (CHR ''9'') :: nat) \<and> hashByte > 7
                      then char_of ((of_char ch :: nat) - 32) else ch)
           in bind_result (checksum_loop hash (i + 1) s) (\<lambda>t. Ok (ch' # t)))"

definition Address_Hex :: "(string \<Rightarrow> bytes) \<Rightarrow> address \<Rightarrow> (unit, string) result" where
  "Address_Hex keccak256 a =
     (let unchecksummed = hex_encode a;
          hash = keccak256 unchecksummed
      in bind_result (checksum_loop hash 0 unchecksummed) (\<lambda>res. Ok (''0x'' @ res)))"

definition Address_UnmarshalBinary :: "address \<Rightarrow> bytes \<Rightarrow> (types_error, address) result" where
  "Address_UnmarshalBinary a b = (if length b \<le> AddressLength then Ok (go_copy a b) else Err ErrBytesTooLong)"

definition Address_MarshalBinaryTo :: "address \<Rightarrow> bytes \<Rightarrow> bytes" where
  "Address_MarshalBinaryTo a b = go_copy b a"

definition Address_MarshalText :: "address \<Rightarrow> string" where
  "Address_MarshalText a = Bytes_MarshalText a"

definition Address_UnmarshalText :: "address \<Rightarrow> string \<Rightarrow> (text_error, address) result" where
  "Address_UnmarshalText a input = UnmarshalFixedText ''Address'' input a"

definition Address_UnmarshalJSON :: "address \<Rightarrow> string \<Rightarrow> (text_error, address) result" where
  "Address_UnmarshalJSON a b = UnmarshalFixedJSON ''types.Address'' b a"

subsection \<open>Bytes and their hexadecimal text\<close>

lemma fromHexChar_hex_digit [simp]: "d < 16 \<Longrightarrow> fromHexChar (hex_digit d) = Some d"
  by (simp add: fromHexChar_def digit_val_hex_digit)

lemma fromHexChar_less: "fromHexChar ch = Some v \<Longrightarrow> v < 16"
  by (auto simp: fromHexChar_def split: option.splits if_splits)

lemma length_hex_encode [simp]: "length (hex_encode b) = 2 * length b"
  by (induction b) auto

lemma hex_decode_encode [simp]: "hex_decode (hex_encode b) = (b, None)"
proof (induction b)
  case (Cons x b)
  then show ?case using unat_byte_less [of x] by simp
qed simp

lemma has0xPrefix_0x [simp]: "has0xPrefix (CHR ''0'' # CHR ''x'' # s)"
  by (simp add: has0xPrefix_def)

lemma go_copy_full: "length dst = length src \<Longrightarrow> go_copy dst src = src"
  by (simp add: go_copy_def)

text \<open>The nibble decoder of the repository is the one of the library.\<close>

lemma digit_val_fromHexChar:
  "fromHexChar ch = (let d = of_char ch :: nat in
     if 48 \<le> d \<and> d \<le> 57 then Some (d - 48)
     else if 97 \<le> d \<and> d \<le> 102 then Some (d - 87)
     else if 65 \<le> d \<and> d \<le> 70 then Some (d - 55) else None)"
  by (auto simp: fromHexChar_def digit_val_def Let_def)

lemma decodeNibble_fromHexChar:
  "decodeNibble ch = (case fromHexChar ch of None \<Rightarrow> badNibble | Some v \<Rightarrow> of_nat v)"
  unfolding digit_val_fromHexChar decodeNibble_def
  by (simp add: Let_def)

lemma badNibble_fresh: "v < 16 \<Longrightarrow> of_nat v \<noteq> badNibble"
  using unat_u64_of_nat [of v] unat_MaxUint64 by (auto simp: badNibble_def MaxUint64_def)

lemma decodeNibble_bad: "decodeNibble ch = badNibble \<longleftrightarrow> fromHexChar ch = None"
  using badNibble_fresh fromHexChar_less [of ch]
  by (auto simp: decodeNibble_fromHexChar split: option.splits)

lemma isHexCharacter_iff: "isHexCharacter ch \<longleftrightarrow> fromHexChar ch \<noteq> None"
  unfolding digit_val_fromHexChar isHexCharacter_def by (auto simp: Let_def)

lemma hex_decode_ok:
  "length s mod 2 = 0 \<Longrightarrow> list_all (\<lambda>ch. fromHexChar ch \<noteq> None) s \<Longrightarrow>
     snd (hex_decode s) = None \<and> length (fst (hex_decode s)) = length s div 2"
  by (induction s rule: hex_decode.induct) (auto split: prod.splits)

lemma nibbles_hex_encode: "\<not> list_ex (\<lambda>ch. decodeNibble ch = badNibble) (hex_encode x)"
proof (induction x)
  case (Cons y x)
  then show ?case using unat_byte_less [of y] by (simp add: decodeNibble_bad)
qed simp

lemma UnmarshalFixedText_hex:
  "length x = length out \<Longrightarrow> UnmarshalFixedText typ (Bytes_MarshalText x) out = Ok x"
  using nibbles_hex_encode [of x]
  by (simp add: UnmarshalFixedText_def fixed_text_def checkText_def Bytes_MarshalText_def go_copy_full)

lemma UnmarshalFixedJSON_hex:
  assumes "length x = length out"
  shows "UnmarshalFixedJSON typ (CHR 0x22 # Bytes_MarshalText x @ [CHR 0x22]) out = Ok x"
proof -
  have "unquote (CHR 0x22 # t @ [CHR 0x22]) = t" "isString (CHR 0x22 # t @ [CHR 0x22])" for t
    by (simp_all add: unquote_def isString_def nth_append)
  then show ?thesis
    by (simp only: UnmarshalFixedJSON_def unmarshal_json_def UnmarshalFixedText_hex [OF assms])
      simp
qed



subsection \<open>Numbers and their hexadecimal text\<close>

text \<open>Small letters for capitals.\<close>

definition to_lower :: "char \<Rightarrow> char" where
  "to_lower ch = (let d = of_char ch :: nat in if 65 \<le> d \<and> d \<le> 90 then char_of (d + 32) else ch)"

lemma of_char_less: "(of_char ch :: nat) < 256"
  using nat_of_char_less_256 [of ch] .

lemma digit_val_to_lower [simp]: "digit_val (to_lower ch) = digit_val ch"
  using of_char_less [of ch] by (auto simp: digit_val_def to_lower_def Let_def)

lemma scan_nat_lower [simp]: "scan_nat base acc (map to_lower s) = scan_nat base acc s"
  by (induction base acc s rule: scan_nat.induct) (auto split: option.splits)

lemma scan_nat_acc:
  "scan_nat base acc s = map_option (\<lambda>k. acc * base ^ length s + k) (scan_nat base 0 s)"
proof (induction s arbitrary: acc)
  case (Cons d s)
  show ?case
  proof (cases "digit_val d")
    case (Some v)
    then show ?thesis
      using Cons.IH [of "acc * base + v"] Cons.IH [of v]
      by (cases "scan_nat base 0 s") (simp_all add: algebra_simps)
  qed simp
qed simp

lemma scan_nat_less: "scan_nat base 0 s = Some k \<Longrightarrow> 0 < base \<Longrightarrow> k < base ^ length s"
proof (induction s arbitrary: k)
  case (Cons d s)
  then obtain v where v: "digit_val d = Some v" "v < base" "scan_nat base v s = Some k"
    by (auto split: option.splits if_splits)
  then obtain j where j: "scan_nat base 0 s = Some j" and k: "k = v * base ^ length s + j"
    using scan_nat_acc [of base v s] by auto
  have "k < (v + 1) * base ^ length s" using Cons.IH [OF j Cons.prems(2)] k by simp
  also have "\<dots> \<le> base * base ^ length s" using v by (intro mult_right_mono) auto
  finally show ?case by simp
qed simp

lemma hex_digits_snoc: "0 < n \<Longrightarrow> d < 16 \<Longrightarrow> hex_digits (16 * n + d) = hex_digits n @ [hex_digit d]"
  by (subst hex_digits.simps) simp

lemma length_hex_digits: "k < 16 ^ n \<Longrightarrow> 0 < n \<Longrightarrow> length (hex_digits k) \<le> n"
proof (induction n arbitrary: k)
  case (Suc n)
  show ?case
  proof (cases "k < 16")
    case False
    then have "0 < n" using Suc.prems by (cases n) auto
    then show ?thesis using Suc False by (subst hex_digits.simps) auto
  qed (simp add: hex_digits.simps)
qed simp

text \<open>Without leading zeros and in small letters, a number has one numeral.\<close>

lemma hex_digit_unique:
  "digit_val ch = Some v \<Longrightarrow> v < 16 \<Longrightarrow> to_lower ch = hex_digit v"
proof -
  assume a: "digit_val ch = Some v" "v < 16"
  have "of_char (to_lower ch) = (of_char (hex_digit v) :: nat)"
    using a of_char_less [of ch]
    by (auto simp: digit_val_def to_lower_def hex_digit_def Let_def split: if_splits)
  then show ?thesis by simp
qed

lemma hex_digit_0 [simp]: "hex_digit 0 = CHR ''0''"
proof -
  have "of_char (hex_digit 0) = (of_char (CHR ''0'') :: nat)" by (simp add: hex_digit_def)
  then show ?thesis by (simp only: of_char_eq_iff)
qed

lemma to_lower_0: "to_lower ch = CHR ''0'' \<Longrightarrow> ch = CHR ''0''"
proof -
  assume "to_lower ch = CHR ''0''"
  then have "digit_val ch = digit_val (CHR ''0'')" by (metis digit_val_to_lower)
  then have "of_char ch = (of_char (CHR ''0'') :: nat)"
    by (auto simp: digit_val_def Let_def split: if_splits)
  then show ?thesis by (simp only: of_char_eq_iff)
qed

lemma hex_digits_unique:
  "scan_nat 16 0 s = Some k \<Longrightarrow> s \<noteq> [] \<Longrightarrow> \<not> (length s > 1 \<and> s ! 0 = CHR ''0'') \<Longrightarrow>
     map to_lower s = hex_digits k"
proof (induction s arbitrary: k rule: rev_induct)
  case (snoc ch s)
  from snoc.prems(1) obtain j v where j: "scan_nat 16 0 s = Some j" and v: "digit_val ch = Some v" "v < 16"
    and k: "k = 16 * j + v"
    by (auto simp: scan_nat_append split: bind_splits option.splits if_splits)
  note ch = hex_digit_unique [OF v]
  show ?case
  proof (cases "s = []")
    case True
    then show ?thesis using j k ch v by (simp add: hex_digits.simps [of v])
  next
    case False
    have lead: "s ! 0 \<noteq> CHR ''0''" using snoc.prems False by (auto simp: nth_append)
    then have IH: "map to_lower s = hex_digits j" using snoc.IH [OF j False] by simp
    have "j \<noteq> 0"
    proof
      assume "j = 0"
      then have "map to_lower s = ''0''" using IH by (simp add: hex_digits.simps [of 0])
      then have "to_lower (s ! 0) = CHR ''0''" using False by (cases s) auto
      then show False using lead to_lower_0 by blast
    qed
    then show ?thesis using IH ch v k by (simp add: hex_digits_snoc)
  qed
qed simp

lemma to_lower_0_iff: "to_lower ch = CHR ''0'' \<longleftrightarrow> ch = CHR ''0''"
proof
  assume "ch = CHR ''0''"
  then show "to_lower ch = CHR ''0''" by (simp add: to_lower_def)
qed (rule to_lower_0)

lemma to_lower_x_iff: "to_lower ch = CHR ''x'' \<longleftrightarrow> ch = CHR ''x'' \<or> ch = CHR ''X''"
proof -
  have "to_lower ch = CHR ''x'' \<longleftrightarrow> (of_char (to_lower ch) :: nat) = of_char (CHR ''x'')"
    by (simp only: of_char_eq_iff)
  also have "\<dots> \<longleftrightarrow> (of_char ch :: nat) = of_char (CHR ''x'') \<or> (of_char ch :: nat) = of_char (CHR ''X'')"
    using of_char_less [of ch] by (auto simp: to_lower_def Let_def split: if_splits)
  finally show ?thesis by (simp only: of_char_eq_iff)
qed

lemma has0xPrefix_lower: "has0xPrefix s \<longleftrightarrow> take 2 (map to_lower s) = ''0x''"
  by (cases s rule: remdups_adj.cases)
    (simp_all add: has0xPrefix_def to_lower_0_iff to_lower_x_iff)

lemma hd_hex_digits: "0 < n \<Longrightarrow> hd (hex_digits n) \<noteq> CHR ''0''"
proof (induction n rule: hex_digits.induct)
  case (1 n)
  show ?case
  proof (cases "n < 16")
    case True
    then have "hex_digit n \<noteq> CHR ''0''"
      using digit_val_hex_digit [of n] digit_val_hex_digit [of 0] 1 by auto
    then show ?thesis using True by (simp add: hex_digits.simps [of n])
  next
    case False
    then have "hex_digits n = hex_digits (n div 16) @ [hex_digit (n mod 16)]"
      by (simp add: hex_digits.simps [of n])
    then show ?thesis using 1 False by simp
  qed
qed

text \<open>
  The texts a number is decoded from: those that become its canonical text when their capitals
  are turned into small letters.
\<close>

lemma checkNumber_Ok_iff:
  "checkNumber s = Ok raw \<longleftrightarrow>
     has0xPrefix s \<and> raw = drop 2 s \<and> raw \<noteq> [] \<and> \<not> (length raw > 1 \<and> raw ! 0 = CHR ''0'')"
  by (auto simp: checkNumber_def Let_def has0xPrefix_def)

lemma checkNumber_scan:
  "(\<exists>raw. checkNumber s = Ok raw \<and> scan_nat 16 0 raw = Some k)
     \<longleftrightarrow> map to_lower s = ''0x'' @ hex_digits k"
proof
  assume "\<exists>raw. checkNumber s = Ok raw \<and> scan_nat 16 0 raw = Some k"
  then have pre: "has0xPrefix s" and raw: "scan_nat 16 0 (drop 2 s) = Some k" "drop 2 s \<noteq> []"
      "\<not> (length (drop 2 s) > 1 \<and> drop 2 s ! 0 = CHR ''0'')"
    unfolding checkNumber_Ok_iff by blast+
  have "map to_lower s = take 2 (map to_lower s) @ map to_lower (drop 2 s)"
    by (metis append_take_drop_id drop_map)
  then show "map to_lower s = ''0x'' @ hex_digits k"
    using hex_digits_unique [OF raw] pre by (simp only: has0xPrefix_lower)
next
  assume s: "map to_lower s = ''0x'' @ hex_digits k"
  then have pre: "has0xPrefix s" by (simp add: has0xPrefix_lower)
  have d: "map to_lower (drop 2 s) = hex_digits k" using s by (simp flip: drop_map)
  then have "scan_nat 16 0 (drop 2 s) = Some k" by (metis scan_hex_digits scan_nat_lower)
  moreover have ne: "drop 2 s \<noteq> []" using d by (metis hex_digits_not_Nil list.map_disc_iff)
  moreover have "\<not> (length (drop 2 s) > 1 \<and> drop 2 s ! 0 = CHR ''0'')"
  proof
    assume "length (drop 2 s) > 1 \<and> drop 2 s ! 0 = CHR ''0''"
    then have "length (hex_digits k) > 1" "hd (hex_digits k) = CHR ''0''"
      using ne by (metis d length_map, metis d hd_conv_nth list.map_sel(1) to_lower_0_iff)
    then show False using hd_hex_digits [of k] by (cases "k = 0") (simp_all add: hex_digits.simps [of 0])
  qed
  ultimately show "\<exists>raw. checkNumber s = Ok raw \<and> scan_nat 16 0 raw = Some k"
    using pre unfolding checkNumber_Ok_iff by blast
qed

lemma nibble_loop_scan:
  "nibble_loop (of_nat n) s =
     (case scan_nat 16 n s of None \<Rightarrow> Err ErrSyntax | Some k \<Rightarrow> Ok (of_nat k))"
proof (induction s arbitrary: n)
  case (Cons ch s)
  show ?case
  proof (cases "fromHexChar ch")
    case None
    then have "decodeNibble ch = badNibble" by (simp add: decodeNibble_bad)
    moreover have "scan_nat 16 n (ch # s) = None"
      using None by (cases "digit_val ch") (simp_all add: fromHexChar_def split: if_splits)
    ultimately show ?thesis by simp
  next
    case (Some v)
    then have "digit_val ch = Some v" "v < 16"
      by (simp_all add: fromHexChar_def split: option.splits if_splits)
    moreover have "decodeNibble ch = of_nat v" "decodeNibble ch \<noteq> badNibble"
      using Some by (simp add: decodeNibble_fromHexChar, simp add: decodeNibble_bad)
    ultimately show ?thesis using Cons.IH [of "n * 16 + v"] by (simp add: Let_def)
  qed
qed simp

lemma canonical_fits:
  assumes "scan_nat 16 0 raw = Some k" "raw \<noteq> []" "\<not> (length raw > 1 \<and> raw ! 0 = CHR ''0'')" "0 < n"
  shows "k < 16 ^ n \<longleftrightarrow> length raw \<le> n"
proof -
  have "length raw = length (hex_digits k)"
    using hex_digits_unique [OF assms(1-3)] by (metis length_map)
  moreover have "k < 16 ^ n" if "length raw \<le> n"
    using scan_nat_less [OF assms(1)] power_increasing [OF that, of "16 :: nat"]
    by (simp del: power_increasing_iff)
  ultimately show ?thesis using length_hex_digits [of k n] assms(4) by auto
qed

lemma DecodeUint64_scan:
  "DecodeUint64 s = Ok v \<longleftrightarrow>
     (\<exists>raw k. checkNumber s = Ok raw \<and> scan_nat 16 0 raw = Some k \<and> k < 2 ^ 64 \<and> v = of_nat k)"
proof -
  have "(case p of (dec, None) \<Rightarrow> Ok dec | (_, Some e) \<Rightarrow> Err (mapNumError e)) = Ok v \<longleftrightarrow> p = (v, None)"
    for p :: "u64 \<times> num_error option"
    by (cases p) (auto split: option.split)
  then have "DecodeUint64 s = Ok v \<longleftrightarrow> (\<exists>raw. checkNumber s = Ok raw \<and> ParseUint raw 16 = (v, None))"
    by (simp only: DecodeUint64_def bind_result_Ok_iff)
  also have "\<dots> \<longleftrightarrow> (\<exists>raw. checkNumber s = Ok raw \<and>
      (\<exists>k. scan_nat 16 0 raw = Some k \<and> k < 2 ^ 64 \<and> v = of_nat k))"
    using ParseUint_iff [of 16 _ v] unfolding checkNumber_Ok_iff by simp blast
  finally show ?thesis by blast
qed

lemma Uint64_UnmarshalText_scan:
  assumes "s \<noteq> []"
  shows "Uint64_UnmarshalText s = Ok v \<longleftrightarrow>
     (\<exists>raw k. checkNumber s = Ok raw \<and> scan_nat 16 0 raw = Some k \<and> k < 2 ^ 64 \<and> v = of_nat k)"
proof -
  have chk: "checkNumberText s = (case checkNumber s of Ok raw \<Rightarrow> Ok raw | Err e \<Rightarrow> Err (DecError e) | Panic \<Rightarrow> Panic)"
    using assms by (simp add: checkNumberText_def checkNumber_def Let_def)
  have loop: "(if length raw > 16 then Err (DecError ErrUint64Range) else dec_result (nibble_loop 0 raw)) = Ok v
      \<longleftrightarrow> (\<exists>k. scan_nat 16 0 raw = Some k \<and> k < 2 ^ 64 \<and> v = of_nat k)" if "checkNumber s = Ok raw" for raw
  proof (cases "scan_nat 16 0 raw")
    case None
    then show ?thesis using nibble_loop_scan [of 0 raw] by simp
  next
    case (Some k)
    have "raw \<noteq> []" "\<not> (length raw > 1 \<and> raw ! 0 = CHR ''0'')"
      using that unfolding checkNumber_Ok_iff by blast+
    then have "k < 2 ^ 64 \<longleftrightarrow> length raw \<le> 16"
      using canonical_fits [OF Some, of 16] by simp
    then show ?thesis using Some nibble_loop_scan [of 0 raw] by auto
  qed
  show ?thesis
  proof (cases "checkNumber s")
    case (Ok raw)
    then show ?thesis using loop [OF Ok] by (simp add: Uint64_UnmarshalText_def chk)
  qed (simp_all add: Uint64_UnmarshalText_def chk)
qed


lemma big_word_loop_scan:
  "e \<le> 16 * k \<Longrightarrow> e \<le> length raw \<Longrightarrow>
     bind_result (big_word_loop k raw e) (\<lambda>ws. Ok (SetBits ws)) =
       (case scan_nat 16 0 (take e raw) of None \<Rightarrow> Err ErrSyntax | Some n \<Rightarrow> Ok (int n))"
proof (induction k arbitrary: e)
  case (Suc k)
  define start where "start = e - bigWordNibbles"
  define chunk where "chunk = drop start (take e raw)"
  have le: "start \<le> e" by (simp add: start_def)
  then have app: "take e raw = take start raw @ chunk"
    unfolding chunk_def by (metis append_take_drop_id min.absorb1 take_take)
  have len: "length chunk = e - start" using Suc.prems by (simp add: chunk_def)
  have IH: "bind_result (big_word_loop k raw start) (\<lambda>ws. Ok (SetBits ws)) =
      (case scan_nat 16 0 (take start raw) of None \<Rightarrow> Err ErrSyntax | Some n \<Rightarrow> Ok (int n))"
    using Suc.prems le by (intro Suc.IH) (auto simp: start_def bigWordNibbles_def)
  have step: "big_word_loop (Suc k) raw e = bind_result (nibble_loop 0 chunk)
      (\<lambda>w. bind_result (big_word_loop k raw start) (\<lambda>ws. Ok (w # ws)))"
    by (simp add: Let_def flip: start_def chunk_def)
  note nib = nibble_loop_scan [of 0 chunk, simplified]
  have sc: "scan_nat 16 0 (take e raw) = Option.bind (scan_nat 16 0 (take start raw))
      (\<lambda>a. map_option (\<lambda>b. a * 16 ^ length chunk + b) (scan_nat 16 0 chunk))"
    unfolding app scan_nat_append by (subst (2) scan_nat_acc) (rule refl)
  show ?case
  proof (cases "scan_nat 16 0 chunk")
    case None
    then show ?thesis using nib sc by (cases "scan_nat 16 0 (take start raw)") (simp_all add: step del: big_word_loop.simps)
  next
    case (Some b)
    have "length chunk \<le> 16" using len by (simp add: start_def bigWordNibbles_def)
    then have "b < 16 ^ 16"
      using scan_nat_less [OF Some] power_increasing [of "length chunk" 16 "16 :: nat"] by simp
    then have ub: "uint (of_nat b :: u64) = int b" by (simp add: unat_u64_of_nat uint_nat)
    have rest: "a * 16 ^ length chunk = a * 2 ^ 64" if "scan_nat 16 0 (take start raw) = Some a" for a
      using that len by (cases "e < 16") (auto simp: start_def bigWordNibbles_def)
    show ?thesis
    proof (cases "big_word_loop k raw start")
      case (Ok ws)
      then obtain a where "scan_nat 16 0 (take start raw) = Some a" "SetBits ws = int a"
        using IH by (auto split: option.splits)
      then show ?thesis using Ok Some nib sc ub rest by (simp add: step del: big_word_loop.simps)
    next
      case (Err x)
      then have "scan_nat 16 0 (take start raw) = None \<and> x = ErrSyntax"
        using IH by (auto split: option.splits)
      then show ?thesis using Err Some nib sc by (simp add: step del: big_word_loop.simps)
    next
      case Panic
      then show ?thesis using IH by (auto split: option.splits)
    qed
  qed
qed simp

lemma decode_big_scan:
  "decode_big raw =
     (if length raw > 64 then Err ErrBig256Range
      else case scan_nat 16 0 raw of None \<Rightarrow> Err ErrSyntax | Some n \<Rightarrow> Ok (int n))"
  using big_word_loop_scan [of "length raw" "length raw div 16 + 1" raw]
  by (simp add: decode_big_def bigWordNibbles_def)

lemma BitLen_0_iff: "BitLen v = 0 \<longleftrightarrow> v = 0"
  using bit_len_le_iff [of "nat \<bar>v\<bar>" 0] by (simp add: BitLen_def)

lemma EncodeBig_nonneg: "0 \<le> v \<Longrightarrow> EncodeBig v = ''0x'' @ hex_digits (nat v)"
  by (simp add: EncodeBig_def BitLen_0_iff hex_digits.simps [of 0])

lemma DecodeBig_scan:
  "DecodeBig s = Ok v \<longleftrightarrow>
     (\<exists>raw n. checkNumber s = Ok raw \<and> scan_nat 16 0 raw = Some n \<and> n < 16 ^ 64 \<and> v = int n)"
proof -
  have "decode_big raw = Ok v \<longleftrightarrow> (\<exists>n. scan_nat 16 0 raw = Some n \<and> n < 16 ^ 64 \<and> v = int n)"
    if "checkNumber s = Ok raw" for raw
  proof -
    have "raw \<noteq> []" "\<not> (length raw > 1 \<and> raw ! 0 = CHR ''0'')"
      using that unfolding checkNumber_Ok_iff by blast+
    then have "n < 16 ^ 64 \<longleftrightarrow> length raw \<le> 64" if "scan_nat 16 0 raw = Some n" for n
      by (intro canonical_fits that) simp_all
    then show ?thesis by (auto simp: decode_big_scan simp del: power_numeral split: option.splits)
  qed
  then show ?thesis unfolding DecodeBig_def bind_result_Ok_iff by blast
qed


subsection \<open>Addresses and their checksum\<close>

lemma hex_decode_cong: "map fromHexChar s = map fromHexChar t \<Longrightarrow> hex_decode s = hex_decode t"
proof (induction s arbitrary: t rule: hex_decode.induct)
  case (2 ch)
  then show ?case by (cases t) auto
next
  case (3 x y s)
  then obtain x' y' t' where "t = x' # y' # t'" by (auto simp: map_eq_Cons_conv)
  then show ?case using 3 by (auto split: option.splits)
qed auto

text \<open>The characters \<^verbatim>\<open>hex.Encode\<close> writes.\<close>

definition lower_hex :: "char \<Rightarrow> bool" where
  "lower_hex ch \<longleftrightarrow> (\<exists>d < 16. ch = hex_digit d)"

lemma lower_hex_encode: "list_all lower_hex (hex_encode b)"
proof (induction b)
  case (Cons x b)
  have "unat x div 16 < 16" "unat x mod 16 < 16" using unat_byte_less [of x] by auto
  then have "lower_hex (hex_digit (unat x div 16))" "lower_hex (hex_digit (unat x mod 16))"
    unfolding lower_hex_def by blast+
  then show ?case using Cons by simp
qed simp

lemma capital_fromHexChar:
  assumes "lower_hex ch" "of_char ch > (of_char (CHR ''9'') :: nat)"
  shows "fromHexChar (char_of ((of_char ch :: nat) - 32)) = fromHexChar ch"
proof -
  obtain d where d: "d < 16" "ch = hex_digit d" using assms(1) by (auto simp: lower_hex_def)
  then have "\<not> d < 10" using assms(2) by (auto simp: hex_digit_def)
  then show ?thesis using d by (simp add: digit_val_fromHexChar hex_digit_def Let_def)
qed

lemma checksum_loop_same:
  "list_all lower_hex s \<Longrightarrow> i + length s \<le> 2 * length hash \<Longrightarrow>
     \<exists>t. checksum_loop hash i s = Ok t \<and> map fromHexChar t = map fromHexChar s"
proof (induction s arbitrary: i)
  case (Cons ch s)
  then obtain t where t: "checksum_loop hash (i + 1) s = Ok t" "map fromHexChar t = map fromHexChar s"
    using Cons.IH [of "i + 1"] by fastforce
  have "\<not> i div 2 \<ge> length hash" using Cons.prems by auto
  then show ?case using t Cons.prems capital_fromHexChar [of ch] by (auto simp: Let_def)
qed simp

text \<open>
  The checksum does not change an address: whatever 32-byte hash \<^verbatim>\<open>Address.Hex\<close> takes its capitals
  from, it returns a text that \<^verbatim>\<open>IsHexAddress\<close> accepts and that \<^verbatim>\<open>HexToAddress\<close> turns back into the
  address.
\<close>

theorem Address_Hex_roundtrip:
  assumes "length a = AddressLength" "\<And>x. length (keccak256 x) = 32"
  shows "\<exists>s. Address_Hex keccak256 a = Ok s \<and> IsHexAddress s \<and> HexToAddress s = a"
proof -
  obtain t where t: "checksum_loop (keccak256 (hex_encode a)) 0 (hex_encode a) = Ok t"
    and same: "map fromHexChar t = map fromHexChar (hex_encode a)"
    using checksum_loop_same [OF lower_hex_encode, of 0 a "keccak256 (hex_encode a)"] assms
    by (auto simp: AddressLength_def)
  have len: "length t = 40" using arg_cong [OF same, of length] assms by (simp add: AddressLength_def)
  have "hex_decode t = (a, None)" using hex_decode_cong [OF same] by simp
  then have "FromHex (''0x'' @ t) = a" by (simp add: FromHex_def Hex2Bytes_def len)
  then have "HexToAddress (''0x'' @ t) = a"
    using assms(1) by (simp add: HexToAddress_def BytesToAddress_def Address_SetBytes_def go_copy_def)
  moreover have "list_all isHexCharacter t"
  proof -
    have "None \<notin> set (map fromHexChar (hex_encode a))"
      using lower_hex_encode [of a] by (auto simp: list_all_iff lower_hex_def)
    then show ?thesis
      unfolding same [symmetric] 
      by (simp add: list_all_iff isHexCharacter_iff image_iff del: not_None_eq) metis
  qed
  then have "IsHexAddress (''0x'' @ t)"
    by (simp add: IsHexAddress_def HasHexPrefix_def IsHex_def AddressLength_def len)
  ultimately show ?thesis using t by (auto simp: Address_Hex_def)
qed

theorem Address_Hex_roundtrip_witness:
  "\<exists>s. Address_Hex (\<lambda>_. replicate 32 0xff) (replicate 20 0xab) = Ok s \<and> IsHexAddress s \<and>
       HexToAddress s = replicate 20 0xab"
  by (rule Address_Hex_roundtrip) (simp_all add: AddressLength_def)

end
