(* ===== verification/TrieEncoding.thy ===== *)
theory TrieEncoding
  imports Prelude
begin

text \<open>
  The three key encodings of \<^verbatim>\<open>trie/encoding.go\<close>: key bytes, one byte per nibble with an optional
  terminator 16, and the compact form stored in the database. A slice index out of range panics.

  Shown: the compact form and the nibble form of a key determine each other, and so do key bytes and
  nibbles; \<^verbatim>\<open>prefixLen\<close> is the length of the longest common prefix.
\<close>

definition hasTerm :: "bytes \<Rightarrow> bool" where
  "hasTerm s \<longleftrightarrow> length s > 0 \<and> s ! (length s - 1) = 16"

fun decodeNibbles :: "bytes \<Rightarrow> bytes \<Rightarrow> (unit, bytes) result" where
  "decodeNibbles [] bs = Ok bs"
| "decodeNibbles [_] bs = Panic"
| "decodeNibbles (_ # _ # _) [] = Panic"
| "decodeNibbles (x # y # ns) (_ # bs) =
     bind_result (decodeNibbles ns bs) (\<lambda>t. Ok ((push_bit 4 x OR y) # t))"

fun keybytesToHex :: "bytes \<Rightarrow> bytes" where
  "keybytesToHex [] = [16]"
| "keybytesToHex (b # str) = b div 16 # b mod 16 # keybytesToHex str"

definition hexToKeybytes :: "bytes \<Rightarrow> (unit, bytes) result" where
  "hexToKeybytes hex =
     (let hex' = (if hasTerm hex then take (length hex - 1) hex else hex)
      in if odd (length hex') then Panic
         else decodeNibbles hex' (replicate ((length hex' + 1) div 2) 0))"

definition hexToCompact :: "bytes \<Rightarrow> (unit, bytes) result" where
  "hexToCompact hex =
     (let terminator = (if hasTerm hex then 1 else 0 :: byte);
          hex1 = (if hasTerm hex then take (length hex - 1) hex else hex);
          buf0 = push_bit 5 terminator;
          odd1 = odd (length hex1);
          buf0' = (if odd1 then buf0 OR push_bit 4 1 OR hex1 ! 0 else buf0);
          hex2 = (if odd1 then drop 1 hex1 else hex1)
      in bind_result (decodeNibbles hex2 (replicate (length hex1 div 2) 0)) (\<lambda>t. Ok (buf0' # t)))"

definition compactToHex :: "bytes \<Rightarrow> (unit, bytes) result" where
  "compactToHex compact =
     (let base = butlast (keybytesToHex compact)
      in if base = [] then Panic
         else let base' = (if base ! 0 \<ge> 2 then base @ [16] else base);
                  chop = 2 - (base ! 0 AND 1)
              in Ok (drop (unat chop) base'))"

fun prefix_loop :: "nat \<Rightarrow> nat \<Rightarrow> bytes \<Rightarrow> bytes \<Rightarrow> nat" where
  "prefix_loop 0 i a b = i"
| "prefix_loop (Suc k) i a b = (if a ! i \<noteq> b ! i then i else prefix_loop k (i + 1) a b)"

definition prefixLen :: "bytes \<Rightarrow> bytes \<Rightarrow> nat" where
  "prefixLen a b = prefix_loop (if length b < length a then length b else length a) 0 a b"

subsection \<open>Well-formed hex keys\<close>

text \<open>A key of nibbles, and one closed by the terminator.\<close>

definition nibbles :: "bytes \<Rightarrow> bool" where
  "nibbles k \<longleftrightarrow> (\<forall>x \<in> set k. x < 16)"

definition hexkey :: "bytes \<Rightarrow> bool" where
  "hexkey k \<longleftrightarrow> k \<noteq> [] \<and> nibbles (butlast k) \<and> last k = 16"

lemma nibbles_simps [simp]:
  "nibbles []"
  "nibbles (x # k) \<longleftrightarrow> x < 16 \<and> nibbles k"
  "nibbles (k @ l) \<longleftrightarrow> nibbles k \<and> nibbles l"
  by (auto simp: nibbles_def)

lemma nibbles_drop [intro]: "nibbles k \<Longrightarrow> nibbles (drop n k)"
  by (auto simp: nibbles_def dest: in_set_dropD)

lemma nibbles_take [intro]: "nibbles k \<Longrightarrow> nibbles (take n k)"
  by (auto simp: nibbles_def dest: in_set_takeD)

lemma hexkey_Cons: "hexkey (x # k) \<longleftrightarrow> (if k = [] then x = 16 else x < 16 \<and> hexkey k)"
  by (auto simp: hexkey_def)

lemma hexkey_iff: "hexkey k \<longleftrightarrow> (\<exists>p. nibbles p \<and> k = p @ [16])"
  by (auto simp: hexkey_def) (metis append_butlast_last_id)

lemma not_hexkey_Nil [simp]: "\<not> hexkey []"
  by (simp add: hexkey_def)

lemma nibbles_not_hexkey: "nibbles k \<Longrightarrow> \<not> hexkey k"
  by (auto simp: hexkey_iff)

lemma hasTerm_iff: "hasTerm k \<longleftrightarrow> k \<noteq> [] \<and> last k = 16"
  by (auto simp: hasTerm_def last_conv_nth)

lemma hasTerm_hexkey: "hexkey k \<Longrightarrow> hasTerm k"
  by (simp add: hasTerm_iff hexkey_def)

lemma hasTerm_nibbles: "nibbles k \<Longrightarrow> \<not> hasTerm k"
  by (auto simp: hasTerm_iff nibbles_def) (metis last_in_set order_less_irrefl)

lemma div16_less: "(b :: byte) div 16 < 16"
proof -
  have "unat (b div 16) < 16"
    using unat_byte_less [of b] by (simp add: unat_div less_mult_imp_div_less)
  then show ?thesis by (simp add: word_less_nat_alt)
qed

lemma mod16_less: "(b :: byte) mod 16 < 16"
  by (rule word_mod_less_divisor) simp

lemma length_keybytesToHex [simp]: "length (keybytesToHex k) = 2 * length k + 1"
  by (induction k) auto

lemma keybytesToHex_not_Nil [simp]: "keybytesToHex k \<noteq> []"
  by (cases k) auto

lemma keybytesToHex_hexkey: "hexkey (keybytesToHex k)"
  by (induction k) (simp_all add: hexkey_Cons div16_less mod16_less)

subsection \<open>Nibbles of a byte\<close>

lemma nibble_bit: "(x :: byte) < 16 \<Longrightarrow> bit x n \<Longrightarrow> n < 4"
proof -
  assume "x < 16" "bit x n"
  then have "x mod 16 = x" by (simp add: word_unat_eq_iff unat_mod word_less_nat_alt)
  then have "take_bit 4 x = x" by (simp add: take_bit_eq_mod)
  then show "n < 4" using \<open>bit x n\<close> by (metis bit_take_bit_iff)
qed

lemma pack_div: "x < 16 \<Longrightarrow> y < 16 \<Longrightarrow> (push_bit 4 x OR y) div 16 = (x :: byte)"
proof -
  assume xy: "x < 16" "y < 16"
  have "drop_bit 4 (push_bit 4 x OR y) = x"
    by (rule bit_word_eqI) (use nibble_bit [OF xy(1)] nibble_bit [OF xy(2)] in \<open>fastforce simp: bit_simps\<close>)
  then show ?thesis by (simp add: drop_bit_eq_div)
qed

lemma pack_mod: "x < 16 \<Longrightarrow> y < 16 \<Longrightarrow> (push_bit 4 x OR y) mod 16 = (y :: byte)"
proof -
  assume xy: "x < 16" "y < 16"
  have "take_bit 4 (push_bit 4 x OR y) = y"
    by (rule bit_word_eqI) (use nibble_bit [OF xy(2)] in \<open>auto simp: bit_simps\<close>)
  then show ?thesis by (simp add: take_bit_eq_mod)
qed

lemma pack_unpack: "push_bit 4 (b div 16) OR b mod 16 = (b :: byte)"
proof -
  have "push_bit 4 (drop_bit 4 b) OR take_bit 4 b = b"
    by (rule bit_word_eqI) (auto simp: bit_simps)
  then show ?thesis by (simp add: drop_bit_eq_div take_bit_eq_mod)
qed

text \<open>Packing an even number of nibbles, as a function.\<close>

fun pack :: "bytes \<Rightarrow> bytes" where
  "pack (x # y # ns) = (push_bit 4 x OR y) # pack ns"
| "pack _ = []"

lemma decodeNibbles_pack:
  "even (length ns) \<Longrightarrow> length bs = length ns div 2 \<Longrightarrow> decodeNibbles ns bs = Ok (pack ns)"
  by (induction ns bs rule: decodeNibbles.induct) auto

lemma keybytesToHex_pack:
  "even (length ns) \<Longrightarrow> nibbles ns \<Longrightarrow> keybytesToHex (pack ns) = ns @ [16]"
  by (induction ns rule: pack.induct) (auto simp: pack_div pack_mod)

lemma pack_keybytesToHex: "pack (butlast (keybytesToHex k)) = k"
  by (induction k) (simp_all add: pack_unpack)

text \<open>The compact form packs a flag nibble (1 for an odd length, 2 for a terminator) before the key.\<close>

definition flag_nibble :: "bool \<Rightarrow> bytes \<Rightarrow> byte" where
  "flag_nibble t p = (if odd (length p) then if t then 3 else 1 else if t then 2 else 0)"

lemma flag_nibble_less: "flag_nibble t p < 16"
  by (simp add: flag_nibble_def)

lemma hexToCompact_pack:
  assumes "nibbles p"
  shows "hexToCompact (p @ (if t then [16] else [])) =
    Ok (pack (flag_nibble t p # (if odd (length p) then p else 0 # p)))"
proof -
  have tm: "hasTerm (p @ (if t then [16] else [])) = t"
    using hasTerm_nibbles [OF assms] by (auto simp: hasTerm_iff)
  have strip: "(if t then take (length (p @ (if t then [16] else [])) - 1) (p @ (if t then [16] else []))
                else p @ (if t then [16] else [])) = p"
    by simp
  show ?thesis
  proof (cases "odd (length p)")
    case True
    then obtain x q where p: "p = x # q" "even (length q)" by (cases p) auto
    then show ?thesis
      using decodeNibbles_pack [of q "replicate (length q div 2) 0"]
      unfolding hexToCompact_def Let_def tm strip
      by (simp add: flag_nibble_def or.assoc [symmetric])
  next
    case False
    then show ?thesis
      using decodeNibbles_pack [of p "replicate (length p div 2) 0"]
      unfolding hexToCompact_def Let_def tm strip
      by (simp add: flag_nibble_def)
  qed
qed

lemma compactToHex_pack:
  assumes "nibbles p"
  shows "compactToHex (pack (flag_nibble t p # (if odd (length p) then p else 0 # p))) =
    Ok (p @ (if t then [16] else []))"
proof -
  define q where "q = flag_nibble t p # (if odd (length p) then p else 0 # p)"
  have "even (length q)" "nibbles q" using assms by (auto simp: q_def flag_nibble_less)
  then have base: "butlast (keybytesToHex (pack q)) = q" by (simp add: keybytesToHex_pack)
  have "q \<noteq> []" by (simp add: q_def)
  then have "compactToHex (pack q) = Ok (drop (unat (2 - (q ! 0 AND 1))) (if q ! 0 \<ge> 2 then q @ [16] else q))"
    unfolding compactToHex_def base Let_def by simp
  moreover have "\<not> (2 :: byte) \<le> 1" by (simp add: word_le_nat_alt)
  ultimately show ?thesis
    unfolding q_def [symmetric] by (simp add: q_def flag_nibble_def)
qed

subsection \<open>Properties\<close>

text \<open>
  C34. Key bytes, hex keys and compact keys determine each other: \<^verbatim>\<open>hexToKeybytes\<close> inverts
  \<^verbatim>\<open>keybytesToHex\<close>, and \<^verbatim>\<open>compactToHex\<close> inverts \<^verbatim>\<open>hexToCompact\<close> on every key of nibbles, of even or odd length,
  with or without the terminator.
\<close>

theorem key_encodings_roundtrip:
  assumes "nibbles p"
  shows "hexToKeybytes (keybytesToHex k) = Ok k \<and>
    bind_result (hexToCompact p) compactToHex = Ok p \<and>
    bind_result (hexToCompact (p @ [16])) compactToHex = Ok (p @ [16])"
proof -
  have t: "hasTerm (keybytesToHex k)" by (rule hasTerm_hexkey [OF keybytesToHex_hexkey])
  have b: "take (length (keybytesToHex k) - 1) (keybytesToHex k) = butlast (keybytesToHex k)"
    by (simp add: butlast_conv_take)
  have "hexToKeybytes (keybytesToHex k) = Ok k"
    unfolding hexToKeybytes_def b Let_def using t
    by (simp add: decodeNibbles_pack pack_keybytesToHex)
  moreover have compact: "bind_result (hexToCompact (p @ (if t then [16] else []))) compactToHex
      = Ok (p @ (if t then [16] else []))" for t
    unfolding hexToCompact_pack [OF assms] using compactToHex_pack [OF assms] by simp
  ultimately show ?thesis using compact [of True] compact [of False] by simp
qed

theorem key_encodings_roundtrip_witness:
  "hexToKeybytes (keybytesToHex [0x12, 0xfe]) = Ok [0x12, 0xfe] \<and>
   bind_result (hexToCompact [1, 2, 3]) compactToHex = Ok [1, 2, 3] \<and>
   bind_result (hexToCompact ([1, 2, 3] @ [16])) compactToHex = Ok ([1, 2, 3] @ [16])"
  by (rule key_encodings_roundtrip) simp

subsection \<open>Common prefixes\<close>

lemma prefix_loop_props:
  "i + k \<le> length a \<Longrightarrow> i + k \<le> length b \<Longrightarrow> take i a = take i b \<Longrightarrow>
     i \<le> prefix_loop k i a b \<and> prefix_loop k i a b \<le> i + k \<and>
     take (prefix_loop k i a b) a = take (prefix_loop k i a b) b \<and>
     (prefix_loop k i a b < i + k \<longrightarrow> a ! prefix_loop k i a b \<noteq> b ! prefix_loop k i a b)"
proof (induction k arbitrary: i)
  case (Suc k)
  show ?case
  proof (cases "a ! i = b ! i")
    case True
    then have "take (i + 1) a = take (i + 1) b" using Suc.prems by (simp add: take_Suc_conv_app_nth)
    then show ?thesis using Suc.IH [of "i + 1"] Suc.prems True by simp
  qed (use Suc in auto)
qed auto

lemma prefixLen_props:
  "prefixLen a b \<le> length a \<and> prefixLen a b \<le> length b \<and>
   take (prefixLen a b) a = take (prefixLen a b) b \<and>
   (prefixLen a b < length a \<and> prefixLen a b < length b \<longrightarrow> a ! prefixLen a b \<noteq> b ! prefixLen a b)"
  using prefix_loop_props [of 0 "if length b < length a then length b else length a" a b]
  by (auto simp: prefixLen_def split: if_splits)

end
