(* ===== verification/Trie.thy ===== *)
theory Trie
  imports TrieEncoding HexTypes
begin

text \<open>
  The Merkle Patricia trie of \<^verbatim>\<open>trie/trie.go\<close> with the nodes of \<^verbatim>\<open>trie/node.go\<close>: \<^verbatim>\<open>tryGet\<close>, \<^verbatim>\<open>insert\<close> and \<^verbatim>\<open>delete\<close>
  with the loading of nodes from the database, their flags and their errors. The database and the
  msgpack decoder of nodes are the arguments collected in \<open>trie_env\<close>. The recursions pass through nodes
  loaded from the database, so they are partial functions: \<^term>\<open>None\<close> is a call that does not return.
  \<^verbatim>\<open>Err\<close> is a returned error, \<^verbatim>\<open>Panic\<close> a run-time panic.
\<close>

subsection \<open>Nodes\<close>

type_synonym u16 = "16 word"

record nodeFlag =
  flag_hash :: "bytes option"
  flag_gen :: u16
  flag_dirty :: bool

datatype node =
    NilNode
  | FullNode "node list" nodeFlag
  | ShortNode bytes node nodeFlag
  | HashNode bytes
  | ValueNode bytes

datatype trie_error = MissingNodeError hash bytes

text \<open>
  \<^verbatim>\<open>Get\<close> of the database (an error or a nil value is \<^term>\<open>None\<close>) and \<^verbatim>\<open>NodeIntf.DecodeMsg\<close>.
\<close>

record trie_env =
  db_get :: "bytes \<Rightarrow> bytes option"
  decode_msg :: "bytes \<Rightarrow> node option"

fun setNodeflag :: "bytes option \<Rightarrow> u16 \<Rightarrow> node \<Rightarrow> node" where
  "setNodeflag h g (ShortNode k v fl) =
     ShortNode k (setNodeflag None g v) (fl\<lparr>flag_hash := h, flag_gen := g\<rparr>)"
| "setNodeflag h g (FullNode cs fl) =
     FullNode (map (setNodeflag None g) cs) (fl\<lparr>flag_hash := h, flag_gen := g\<rparr>)"
| "setNodeflag h g n = n"

definition decodeNode :: "trie_env \<Rightarrow> bytes \<Rightarrow> bytes \<Rightarrow> u16 \<Rightarrow> node option" where
  "decodeNode E h buf cachegen =
     (if length buf = 0 then None
      else case decode_msg E buf of None \<Rightarrow> None | Some n \<Rightarrow> Some (setNodeflag (Some h) cachegen n))"

definition mustDecodeNode :: "trie_env \<Rightarrow> bytes \<Rightarrow> bytes \<Rightarrow> u16 \<Rightarrow> (trie_error, node) result" where
  "mustDecodeNode E h buf cachegen =
     (case decodeNode E h buf cachegen of None \<Rightarrow> Panic | Some n \<Rightarrow> Ok n)"

definition resolveHash :: "trie_env \<Rightarrow> u16 \<Rightarrow> bytes \<Rightarrow> bytes \<Rightarrow> (trie_error, node) result" where
  "resolveHash E cachegen n prefix =
     (case db_get E n of
        None \<Rightarrow> Err (MissingNodeError (BytesToHash n) prefix)
      | Some enc \<Rightarrow> mustDecodeNode E n enc cachegen)"

definition resolve :: "trie_env \<Rightarrow> u16 \<Rightarrow> node \<Rightarrow> bytes \<Rightarrow> (trie_error, node) result" where
  "resolve E cachegen n prefix =
     (case n of HashNode h \<Rightarrow> resolveHash E cachegen h prefix | _ \<Rightarrow> Ok n)"

definition newFlag :: "u16 \<Rightarrow> nodeFlag" where
  "newFlag cachegen = \<lparr>flag_hash = None, flag_gen = cachegen, flag_dirty = True\<rparr>"

definition concat_bytes :: "bytes \<Rightarrow> bytes \<Rightarrow> bytes" where
  "concat_bytes s1 s2 = s1 @ s2"

text \<open>A call whose result is used unless it does not return, fails or panics.\<close>

abbreviation call :: "('e, 'a) result option \<Rightarrow> ('a \<Rightarrow> ('e, 'b) result option) \<Rightarrow> ('e, 'b) result option" where
  "call m f \<equiv> Option.bind m (\<lambda>r. case r of Ok a \<Rightarrow> f a | Err e \<Rightarrow> Some (Err e) | Panic \<Rightarrow> Some Panic)"

subsection \<open>Reading\<close>

partial_function (option) tryGet ::
  "trie_env \<Rightarrow> u16 \<Rightarrow> node \<Rightarrow> bytes \<Rightarrow> nat \<Rightarrow> (trie_error, bytes option \<times> node \<times> bool) result option"
where
  "tryGet E cachegen origNode key pos =
     (case origNode of
        NilNode \<Rightarrow> Some (Ok (None, NilNode, False))
      | ValueNode v \<Rightarrow> Some (Ok (Some v, ValueNode v, False))
      | ShortNode k val fl \<Rightarrow>
          if length key - pos < length k \<or> k \<noteq> take (length k) (drop pos key)
          then Some (Ok (None, origNode, False))
          else call (tryGet E cachegen val key (pos + length k)) (\<lambda>(v, newnode, didResolve).
            Some (Ok (v, if didResolve then ShortNode k newnode (fl\<lparr>flag_gen := cachegen\<rparr>) else origNode,
                      didResolve)))
      | FullNode cs fl \<Rightarrow>
          if pos \<ge> length key \<or> unat (key ! pos) \<ge> length cs then Some Panic
          else call (tryGet E cachegen (cs ! unat (key ! pos)) key (pos + 1)) (\<lambda>(v, newnode, didResolve).
            Some (Ok (v, if didResolve
                         then FullNode (cs[unat (key ! pos) := newnode]) (fl\<lparr>flag_gen := cachegen\<rparr>)
                         else origNode,
                      didResolve)))
      | HashNode h \<Rightarrow>
          (case resolveHash E cachegen h (take pos key) of
             Ok child \<Rightarrow> call (tryGet E cachegen child key pos) (\<lambda>(v, newnode, _).
               Some (Ok (v, newnode, True)))
           | Err e \<Rightarrow> Some (Err e)
           | Panic \<Rightarrow> Some Panic))"

subsection \<open>Inserting\<close>

partial_function (option) trie_insert ::
  "trie_env \<Rightarrow> u16 \<Rightarrow> node \<Rightarrow> bytes \<Rightarrow> bytes \<Rightarrow> node \<Rightarrow> (trie_error, bool \<times> node) result option"
where
  "trie_insert E cachegen n prefix key val =
     (if length key = 0 then
        (case n of
           ValueNode v \<Rightarrow> (case val of ValueNode w \<Rightarrow> Some (Ok (v \<noteq> w, val)) | _ \<Rightarrow> Some Panic)
         | _ \<Rightarrow> Some (Ok (True, val)))
      else
        (case n of
           ShortNode k v fl \<Rightarrow>
             (let matchlen = prefixLen key k in
              if matchlen = length k then
                call (trie_insert E cachegen v (prefix @ take matchlen key) (drop matchlen key) val) (\<lambda>(dirty, nn).
                  Some (Ok (if \<not> dirty then (False, n) else (True, ShortNode k nn (newFlag cachegen)))))
              else
                call (trie_insert E cachegen NilNode (prefix @ take (matchlen + 1) k) (drop (matchlen + 1) k) v)
                  (\<lambda>(_, c1).
                    if matchlen \<ge> length key then Some Panic
                    else call (trie_insert E cachegen NilNode (prefix @ take (matchlen + 1) key)
                                 (drop (matchlen + 1) key) val) (\<lambda>(_, c2).
                      if unat (k ! matchlen) \<ge> 17 \<or> unat (key ! matchlen) \<ge> 17 then Some Panic
                      else let branch = FullNode ((replicate 17 NilNode)
                                   [unat (k ! matchlen) := c1, unat (key ! matchlen) := c2]) (newFlag cachegen)
                           in Some (Ok (True, if matchlen = 0 then branch
                                              else ShortNode (take matchlen key) branch (newFlag cachegen))))))
         | FullNode cs fl \<Rightarrow>
             if unat (key ! 0) \<ge> length cs then Some Panic
             else call (trie_insert E cachegen (cs ! unat (key ! 0)) (prefix @ [key ! 0]) (drop 1 key) val)
                    (\<lambda>(dirty, nn).
                      Some (Ok (if \<not> dirty then (False, n)
                                else (True, FullNode (cs[unat (key ! 0) := nn]) (newFlag cachegen)))))
         | NilNode \<Rightarrow> Some (Ok (True, ShortNode key val (newFlag cachegen)))
         | HashNode h \<Rightarrow>
             (case resolveHash E cachegen h prefix of
                Ok rn \<Rightarrow> call (trie_insert E cachegen rn prefix key val) (\<lambda>(dirty, nn).
                  Some (Ok (if \<not> dirty then (False, rn) else (True, nn))))
              | Err e \<Rightarrow> Some (Err e)
              | Panic \<Rightarrow> Some Panic)
         | ValueNode _ \<Rightarrow> Some Panic))"

subsection \<open>Deleting\<close>

text \<open>
  The loop over the children of a full node: the index of the only child left, -1 when there is none,
  -2 when there are several.
\<close>

fun single_child :: "nat \<Rightarrow> int \<Rightarrow> node list \<Rightarrow> int" where
  "single_child i pos [] = pos"
| "single_child i pos (cld # cs) =
     (if cld \<noteq> NilNode then if pos = -1 then single_child (i + 1) (int i) cs else -2
      else single_child (i + 1) pos cs)"

partial_function (option) trie_delete ::
  "trie_env \<Rightarrow> u16 \<Rightarrow> node \<Rightarrow> bytes \<Rightarrow> bytes \<Rightarrow> (trie_error, bool \<times> node) result option"
where
  "trie_delete E cachegen n prefix key =
     (case n of
        ShortNode k v fl \<Rightarrow>
          (let matchlen = prefixLen key k in
           if matchlen < length k then Some (Ok (False, n))
           else if matchlen = length key then Some (Ok (True, NilNode))
           else call (trie_delete E cachegen v (prefix @ take (length k) key) (drop (length k) key))
                  (\<lambda>(dirty, child).
                    Some (Ok (if \<not> dirty then (False, n)
                              else (case child of
                                      ShortNode k2 v2 _ \<Rightarrow>
                                        (True, ShortNode (concat_bytes k k2) v2 (newFlag cachegen))
                                    | _ \<Rightarrow> (True, ShortNode k child (newFlag cachegen)))))))
      | FullNode cs fl \<Rightarrow>
          if key = [] \<or> unat (key ! 0) \<ge> length cs then Some Panic
          else call (trie_delete E cachegen (cs ! unat (key ! 0)) (prefix @ [key ! 0]) (drop 1 key))
                 (\<lambda>(dirty, nn).
                   if \<not> dirty then Some (Ok (False, n))
                   else let cs' = cs[unat (key ! 0) := nn]; pos = single_child 0 (-1) cs' in
                     if pos \<ge> 0 then
                       (let one = ShortNode [of_int pos] (cs' ! nat pos) (newFlag cachegen) in
                        if pos \<noteq> 16 then
                          (case resolve E cachegen (cs' ! nat pos) prefix of
                             Ok cnode \<Rightarrow>
                               (case cnode of
                                  ShortNode k2 v2 _ \<Rightarrow>
                                    Some (Ok (True, ShortNode (of_int pos # k2) v2 (newFlag cachegen)))
                                | _ \<Rightarrow> Some (Ok (True, one)))
                           | Err e \<Rightarrow> Some (Err e)
                           | Panic \<Rightarrow> Some Panic)
                        else Some (Ok (True, one)))
                     else Some (Ok (True, FullNode cs' (newFlag cachegen))))
      | ValueNode _ \<Rightarrow> Some (Ok (True, NilNode))
      | NilNode \<Rightarrow> Some (Ok (False, NilNode))
      | HashNode h \<Rightarrow>
          (case resolveHash E cachegen h prefix of
             Ok rn \<Rightarrow> call (trie_delete E cachegen rn prefix key) (\<lambda>(dirty, nn).
               Some (Ok (if \<not> dirty then (False, rn) else (True, nn))))
           | Err e \<Rightarrow> Some (Err e)
           | Panic \<Rightarrow> Some Panic))"

subsection \<open>The trie\<close>

record trie =
  trie_root :: node
  originalRoot :: hash
  trie_cachegen :: u16
  trie_cachelimit :: u16

definition emptyRoot :: hash where
  "emptyRoot = HexToHash ''56e81f171bcc55a6ff8345e692c0f86e5b48e01b996cadc001622fb5e363b421''"

definition Trie_New :: "hash \<Rightarrow> trie_env option \<Rightarrow> (trie_error, trie) result" where
  "Trie_New r db =
     (let t = \<lparr>trie_root = NilNode, originalRoot = r, trie_cachegen = 0, trie_cachelimit = 0\<rparr> in
      if r \<noteq> replicate HashLength 0 \<and> r \<noteq> emptyRoot then
        (case db of
           None \<Rightarrow> Panic
         | Some E \<Rightarrow> bind_result (resolveHash E (trie_cachegen t) r []) (\<lambda>n. Ok (t\<lparr>trie_root := n\<rparr>)))
      else Ok t)"

definition SetCacheLimit :: "trie \<Rightarrow> u16 \<Rightarrow> trie" where
  "SetCacheLimit t l = t\<lparr>trie_cachelimit := l\<rparr>"

definition TryGet :: "trie_env \<Rightarrow> trie \<Rightarrow> bytes \<Rightarrow> (trie_error, bytes option \<times> trie) result option" where
  "TryGet E t key =
     call (tryGet E (trie_cachegen t) (trie_root t) (keybytesToHex key) 0) (\<lambda>(v, newroot, didResolve).
       Some (Ok (v, if didResolve then t\<lparr>trie_root := newroot\<rparr> else t)))"

definition TryDelete :: "trie_env \<Rightarrow> trie \<Rightarrow> bytes \<Rightarrow> (trie_error, trie) result option" where
  "TryDelete E t key =
     call (trie_delete E (trie_cachegen t) (trie_root t) [] (keybytesToHex key)) (\<lambda>(_, n).
       Some (Ok (t\<lparr>trie_root := n\<rparr>)))"

definition TryUpdate :: "trie_env \<Rightarrow> trie \<Rightarrow> bytes \<Rightarrow> bytes \<Rightarrow> (trie_error, trie) result option" where
  "TryUpdate E t key val =
     (let k = keybytesToHex key in
      if length val \<noteq> 0
      then call (trie_insert E (trie_cachegen t) (trie_root t) [] k (ValueNode val)) (\<lambda>(_, n).
             Some (Ok (t\<lparr>trie_root := n\<rparr>)))
      else call (trie_delete E (trie_cachegen t) (trie_root t) [] k) (\<lambda>(_, n).
             Some (Ok (t\<lparr>trie_root := n\<rparr>))))"

text \<open>\<^verbatim>\<open>Get\<close>, \<^verbatim>\<open>Update\<close> and \<^verbatim>\<open>Delete\<close> log the error and go on.\<close>

definition Trie_Get :: "trie_env \<Rightarrow> trie \<Rightarrow> bytes \<Rightarrow> (unit, bytes option \<times> trie) result option" where
  "Trie_Get E t key = Option.bind (TryGet E t key) (\<lambda>r. Some
     (case r of Ok p \<Rightarrow> Ok p | Err _ \<Rightarrow> Ok (None, t) | Panic \<Rightarrow> Panic))"

definition Trie_Update :: "trie_env \<Rightarrow> trie \<Rightarrow> bytes \<Rightarrow> bytes \<Rightarrow> (unit, trie) result option" where
  "Trie_Update E t key val = Option.bind (TryUpdate E t key val) (\<lambda>r. Some
     (case r of Ok t' \<Rightarrow> Ok t' | Err _ \<Rightarrow> Ok t | Panic \<Rightarrow> Panic))"

definition Trie_Delete :: "trie_env \<Rightarrow> trie \<Rightarrow> bytes \<Rightarrow> (unit, trie) result option" where
  "Trie_Delete E t key = Option.bind (TryDelete E t key) (\<lambda>r. Some
     (case r of Ok t' \<Rightarrow> Ok t' | Err _ \<Rightarrow> Ok t | Panic \<Rightarrow> Panic))"

end
