(* ===== verification/TrieSpec.thy ===== *)
theory TrieSpec
  imports TrieEncoding
begin

text \<open>
  The trie without hashes, flags and database: what the nodes of \<^verbatim>\<open>trie/node.go\<close> hold once everything is
  loaded, with the insertion and deletion of \<^verbatim>\<open>trie/trie.go\<close> on it. This is the abstract specification
  the trie of the code refines.

  Shown: on well-formed tries insertion and deletion update the map from hex keys to values and keep
  the trie well-formed, and a well-formed trie is determined by that map.
\<close>

datatype ptrie = PNil | PFull "ptrie list" | PShort bytes ptrie | PVal bytes

fun is_PVal :: "ptrie \<Rightarrow> bool" where
  "is_PVal (PVal _) = True"
| "is_PVal _ = False"

fun plookup :: "ptrie \<Rightarrow> bytes \<Rightarrow> bytes option" where
  "plookup PNil k = None"
| "plookup (PVal v) k = (if k = [] then Some v else None)"
| "plookup (PShort p t) k = (if take (length p) k = p then plookup t (drop (length p) k) else None)"
| "plookup (PFull ts) k =
     (case k of [] \<Rightarrow> None
      | x # r \<Rightarrow> if unat x < length ts then plookup (ts ! unat x) r else None)"

definition leaf :: "bytes \<Rightarrow> ptrie \<Rightarrow> ptrie" where
  "leaf k t = (if k = [] then t else PShort k t)"

definition branch :: "byte \<Rightarrow> ptrie \<Rightarrow> byte \<Rightarrow> ptrie \<Rightarrow> ptrie" where
  "branch a t b u = PFull ((replicate 17 PNil)[unat a := t, unat b := u])"

fun pinsert :: "ptrie \<Rightarrow> bytes \<Rightarrow> ptrie \<Rightarrow> ptrie" where
  "pinsert PNil k v = leaf k v"
| "pinsert (PVal w) k v = v"
| "pinsert (PShort p t) k v =
     (let m = prefixLen k p in
      if m = length p then PShort p (pinsert t (drop m k) v)
      else leaf (take m k) (branch (p ! m) (leaf (drop (m + 1) p) t) (k ! m) (leaf (drop (m + 1) k) v)))"
| "pinsert (PFull ts) k v =
     (case k of [] \<Rightarrow> v
      | x # r \<Rightarrow> if unat x < length ts then PFull (ts[unat x := pinsert (ts ! unat x) r v]) else PFull ts)"

text \<open>A short node before a trie, merged with the one that may be there.\<close>

fun prepend :: "bytes \<Rightarrow> ptrie \<Rightarrow> ptrie" where
  "prepend p (PShort q t) = PShort (p @ q) t"
| "prepend p t = PShort p t"

fun live :: "nat \<Rightarrow> ptrie list \<Rightarrow> nat list" where
  "live i [] = []"
| "live i (t # ts) = (if t = PNil then live (i + 1) ts else i # live (i + 1) ts)"

definition collapse :: "ptrie list \<Rightarrow> ptrie" where
  "collapse ts = (case live 0 ts of [i] \<Rightarrow> prepend [of_nat i] (ts ! i) | _ \<Rightarrow> PFull ts)"

fun pdelete :: "ptrie \<Rightarrow> bytes \<Rightarrow> ptrie" where
  "pdelete PNil k = PNil"
| "pdelete (PVal w) k = PNil"
| "pdelete (PShort p t) k =
     (if take (length p) k = p
      then if k = p then PNil else prepend p (pdelete t (drop (length p) k))
      else PShort p t)"
| "pdelete (PFull ts) k =
     (case k of [] \<Rightarrow> PFull ts
      | x # r \<Rightarrow> if unat x < length ts then collapse (ts[unat x := pdelete (ts ! unat x) r]) else PFull ts)"

text \<open>
  Well-formed tries that are not empty: short nodes have a non-empty key and lead to a value (then the
  key ends with the terminator) or to a full node; a full node has 17 children, at least two of them
  present, and its value is at index 16.
\<close>

fun wf_trie :: "ptrie \<Rightarrow> bool" where
  "wf_trie PNil \<longleftrightarrow> False"
| "wf_trie (PVal v) \<longleftrightarrow> v \<noteq> []"
| "wf_trie (PShort p t) \<longleftrightarrow> wf_trie t \<and>
     (case t of PVal _ \<Rightarrow> hexkey p | PFull _ \<Rightarrow> p \<noteq> [] \<and> nibbles p | _ \<Rightarrow> False)"
| "wf_trie (PFull ts) \<longleftrightarrow> length ts = 17 \<and> (\<forall>t \<in> set ts. t = PNil \<or> wf_trie t) \<and>
     (\<forall>i < 17. ts ! i \<noteq> PNil \<longrightarrow> (is_PVal (ts ! i) \<longleftrightarrow> i = 16)) \<and>
     2 \<le> length (live 0 ts)"

definition wf_root :: "ptrie \<Rightarrow> bool" where
  "wf_root t \<longleftrightarrow> t = PNil \<or> wf_trie t \<and> \<not> is_PVal t"

text \<open>The rest of a key at a node: nothing at a value, a hex key elsewhere.\<close>

definition fits :: "ptrie \<Rightarrow> bytes \<Rightarrow> bool" where
  "fits t k \<longleftrightarrow> (if k = [] then t = PNil \<or> is_PVal t else hexkey k \<and> \<not> is_PVal t)"

subsection \<open>Lookup\<close>

lemma plookup_leaf:
  "plookup (leaf k t) q = (if take (length k) q = k then plookup t (drop (length k) q) else None)"
  by (simp add: leaf_def)

lemma plookup_leaf_PVal [simp]: "plookup (leaf k (PVal v)) q = (if q = k then Some v else None)"
proof -
  have "q = k" if "take (length k) q = k" "length q \<le> length k" using that by simp
  then show ?thesis by (auto simp: plookup_leaf)
qed

lemma plookup_PShort_append [simp]: "plookup (PShort p t) (p @ r) = plookup t r"
  by simp

lemma plookup_PShort_None: "(\<And>r. q \<noteq> p @ r) \<Longrightarrow> plookup (PShort p t) q = None"
  by (metis append_take_drop_id plookup.simps(3))

lemma plookup_prepend: "plookup (prepend p t) q = plookup (PShort p t) q"
proof (cases t)
  case (PShort s u)
  consider r where "q = p @ s @ r" | r where "q = p @ r" "\<And>r'. r \<noteq> s @ r'" | "\<And>r. q \<noteq> p @ r"
    by metis
  then show ?thesis
  proof cases
    case 1
    then show ?thesis using PShort plookup_PShort_append [of "p @ s" u r] by simp
  next
    case 2
    then have "q \<noteq> (p @ s) @ r'" for r' by simp
    then have "plookup (PShort (p @ s) u) q = None" by (rule plookup_PShort_None)
    moreover have "plookup (PShort s u) r = None" using 2 by (intro plookup_PShort_None) simp
    ultimately show ?thesis using 2 PShort plookup_PShort_append [of p t r] by (simp del: plookup.simps)
  next
    case 3
    then have "q \<noteq> (p @ s) @ r" for r by simp
    then have "plookup (PShort (p @ s) u) q = None" by (rule plookup_PShort_None)
    moreover have "plookup (PShort p t) q = None" by (rule plookup_PShort_None [OF 3])
    ultimately show ?thesis using PShort by (simp del: plookup.simps)
  qed
qed auto

lemma hexkey_append: "hexkey (p @ q) \<longleftrightarrow> (if q = [] then hexkey p else nibbles p \<and> hexkey q)"
  by (auto simp: hexkey_def butlast_append)

lemma nibble_unat: "x < (16 :: byte) \<longleftrightarrow> unat x < 16"
  by (simp add: word_less_nat_alt)

lemma hexkey_hd: "hexkey (x # k) \<Longrightarrow> unat x < 17 \<and> (unat x = 16 \<longleftrightarrow> k = [])"
  by (auto simp: hexkey_Cons nibble_unat split: if_splits)

text \<open>Two keys that are not prefixes of each other part at some byte.\<close>

lemma prefix_split: "take (length p) k = p \<Longrightarrow> k = p @ drop (length p) k"
  using append_take_drop_id [of "length p" k] by simp

lemma prefixLen_cases:
  obtains (pre) r where "k = p @ r" "prefixLen k p = length p"
  | (short) r where "p = k @ r" "r \<noteq> []" "prefixLen k p = length k"
  | (part) c a p' b k' where "p = c @ a # p'" "k = c @ b # k'" "a \<noteq> b" "prefixLen k p = length c"
proof -
  define m where "m = prefixLen k p"
  have le: "m \<le> length k" "m \<le> length p" and eq: "take m k = take m p"
    and ne: "m < length k \<Longrightarrow> m < length p \<Longrightarrow> k ! m \<noteq> p ! m"
    using prefixLen_props [of k p] unfolding m_def by blast+
  consider "m = length p" | "m < length p" "m = length k" | "m < length p" "m < length k"
    using le by linarith
  then show thesis
  proof cases
    case 1
    then have "take (length p) k = p" using eq by simp
    then have "k = p @ drop (length p) k" by (rule prefix_split)
    then show thesis by (rule pre) (use 1 m_def in simp)
  next
    case 2
    then have "take (length k) p = k" using eq [symmetric] by simp
    then have "p = k @ drop (length k) p" by (rule prefix_split)
    moreover have "drop (length k) p \<noteq> []" using 2 by simp
    moreover have "prefixLen k p = length k" using 2 m_def by simp
    ultimately show thesis by (rule short)
  next
    case 3
    show thesis
    proof (rule part)
      show "k = take m k @ k ! m # drop (Suc m) k" by (rule id_take_nth_drop) (rule 3)
      show "p = take m k @ p ! m # drop (Suc m) p" unfolding eq by (rule id_take_nth_drop) (rule 3)
      show "p ! m \<noteq> k ! m" using ne [OF 3(2) 3(1)] by (rule not_sym)
      show "prefixLen k p = length (take m k)" using 3 by (simp add: m_def)
    qed
  qed
qed

text \<open>A hex key is never a proper prefix of the path of a short node of a well-formed trie.\<close>

lemma short_path: "wf_trie (PShort p t) \<Longrightarrow> p \<noteq> [] \<and> (if is_PVal t then hexkey p else nibbles p)"
  by (cases t) auto

lemma hexkey_not_proper_prefix:
  "hexkey k \<Longrightarrow> hexkey (k @ r) \<or> nibbles (k @ r) \<Longrightarrow> r = []"
  by (metis hexkey_append nibbles_not_hexkey nibbles_simps(3))

subsection \<open>Insertion\<close>

lemma plookup_branch:
  assumes "unat a < 17" "unat b < 17"
  shows "plookup (branch a t b u) q =
    (case q of [] \<Rightarrow> None
     | x # r \<Rightarrow> if x = b then plookup u r else if x = a then plookup t r else None)"
  using assms by (auto simp: branch_def nth_list_update word_unat_eq_iff split: list.split)

lemma plookup_leaf_append [simp]: "plookup (leaf c t) (c @ r) = plookup t r"
  by (simp add: plookup_leaf)

lemma plookup_leaf_None: "(\<And>r. q \<noteq> p @ r) \<Longrightarrow> plookup (leaf p t) q = None"
proof -
  assume q: "\<And>r. q \<noteq> p @ r"
  have "p \<noteq> []" using q [of q] by auto
  then show ?thesis using plookup_PShort_None [OF q] by (simp add: leaf_def)
qed

lemma plookup_leaf_leaf: "plookup (leaf (c @ d) t) q = plookup (leaf c (leaf d t)) q"
  using plookup_prepend [of c "PShort d t" q] by (simp add: leaf_def)

lemma plookup_leaf_Cons:
  "plookup (leaf (a # p) t) q = (case q of [] \<Rightarrow> None | x # s \<Rightarrow> if x = a then plookup (leaf p t) s else None)"
  by (auto simp: plookup_leaf split: list.split)

lemma plookup_short_part:
  assumes "unat a < 17" "unat b < 17" "a \<noteq> b"
  shows "plookup (leaf c (branch a (leaf p t) b (leaf k (PVal v)))) q =
    (if q = c @ b # k then Some v else plookup (PShort (c @ a # p) t) q)"
proof (cases "\<exists>s. q = c @ s")
  case True
  then obtain s where q: "q = c @ s" by blast
  have "plookup (PShort (c @ a # p) t) q = plookup (leaf (a # p) t) s"
    using plookup_leaf_leaf [of c "a # p" t q] q by (simp add: leaf_def [of "c @ a # p"])
  then show ?thesis
    using assms by (auto simp: q plookup_branch plookup_leaf_Cons split: list.split)
next
  case False
  then have "plookup (PShort (c @ a # p) t) q = None" by (intro plookup_PShort_None) auto
  then show ?thesis using False by (simp add: plookup_leaf_None del: plookup.simps)
qed

lemma fits_PShort:
  assumes "wf_trie (PShort p t)" "fits (PShort p t) (p @ r)"
  shows "fits t r"
proof -
  have "if is_PVal t then hexkey p else nibbles p" "hexkey (p @ r)"
    using short_path [OF assms(1)] assms(2) by (auto simp: fits_def split: if_splits)
  moreover have "wf_trie t" using assms(1) by simp
  ultimately show ?thesis
    using nibbles_not_hexkey by (cases t) (auto simp: fits_def hexkey_append split: if_splits)
qed

lemma fits_PFull:
  assumes "wf_trie (PFull ts)" "fits (PFull ts) (x # r)"
  shows "unat x < 17 \<and> fits (ts ! unat x) r"
proof -
  have x: "unat x < 17" "unat x = 16 \<longleftrightarrow> r = []" "r \<noteq> [] \<Longrightarrow> hexkey r"
    using assms(2) hexkey_hd [of x r] by (auto simp: fits_def hexkey_Cons split: if_splits)
  moreover have "ts ! unat x = PNil \<or> (is_PVal (ts ! unat x) \<longleftrightarrow> unat x = 16)"
    using assms(1) x(1) by auto
  ultimately show ?thesis by (auto simp: fits_def)
qed

lemma wf_child: "wf_trie (PFull ts) \<Longrightarrow> i < 17 \<Longrightarrow> ts ! i = PNil \<or> wf_trie (ts ! i)"
  by simp

lemma short_part:
  assumes "wf_trie (PShort p t)" "fits (PShort p t) k" "p = c @ a # p'" "k = c @ b # k'"
  shows "unat a < 17 \<and> unat b < 17 \<and> nibbles c \<and>
    (unat b = 16 \<longleftrightarrow> k' = []) \<and> (k' \<noteq> [] \<longrightarrow> hexkey k') \<and>
    (unat a = 16 \<longleftrightarrow> p' = [] \<and> is_PVal t) \<and>
    (p' \<noteq> [] \<longrightarrow> (if is_PVal t then hexkey p' else nibbles p'))"
proof -
  have "hexkey (c @ b # k')" using assms(2,4) by (auto simp: fits_def split: if_splits)
  then have b: "nibbles c" "hexkey (b # k')" by (simp_all add: hexkey_append)
  show ?thesis
  proof (cases "is_PVal t")
    case True
    then have "hexkey (a # p')" using short_path [OF assms(1)] assms(3) by (simp add: hexkey_append)
    then show ?thesis using b True hexkey_hd [of a p'] hexkey_hd [of b k'] by (auto simp: hexkey_Cons)
  next
    case False
    then have "unat a < 16" "nibbles p'" using short_path [OF assms(1)] assms(3) by (auto simp: nibble_unat)
    then show ?thesis using b False hexkey_hd [of b k'] by (auto simp: hexkey_Cons)
  qed
qed

lemma pinsert_PShort_pre:
  "prefixLen (p @ r) p = length p \<Longrightarrow> pinsert (PShort p t) (p @ r) v = PShort p (pinsert t r v)"
  by simp

lemma pinsert_PShort_part:
  "prefixLen (c @ b # k') (c @ a # p') = length c \<Longrightarrow>
     pinsert (PShort (c @ a # p') t) (c @ b # k') v = leaf c (branch a (leaf p' t) b (leaf k' v))"
  by simp

lemma plookup_pinsert:
  "t = PNil \<or> wf_trie t \<Longrightarrow> fits t k \<Longrightarrow>
     plookup (pinsert t k (PVal v)) q = (if q = k then Some v else plookup t q)"
proof (induction t arbitrary: k q)
  case (PFull ts)
  then have wf: "wf_trie (PFull ts)" and "k \<noteq> []" by (auto simp: fits_def)
  then obtain x r where k: "k = x # r" by (cases k) auto
  note child = fits_PFull [OF wf PFull.prems(2) [unfolded k]]
  have len: "length ts = 17" using wf by simp
  have IH: "plookup (pinsert (ts ! unat x) r (PVal v)) q' = (if q' = r then Some v else plookup (ts ! unat x) q')" for q'
    using child len wf_child [OF wf] by (intro PFull.IH) auto
  show ?case
    using child len IH by (cases q) (auto simp: k nth_list_update word_unat_eq_iff)
next
  case (PShort p t)
  then have wf: "wf_trie (PShort p t)" by simp
  from PShort.prems(2) have k: "hexkey k" by (auto simp: fits_def split: if_splits)
  show ?case
  proof (cases rule: prefixLen_cases [of k p])
    case (pre r)
    then have IH: "plookup (pinsert t r (PVal v)) q' = (if q' = r then Some v else plookup t q')" for q'
      using fits_PShort [OF wf] PShort by auto
    show ?thesis
      unfolding pre(1) pinsert_PShort_pre [OF pre(2) [unfolded pre(1)]]
    proof (cases "\<exists>s. q = p @ s")
      case True
      then show "plookup (PShort p (pinsert t r (PVal v))) q = (if q = p @ r then Some v else plookup (PShort p t) q)"
        by (auto simp: IH simp del: plookup.simps(3) split: if_splits)
    next
      case False
      then show "plookup (PShort p (pinsert t r (PVal v))) q = (if q = p @ r then Some v else plookup (PShort p t) q)"
        by (auto simp: plookup_PShort_None simp del: plookup.simps(3))
    qed
  next
    case (short r)
    then show ?thesis using hexkey_not_proper_prefix [OF k, of r] short_path [OF wf] by (auto split: if_splits)
  next
    case (part c a p' b k')
    note facts = short_part [OF wf PShort.prems(2) part(1,2)]
    show ?thesis
      unfolding part(1,2) pinsert_PShort_part [OF part(4) [unfolded part(1,2)]]
      using facts part(3) by (intro plookup_short_part) auto
  qed
qed (auto simp: fits_def)

lemma length_live: "length (live i ts) = length (filter (\<lambda>t. t \<noteq> PNil) ts)"
  by (induction ts arbitrary: i) auto

lemma filter_update_le:
  "P x \<Longrightarrow> length (filter P ts) \<le> length (filter P (ts[i := x]))"
  by (induction ts arbitrary: i) (auto split: nat.split)

lemma wf_leaf:
  assumes "wf_trie t" "\<not> (\<exists>q u. t = PShort q u)" "p \<noteq> [] \<longrightarrow> (if is_PVal t then hexkey p else nibbles p)"
  shows "wf_trie (leaf p t)"
  using assms by (cases t) (auto simp: leaf_def)

lemma is_PVal_leaf [simp]: "is_PVal (leaf p t) \<longleftrightarrow> p = [] \<and> is_PVal t"
  by (simp add: leaf_def)

lemma wf_branch:
  assumes "unat a < 17" "unat b < 17" "a \<noteq> b" "wf_trie t" "wf_trie u"
    and "is_PVal t \<longleftrightarrow> unat a = 16" "is_PVal u \<longleftrightarrow> unat b = 16"
  shows "wf_trie (branch a t b u)"
proof -
  define xs where "xs = (replicate 17 PNil)[unat a := t, unat b := u]"
  have ne: "unat a \<noteq> unat b" using assms(3) by (simp add: word_unat_eq_iff)
  have nth: "xs ! i = (if i = unat b then u else if i = unat a then t else PNil)" if "i < 17" for i
    using that assms by (auto simp: xs_def nth_list_update)
  have len: "length xs = 17" by (simp add: xs_def)
  have nn: "t \<noteq> PNil" "u \<noteq> PNil" using assms by auto
  have "{unat a, unat b} \<subseteq> {i. i < length xs \<and> xs ! i \<noteq> PNil}"
    using assms nn by (auto simp: len nth)
  then have "card {unat a, unat b} \<le> card {i. i < length xs \<and> xs ! i \<noteq> PNil}"
    by (intro card_mono) auto
  then have "2 \<le> length (live 0 xs)" using ne by (simp add: length_live length_filter_conv_card)
  moreover have "\<forall>t' \<in> set xs. t' = PNil \<or> wf_trie t'"
    using assms by (auto simp: in_set_conv_nth len nth)
  moreover have "\<forall>i < 17. xs ! i \<noteq> PNil \<longrightarrow> (is_PVal (xs ! i) \<longleftrightarrow> i = 16)"
    using assms by (auto simp: nth)
  ultimately show ?thesis unfolding branch_def xs_def [symmetric] using len by simp
qed

lemma wf_PFull_update:
  assumes "wf_trie (PFull ts)" "i < 17" "wf_trie t" "is_PVal t \<longleftrightarrow> i = 16"
  shows "wf_trie (PFull (ts[i := t]))"
proof -
  have "t \<noteq> PNil" using assms by auto
  then have "2 \<le> length (live 0 (ts[i := t]))"
    using assms(1) filter_update_le [of "\<lambda>t. t \<noteq> PNil" t ts i] by (simp add: length_live)
  moreover have "\<forall>u \<in> set (ts[i := t]). u = PNil \<or> wf_trie u"
    using assms set_update_subset_insert [of ts i t] by auto
  ultimately show ?thesis using assms by (auto simp: nth_list_update)
qed

lemma pinsert_wf:
  "t = PNil \<or> wf_trie t \<Longrightarrow> fits t k \<Longrightarrow> v \<noteq> [] \<Longrightarrow>
     wf_trie (pinsert t k (PVal v)) \<and> (is_PVal (pinsert t k (PVal v)) \<longleftrightarrow> k = [])"
proof (induction t arbitrary: k)
  case PNil
  then show ?case by (auto simp: fits_def intro!: wf_leaf)
next
  case (PFull ts)
  then have wf: "wf_trie (PFull ts)" and "k \<noteq> []" by (auto simp: fits_def)
  then obtain x r where k: "k = x # r" by (cases k) auto
  note child = fits_PFull [OF wf PFull.prems(2) [unfolded k]]
  have "unat x = 16 \<longleftrightarrow> r = []"
    using PFull.prems(2) hexkey_hd [of x r] by (auto simp: k fits_def split: if_splits)
  moreover have "wf_trie (pinsert (ts ! unat x) r (PVal v)) \<and> (is_PVal (pinsert (ts ! unat x) r (PVal v)) \<longleftrightarrow> r = [])"
    using child wf wf_child [OF wf] PFull.prems(3) by (intro PFull.IH) auto
  ultimately have "wf_trie (PFull (ts[unat x := pinsert (ts ! unat x) r (PVal v)]))"
    using child by (intro wf_PFull_update wf) auto
  then show ?case using child wf by (simp add: k del: wf_trie.simps)
next
  case (PShort p t)
  then have wf: "wf_trie (PShort p t)" by simp
  from PShort.prems(2) have k: "hexkey k" by (auto simp: fits_def split: if_splits)
  show ?case
  proof (cases rule: prefixLen_cases [of k p])
    case (pre r)
    have fit: "fits t r" using fits_PShort [OF wf] PShort.prems(2) pre(1) by simp
    then have IH: "wf_trie (pinsert t r (PVal v)) \<and> (is_PVal (pinsert t r (PVal v)) \<longleftrightarrow> r = [])"
      using PShort by auto
    have "is_PVal t \<longleftrightarrow> r = []" "\<nexists>q u. pinsert t r (PVal v) = PShort q u"
      using fit wf by (cases t; cases r; auto simp: fits_def)+
    then have "wf_trie (PShort p (pinsert t r (PVal v)))"
      using IH short_path [OF wf] by (cases "pinsert t r (PVal v)") auto
    then show ?thesis
      unfolding pre(1) pinsert_PShort_pre [OF pre(2) [unfolded pre(1)]] using short_path [OF wf] by simp
  next
    case (short r)
    then show ?thesis using hexkey_not_proper_prefix [OF k, of r] short_path [OF wf] by (auto split: if_splits)
  next
    case (part c a p' b k')
    note facts = short_part [OF wf PShort.prems(2) part(1,2)]
    have "wf_trie (leaf p' t)" "wf_trie (leaf k' (PVal v))"
      using wf facts PShort.prems(3) by (auto intro!: wf_leaf split: ptrie.splits)
    then have "wf_trie (branch a (leaf p' t) b (leaf k' (PVal v)))"
      using facts part(3) by (intro wf_branch) auto
    then have "wf_trie (leaf c (branch a (leaf p' t) b (leaf k' (PVal v))))"
      using facts by (intro wf_leaf) (auto simp: branch_def)
    then show ?thesis
      unfolding part(1,2) pinsert_PShort_part [OF part(4) [unfolded part(1,2)]] by (simp add: branch_def)
  qed
qed (auto simp: fits_def split: if_splits)

subsection \<open>Deletion\<close>

lemma set_live: "j \<in> set (live n ts) \<longleftrightarrow> n \<le> j \<and> j - n < length ts \<and> ts ! (j - n) \<noteq> PNil"
proof (induction ts arbitrary: n)
  case (Cons t ts)
  show ?case
  proof (cases "n < j")
    case True
    then have "j - n = Suc (j - Suc n)" by simp
    then show ?thesis using Cons [of "Suc n"] True by auto
  next
    case False
    then show ?thesis using Cons [of "Suc n"] by (cases "j = n") auto
  qed
qed simp

lemma live_single:
  assumes "live 0 ts = [i]"
  shows "i < length ts \<and> ts ! i \<noteq> PNil \<and> (\<forall>j < length ts. j \<noteq> i \<longrightarrow> ts ! j = PNil)"
proof -
  have "j = i \<longleftrightarrow> j < length ts \<and> ts ! j \<noteq> PNil" for j
    using set_live [of j 0 ts] by (simp add: assms)
  then show ?thesis by metis
qed

lemma plookup_collapse:
  assumes "length ts = 17"
  shows "plookup (collapse ts) q = plookup (PFull ts) q"
proof (cases "\<exists>i. live 0 ts = [i]")
  case True
  then obtain i where i: "live 0 ts = [i]" by blast
  note one = live_single [OF i]
  then have u: "unat (of_nat i :: byte) = i" using assms by (simp add: unat_of_nat)
  have "plookup (collapse ts) q = plookup (PShort [of_nat i] (ts ! i)) q"
    by (simp add: collapse_def i plookup_prepend)
  then show ?thesis using one u by (cases q) (auto simp: word_unat_eq_iff)
next
  case False
  then have "collapse ts = PFull ts" by (auto simp: collapse_def split: list.splits)
  then show ?thesis by simp
qed

lemma plookup_pdelete:
  "t = PNil \<or> wf_trie t \<Longrightarrow> fits t k \<Longrightarrow>
     plookup (pdelete t k) q = (if q = k then None else plookup t q)"
proof (induction t arbitrary: k q)
  case (PFull ts)
  then have wf: "wf_trie (PFull ts)" and "k \<noteq> []" by (auto simp: fits_def)
  then obtain x r where k: "k = x # r" by (cases k) auto
  note child = fits_PFull [OF wf PFull.prems(2) [unfolded k]]
  have len: "length ts = 17" using wf by simp
  have IH: "plookup (pdelete (ts ! unat x) r) q' = (if q' = r then None else plookup (ts ! unat x) q')" for q'
    using child len wf_child [OF wf] by (intro PFull.IH) auto
  have "plookup (pdelete (PFull ts) k) q = plookup (PFull (ts[unat x := pdelete (ts ! unat x) r])) q"
    using child len by (simp add: k plookup_collapse del: plookup.simps)
  then show ?case
    using child len IH by (cases q) (auto simp: k nth_list_update word_unat_eq_iff)
next
  case (PShort p t)
  then have wf: "wf_trie (PShort p t)" by simp
  show ?case
  proof (cases "\<exists>r. k = p @ r")
    case False
    then have "take (length p) k \<noteq> p" using prefix_split by blast
    moreover have "plookup (PShort p t) k = None" using False by (intro plookup_PShort_None) auto
    ultimately show ?thesis by simp
  next
    case True
    then obtain r where r: "k = p @ r" by blast
    have fit: "fits t r" using fits_PShort [OF wf] PShort.prems(2) r by simp
    have IH: "plookup (pdelete t r) q' = (if q' = r then None else plookup t q')" for q'
      using PShort.IH PShort.prems(1) fit by simp
    have "plookup (pdelete (PShort p t) k) q = plookup (PShort p (pdelete t r)) q"
    proof (cases "r = []")
      case True
      then show ?thesis using fit wf by (cases t) (auto simp: r fits_def)
    next
      case False
      then show ?thesis by (simp add: r plookup_prepend del: plookup.simps)
    qed
    then show ?thesis
      using IH by (cases "\<exists>s. q = p @ s") (auto simp: r plookup_PShort_None simp del: plookup.simps split: if_splits)
  qed
qed (auto simp: fits_def split: if_splits)

lemma filter_update_Suc:
  "length (filter P ts) \<le> Suc (length (filter P (ts[i := x])))"
proof (induction ts arbitrary: i)
  case (Cons t ts)
  then show ?case by (cases i) (auto intro: le_SucI)
qed simp

lemma wf_prepend:
  assumes "wf_trie t" "if is_PVal t then hexkey p else nibbles p" "p \<noteq> []"
  shows "wf_trie (prepend p t) \<and> \<not> is_PVal (prepend p t) \<and> prepend p t \<noteq> PNil"
  using assms by (cases t) (auto simp: hexkey_append split: ptrie.splits)

lemma collapse_wf:
  assumes len: "length ts = 17" and children: "\<forall>t \<in> set ts. t = PNil \<or> wf_trie t"
    and shape: "\<forall>i < 17. ts ! i \<noteq> PNil \<longrightarrow> (is_PVal (ts ! i) \<longleftrightarrow> i = 16)"
    and one: "1 \<le> length (live 0 ts)"
  shows "wf_trie (collapse ts) \<and> \<not> is_PVal (collapse ts) \<and> collapse ts \<noteq> PNil"
proof (cases "\<exists>i. live 0 ts = [i]")
  case True
  then obtain i where i: "live 0 ts = [i]" by blast
  note single = live_single [OF i]
  then have "wf_trie (ts ! i)" "is_PVal (ts ! i) \<longleftrightarrow> i = 16" using len children shape by auto
  moreover have "i = 16 \<or> (of_nat i :: byte) < 16"
    using single len by (auto simp: word_less_nat_alt unat_of_nat)
  ultimately show ?thesis
    using wf_prepend [of "ts ! i" "[of_nat i]"] by (auto simp: collapse_def i hexkey_Cons)
next
  case False
  then have "collapse ts = PFull ts" "2 \<le> length (live 0 ts)"
    using one by (cases "live 0 ts" rule: remdups_adj.cases; simp add: collapse_def)+
  then show ?thesis using assms by simp
qed

lemma pdelete_wf:
  "t = PNil \<or> wf_trie t \<Longrightarrow> fits t k \<Longrightarrow>
     (pdelete t k = PNil \<or> wf_trie (pdelete t k)) \<and> \<not> is_PVal (pdelete t k) \<and>
     (pdelete t k = PNil \<longrightarrow> (\<nexists>ts. t = PFull ts))"
proof (induction t arbitrary: k)
  case (PFull ts)
  then have wf: "wf_trie (PFull ts)" and "k \<noteq> []" by (auto simp: fits_def)
  then obtain x r where k: "k = x # r" by (cases k) auto
  note child = fits_PFull [OF wf PFull.prems(2) [unfolded k]]
  have len: "length ts = 17" using wf by simp
  define u where "u = pdelete (ts ! unat x) r"
  have u: "u = PNil \<or> wf_trie u" "\<not> is_PVal u"
    using child len wf_child [OF wf] PFull.IH [of "ts ! unat x" r] by (auto simp: u_def)
  have "unat x \<noteq> 16 \<or> u = PNil"
  proof (cases "unat x = 16")
    case True
    then have "r = []" using PFull.prems(2) hexkey_hd [of x r] by (auto simp: k fits_def split: if_splits)
    then show ?thesis using child by (cases "ts ! unat x") (auto simp: fits_def u_def)
  qed simp
  then have shape: "ts[unat x := u] ! i \<noteq> PNil \<longrightarrow> (is_PVal (ts[unat x := u] ! i) \<longleftrightarrow> i = 16)" if "i < 17" for i
    using wf u that len by (cases "i = unat x") auto
  have "1 \<le> length (live 0 (ts[unat x := u]))"
    using wf filter_update_Suc [of "\<lambda>t. t \<noteq> PNil" ts "unat x" u] unfolding length_live wf_trie.simps by linarith
  moreover have "\<forall>t \<in> set (ts[unat x := u]). t = PNil \<or> wf_trie t"
    using wf u set_update_subset_insert [of ts "unat x" u] by auto
  ultimately have "wf_trie (collapse (ts[unat x := u])) \<and> \<not> is_PVal (collapse (ts[unat x := u])) \<and>
      collapse (ts[unat x := u]) \<noteq> PNil"
    using len shape by (intro collapse_wf) auto
  then show ?case using child len by (simp add: k u_def)
next
  case (PShort p t)
  then have wf: "wf_trie (PShort p t)" by simp
  show ?case
  proof (cases "\<exists>r. k = p @ r \<and> r \<noteq> []")
    case True
    then obtain r where r: "k = p @ r" "r \<noteq> []" by blast
    have fit: "fits t r" using fits_PShort [OF wf] PShort.prems(2) r by simp
    then obtain ts where t: "t = PFull ts" using wf r by (cases t) (auto simp: fits_def)
    have "wf_trie (pdelete t r) \<and> \<not> is_PVal (pdelete t r)"
      using PShort.IH [of r] wf fit t by auto
    then have "wf_trie (prepend p (pdelete t r)) \<and> \<not> is_PVal (prepend p (pdelete t r)) \<and> prepend p (pdelete t r) \<noteq> PNil"
      using short_path [OF wf] t by (intro wf_prepend) auto
    then show ?thesis using r by simp
  next
    case False
    then have "k = p \<or> take (length p) k \<noteq> p" using prefix_split [of p k] by (metis append.right_neutral)
    then show ?thesis using wf by auto
  qed
qed auto

subsection \<open>A trie is determined by what it holds\<close>

lemma live_two:
  assumes "2 \<le> length (live 0 ts)"
  obtains i j where "i < length ts" "j < length ts" "i \<noteq> j" "ts ! i \<noteq> PNil" "ts ! j \<noteq> PNil"
proof -
  have "2 \<le> card {i. i < length ts \<and> ts ! i \<noteq> PNil}"
    using assms by (simp add: length_live length_filter_conv_card)
  then have "\<not> card {i. i < length ts \<and> ts ! i \<noteq> PNil} \<le> Suc 0" by simp
  then obtain i j where "i \<in> {i. i < length ts \<and> ts ! i \<noteq> PNil}"
      "j \<in> {i. i < length ts \<and> ts ! i \<noteq> PNil}" "i \<noteq> j"
    using card_le_Suc0_iff_eq [of "{i. i < length ts \<and> ts ! i \<noteq> PNil}"] by auto
  then show thesis using that by blast
qed

lemma wf_holds_something: "wf_trie t \<Longrightarrow> \<exists>k. plookup t k \<noteq> None"
proof (induction t)
  case (PFull ts)
  then obtain i where i: "i < 17" "ts ! i \<noteq> PNil" by (metis live_two wf_trie.simps(4))
  then obtain k where "plookup (ts ! i) k \<noteq> None" using PFull by (metis nth_mem wf_trie.simps(4))
  moreover have "unat (of_nat i :: byte) = i" using i by (simp add: unat_of_nat)
  ultimately show ?case using i PFull.prems by (intro exI [of _ "of_nat i # k"]) auto
next
  case (PShort p t)
  then obtain k where "plookup t k \<noteq> None" by auto
  then have "plookup (PShort p t) (p @ k) \<noteq> None" by (simp del: plookup.simps)
  then show ?case by blast
qed auto

lemma PFull_two_keys:
  assumes "wf_trie (PFull ts)"
  obtains x r y s where "x \<noteq> y" "plookup (PFull ts) (x # r) \<noteq> None" "plookup (PFull ts) (y # s) \<noteq> None"
proof -
  obtain i j where ij: "i < 17" "j < 17" "i \<noteq> j" "ts ! i \<noteq> PNil" "ts ! j \<noteq> PNil"
    using assms by (metis live_two wf_trie.simps(4))
  then have "wf_trie (ts ! i)" "wf_trie (ts ! j)" using wf_child [OF assms] by auto
  then obtain r s where rs: "plookup (ts ! i) r \<noteq> None" "plookup (ts ! j) s \<noteq> None"
    using wf_holds_something by blast
  have u: "unat (of_nat i :: byte) = i" "unat (of_nat j :: byte) = j" using ij by (simp_all add: unat_of_nat)
  then have "(of_nat i :: byte) \<noteq> of_nat j" using ij(3) by metis
  moreover have "length ts = 17" using assms by simp
  ultimately show thesis using that [of "of_nat i" "of_nat j" r s] rs u ij by simp
qed

lemma PShort_key: "plookup (PShort p t) q \<noteq> None \<Longrightarrow> \<exists>s. q = p @ s"
  by (metis plookup_PShort_None)

lemma two_prefixes:
  assumes "p @ x # r = p' @ u" "p @ y # s = p' @ w" "x \<noteq> y"
  shows "\<exists>d. p = p' @ d"
proof (rule ccontr)
  assume no: "\<nexists>d. p = p' @ d"
  then obtain z d where p': "p' = p @ z # d"
    using assms(1) by (auto simp: append_eq_append_conv2 Cons_eq_append_conv)
  then have "z = x" "z = y" using assms(1,2) by auto
  then show False using assms(3) by simp
qed

lemma short_of_full_keys:
  assumes "wf_trie (PShort p (PFull ts))" "\<And>k. plookup (PShort p (PFull ts)) k = plookup (PShort p' t') k"
  obtains x r y s where "x \<noteq> y" "plookup (PShort p' t') (p @ x # r) \<noteq> None"
    "plookup (PShort p' t') (p @ y # s) \<noteq> None"
proof -
  have "wf_trie (PFull ts)" using assms(1) by simp
  then obtain x r y s where xy: "x \<noteq> y" "plookup (PFull ts) (x # r) \<noteq> None" "plookup (PFull ts) (y # s) \<noteq> None"
    by (rule PFull_two_keys)
  have "plookup (PShort p' t') (p @ z) = plookup (PFull ts) z" for z
    using assms(2) [of "p @ z"] plookup_PShort_append [of p "PFull ts" z] by (simp del: plookup.simps)
  then show thesis using that [of x y r s] xy by (simp del: plookup.simps)
qed

lemma short_of_full_prefix:
  assumes "wf_trie (PShort p (PFull ts))" "\<And>k. plookup (PShort p (PFull ts)) k = plookup (PShort p' t') k"
  shows "\<exists>d. p = p' @ d"
proof -
  obtain x r y s where xy: "x \<noteq> y" "plookup (PShort p' t') (p @ x # r) \<noteq> None"
    "plookup (PShort p' t') (p @ y # s) \<noteq> None"
    by (rule short_of_full_keys [OF assms])
  obtain u where u: "p @ x # r = p' @ u" using PShort_key [OF xy(2)] by blast
  obtain w where w: "p @ y # s = p' @ w" using PShort_key [OF xy(3)] by blast
  show ?thesis by (rule two_prefixes [OF u w xy(1)])
qed

lemma short_full_not_val:
  assumes "wf_trie (PShort p (PFull ts))" "\<And>k. plookup (PShort p (PFull ts)) k = plookup (PShort p' (PVal v)) k"
  shows False
proof -
  obtain x r y s where xy: "x \<noteq> y" "plookup (PShort p' (PVal v)) (p @ x # r) \<noteq> None"
    "plookup (PShort p' (PVal v)) (p @ y # s) \<noteq> None"
    by (rule short_of_full_keys [OF assms])
  moreover have "q = p'" if "plookup (PShort p' (PVal v)) q \<noteq> None" for q
    using that prefix_split [of p' q] by (auto split: if_splits)
  ultimately have "p @ x # r = p @ y # s" by metis
  then show False using xy(1) by simp
qed

lemma short_same_path:
  assumes "wf_trie (PShort p t)" "wf_trie (PShort p' t')" "\<And>k. plookup (PShort p t) k = plookup (PShort p' t') k"
  shows "p = p'"
proof -
  note sym = assms(3) [symmetric]
  consider ts ts' where "t = PFull ts" "t' = PFull ts'" | ts v' where "t = PFull ts" "t' = PVal v'"
    | v ts' where "t = PVal v" "t' = PFull ts'" | v v' where "t = PVal v" "t' = PVal v'"
    using assms(1,2) by (cases t; cases t'; auto)
  then show ?thesis
  proof cases
    case 1
    obtain d where "p = p' @ d"
      using short_of_full_prefix [of p ts p' t'] assms(1,3) 1(1) by blast
    moreover obtain d' where "p' = p @ d'"
      using short_of_full_prefix [of p' ts' p t] assms(2) sym 1(2) by blast
    ultimately show ?thesis by auto
  next
    case 2
    then show ?thesis using short_full_not_val [of p ts p' v'] assms(1,3) by blast
  next
    case 3
    then show ?thesis using short_full_not_val [of p' ts' p v] assms(2) sym by blast
  next
    case 4
    then have "plookup (PShort p' t') p = Some v" using assms(3) [of p] by simp
    then show ?thesis using 4 prefix_split [of p' p] by (auto split: if_splits)
  qed
qed

lemma short_not_full:
  assumes "wf_trie (PFull ts)" "\<And>k. plookup (PShort p t) k = plookup (PFull ts) k" "p \<noteq> []"
  shows False
proof -
  obtain x r y s where xy: "x \<noteq> y" "plookup (PFull ts) (x # r) \<noteq> None" "plookup (PFull ts) (y # s) \<noteq> None"
    using assms(1) by (rule PFull_two_keys)
  obtain u where u: "x # r = p @ u" using PShort_key [of p t "x # r"] xy(2) assms(2) by (simp del: plookup.simps) blast
  obtain w where w: "y # s = p @ w" using PShort_key [of p t "y # s"] xy(3) assms(2) by (simp del: plookup.simps) blast
  from u w show False using xy(1) assms(3) by (cases p) auto
qed

lemma ptrie_ext:
  "t = PNil \<or> wf_trie t \<Longrightarrow> t' = PNil \<or> wf_trie t' \<Longrightarrow> (\<And>k. plookup t k = plookup t' k) \<Longrightarrow> t = t'"
proof (induction t arbitrary: t')
  case PNil
  then show ?case using wf_holds_something [of t'] by auto
next
  case (PVal v)
  then have "plookup t' [] = Some v" by (metis plookup.simps(2))
  then show ?case using PVal.prems(2) by (cases t') (auto split: ptrie.splits if_splits)
next
  case (PShort p t)
  then have wf: "wf_trie (PShort p t)" by simp
  note same = PShort.prems(3)
  have ne: "p \<noteq> []" using short_path [OF wf] by simp
  obtain k where k: "plookup (PShort p t) k \<noteq> None" using wf_holds_something [OF wf] by blast
  show ?case
  proof (cases t')
    case PNil
    then show ?thesis using k same [of k] by (simp del: plookup.simps(3))
  next
    case (PVal v)
    then show ?thesis using same [of "[]"] ne by simp
  next
    case (PFull ts)
    then show ?thesis using short_not_full [of ts p t] PShort.prems(2) same ne by auto
  next
    case (PShort p' u)
    then have wf': "wf_trie (PShort p' u)" using PShort.prems(2) by simp
    have p: "p = p'" using short_same_path [OF wf wf'] same PShort by simp
    have "plookup t r = plookup u r" for r
      using same [of "p @ r"] plookup_PShort_append [of p t r] plookup_PShort_append [of p u r] PShort p
      by (simp del: plookup.simps)
    then have "t = u" using PShort.IH [of u] wf wf' by auto
    then show ?thesis using PShort p by simp
  qed
next
  case (PFull ts)
  then have wf: "wf_trie (PFull ts)" by simp
  note same = PFull.prems(3)
  obtain k where k: "plookup (PFull ts) k \<noteq> None" using wf_holds_something [OF wf] by blast
  show ?case
  proof (cases t')
    case PNil
    then show ?thesis using k same [of k] by (simp del: plookup.simps(4))
  next
    case (PVal v)
    then show ?thesis using same [of "[]"] by simp
  next
    case (PShort p u)
    then have "p \<noteq> []" using short_path PFull.prems(2) by auto
    then show ?thesis using short_not_full [OF wf, of p u] same PShort by simp
  next
    case (PFull ts')
    then have wf': "wf_trie (PFull ts')" using PFull.prems(2) by simp
    have len: "length ts = 17" "length ts' = 17" using wf wf' by simp_all
    have "ts ! i = ts' ! i" if "i < 17" for i
    proof (rule PFull.IH)
      have "unat (of_nat i :: byte) = i" using that by (simp add: unat_of_nat)
      then show "plookup (ts ! i) r = plookup (ts' ! i) r" for r
        using same [of "of_nat i # r"] PFull len that by simp
    qed (use that len wf_child [OF wf] wf_child [OF wf'] in auto)
    then show ?thesis using PFull len by (auto intro: nth_equalityI)
  qed
qed

end
