(* ===== verification/TrieRefine.thy ===== *)
theory TrieRefine
  imports Trie TrieSpec
begin

text \<open>
  The trie of the code refines the trie of \<open>TrieSpec\<close>. A node unfolds to the trie it stands for once every
  hash node under it is loaded; reading, inserting and deleting return, whatever part of the trie is
  in memory, and give what the specification gives, so a trie over a complete database is a map from
  keys to values, and what it unfolds to depends on that map only.
\<close>

inductive unfolds :: "trie_env \<Rightarrow> node \<Rightarrow> ptrie \<Rightarrow> bool" for E where
  unfolds_nil: "unfolds E NilNode PNil"
| unfolds_value: "unfolds E (ValueNode v) (PVal v)"
| unfolds_short: "unfolds E n t \<Longrightarrow> unfolds E (ShortNode k n fl) (PShort k t)"
| unfolds_full: "list_all2 (unfolds E) ns ts \<Longrightarrow> unfolds E (FullNode ns fl) (PFull ts)"
| unfolds_hash: "db_get E h = Some enc \<Longrightarrow> enc \<noteq> [] \<Longrightarrow> decode_msg E enc = Some n \<Longrightarrow>
    (\<And>h'. n \<noteq> HashNode h') \<Longrightarrow> t \<noteq> PNil \<Longrightarrow> \<not> is_PVal t \<Longrightarrow>
    (\<And>f g. unfolds E (setNodeflag f g n) t) \<Longrightarrow> unfolds E (HashNode h) t"

inductive_simps unfolds_simps [simp]:
  "unfolds E NilNode t" "unfolds E (ValueNode v) t" "unfolds E (ShortNode k n fl) t"
  "unfolds E (FullNode ns fl) t"

lemma unfolds_Nil_iff: "unfolds E n PNil \<longleftrightarrow> n = NilNode"
  by (auto elim: unfolds.cases)

lemma resolveHash_unfolds:
  assumes "db_get E h = Some enc" "enc \<noteq> []" "decode_msg E enc = Some n"
  shows "resolveHash E g h p = Ok (setNodeflag (Some h) g n)"
  using assms by (simp add: resolveHash_def mustDecodeNode_def decodeNode_def)

lemma setNodeflag_not_hash: "(\<And>h'. n \<noteq> HashNode h') \<Longrightarrow> setNodeflag f g n \<noteq> HashNode h"
  by (cases n) auto

subsection \<open>Reading\<close>

lemma tryGet_nodes:
  "tryGet E g NilNode key pos = Some (Ok (None, NilNode, False))"
  "tryGet E g (ValueNode v) key pos = Some (Ok (Some v, ValueNode v, False))"
  by (simp_all add: tryGet.simps)

lemma tryGet_short:
  "tryGet E g (ShortNode k n fl) key pos =
     (if length key - pos < length k \<or> k \<noteq> take (length k) (drop pos key)
      then Some (Ok (None, ShortNode k n fl, False))
      else call (tryGet E g n key (pos + length k)) (\<lambda>(v, n', d).
        Some (Ok (v, if d then ShortNode k n' (fl\<lparr>flag_gen := g\<rparr>) else ShortNode k n fl, d))))"
  by (subst tryGet.simps) simp

lemma tryGet_full:
  "tryGet E g (FullNode cs fl) key pos =
     (if pos \<ge> length key \<or> unat (key ! pos) \<ge> length cs then Some Panic
      else call (tryGet E g (cs ! unat (key ! pos)) key (pos + 1)) (\<lambda>(v, n', d).
        Some (Ok (v, if d then FullNode (cs[unat (key ! pos) := n']) (fl\<lparr>flag_gen := g\<rparr>) else FullNode cs fl, d))))"
  by (subst tryGet.simps) simp

lemma tryGet_hash:
  assumes "resolveHash E g h (take pos key) = Ok n"
  shows "tryGet E g (HashNode h) key pos =
    call (tryGet E g n key pos) (\<lambda>(v, n', _). Some (Ok (v, n', True)))"
  using assms by (subst tryGet.simps) simp

lemma drop_eq_ConsD:
  assumes "drop n k = x # r"
  shows "n < length k \<and> k ! n = x \<and> drop (n + 1) k = r"
proof -
  have "n < length k" using assms by (metis drop_all list.discI not_le)
  then show ?thesis using assms Cons_nth_drop_Suc [of n k] by simp
qed

lemma drop_prefixD: "k = take (length k) (drop n key) \<Longrightarrow> drop n key = k @ drop (n + length k) key"
  by (metis append_take_drop_id drop_drop add.commute)

lemma tryGet_refines:
  "unfolds E n t \<Longrightarrow> t = PNil \<or> wf_trie t \<Longrightarrow> fits t (drop pos key) \<Longrightarrow>
     \<exists>n' d. tryGet E g n key pos = Some (Ok (plookup t (drop pos key), n', d)) \<and> unfolds E n' t"
proof (induction arbitrary: pos rule: unfolds.induct)
  case unfolds_nil
  then show ?case by (auto simp: tryGet_nodes)
next
  case (unfolds_value v)
  then have "drop pos key = []" by (auto simp: fits_def split: if_splits)
  then show ?case by (auto simp: tryGet_nodes)
next
  case (unfolds_short n t k fl)
  then have wf: "wf_trie (PShort k t)" by simp
  show ?case
  proof (cases "k = take (length k) (drop pos key)")
    case False
    then show ?thesis using unfolds_short.hyps by (auto simp: tryGet_short)
  next
    case True
    note k = drop_prefixD [OF True]
    then have "fits t (drop (pos + length k) key)" using fits_PShort [OF wf] unfolds_short.prems(2) by simp
    then obtain n' d where IH: "tryGet E g n key (pos + length k) = Some (Ok (plookup t (drop (pos + length k) key), n', d))"
        "unfolds E n' t"
      using unfolds_short.IH [of "pos + length k"] wf by auto
    have "\<not> length key - pos < length k" using arg_cong [OF k, of length] by simp
    moreover have "plookup (PShort k t) (drop pos key) = plookup t (drop (pos + length k) key)"
      unfolding k by (rule plookup_PShort_append)
    ultimately show ?thesis
      using IH unfolds_short.hyps True by (simp add: tryGet_short del: plookup.simps)
  qed
next
  case (unfolds_full ns ts fl)
  then have wf: "wf_trie (PFull ts)" by simp
  then have len: "length ns = 17" "length ts = 17" using unfolds_full.IH by (auto dest: list_all2_lengthD)
  obtain x r where xr: "drop pos key = x # r"
    using unfolds_full.prems(2) by (cases "drop pos key") (auto simp: fits_def)
  note pos = drop_eq_ConsD [OF xr]
  note child = fits_PFull [OF wf unfolds_full.prems(2) [unfolded xr]]
  have IH: "unfolds E (ns ! unat x) (ts ! unat x)"
    "\<And>pos. fits (ts ! unat x) (drop pos key) \<Longrightarrow> \<exists>n' d. tryGet E g (ns ! unat x) key pos =
       Some (Ok (plookup (ts ! unat x) (drop pos key), n', d)) \<and> unfolds E n' (ts ! unat x)"
    using list_all2_nthD [OF unfolds_full.IH, of "unat x"] child len wf_child [OF wf, of "unat x"] by auto
  then obtain n' d where n': "tryGet E g (ns ! unat x) key (pos + 1) =
      Some (Ok (plookup (ts ! unat x) r, n', d))" "unfolds E n' (ts ! unat x)"
    using child pos by metis
  have all: "list_all2 (unfolds E) ns ts" using unfolds_full.IH by (rule list_all2_mono) simp
  then have "list_all2 (unfolds E) (ns[unat x := n']) ts"
    using list_all2_update_cong [OF all n'(2), of "unat x"] by simp
  then show ?case
    using n' pos child len all xr by (auto simp: tryGet_full)
next
  case (unfolds_hash h enc n t)
  then obtain n' d where IH: "tryGet E g (setNodeflag (Some h) g n) key pos = Some (Ok (plookup t (drop pos key), n', d))"
      "unfolds E n' t"
    by blast
  then show ?case
    using tryGet_hash [OF resolveHash_unfolds [OF unfolds_hash.hyps(1-3)]] by auto
qed

subsection \<open>Inserting\<close>

lemma trie_insert_empty_key:
  "trie_insert E g n p [] (ValueNode w) =
     (case n of ValueNode v \<Rightarrow> Some (Ok (v \<noteq> w, ValueNode w)) | _ \<Rightarrow> Some (Ok (True, ValueNode w)))"
  by (subst trie_insert.simps) (simp split: node.split)

lemma trie_insert_nil:
  "trie_insert E g NilNode p k val = Some (Ok (True, if k = [] then val else ShortNode k val (newFlag g)))"
  by (subst trie_insert.simps) simp

lemma trie_insert_short_pre:
  assumes "prefixLen (k @ r) k = length k" "k @ r \<noteq> []"
  shows "trie_insert E g (ShortNode k n fl) p (k @ r) val =
    call (trie_insert E g n (p @ k) r val) (\<lambda>(d, nn).
      Some (Ok (if \<not> d then (False, ShortNode k n fl) else (True, ShortNode k nn (newFlag g)))))"
  using assms by (subst trie_insert.simps) auto

lemma trie_insert_short_part:
  assumes "prefixLen (c @ b # k') (c @ a # p') = length c" "unat a < 17" "unat b < 17"
  shows "trie_insert E g (ShortNode (c @ a # p') n fl) p (c @ b # k') val =
    Some (Ok (True,
      let br = FullNode ((replicate 17 NilNode)
                 [unat a := if p' = [] then n else ShortNode p' n (newFlag g),
                  unat b := if k' = [] then val else ShortNode k' val (newFlag g)]) (newFlag g)
      in if c = [] then br else ShortNode c br (newFlag g)))"
  using assms by (subst trie_insert.simps) (simp add: trie_insert_nil Let_def)

lemma trie_insert_full:
  assumes "unat x < length cs"
  shows "trie_insert E g (FullNode cs fl) p (x # r) val =
    call (trie_insert E g (cs ! unat x) (p @ [x]) r val) (\<lambda>(d, nn).
      Some (Ok (if \<not> d then (False, FullNode cs fl) else (True, FullNode (cs[unat x := nn]) (newFlag g)))))"
  using assms unfolding trie_insert.simps [of E g "FullNode cs fl"] nth_Cons_0 by simp

lemma trie_insert_hash:
  assumes "resolveHash E g h p = Ok rn" "key \<noteq> []"
  shows "trie_insert E g (HashNode h) p key val =
    call (trie_insert E g rn p key val) (\<lambda>(d, nn). Some (Ok (if \<not> d then (False, rn) else (True, nn))))"
  using assms by (subst trie_insert.simps) simp

lemma unfolds_leaf:
  "unfolds E n t \<Longrightarrow> unfolds E (if k = [] then n else ShortNode k n fl) (leaf k t)"
  by (simp add: leaf_def)

lemma unfolds_branch:
  assumes "unfolds E n t" "unfolds E m u"
  shows "unfolds E (FullNode ((replicate 17 NilNode)[i := n, j := m]) fl) (PFull ((replicate 17 PNil)[i := t, j := u]))"
  by (simp, intro list_all2_update_cong assms) (simp add: list_all2_conv_all_nth)

definition insert_ok :: "trie_env \<Rightarrow> u16 \<Rightarrow> node \<Rightarrow> ptrie \<Rightarrow> bytes \<Rightarrow> bytes \<Rightarrow> bytes \<Rightarrow> bool" where
  "insert_ok E g n t p k v \<longleftrightarrow>
     (\<exists>d n'. trie_insert E g n p k (ValueNode v) = Some (Ok (d, n')) \<and>
             unfolds E n' (pinsert t k (PVal v)) \<and> (\<not> d \<longrightarrow> pinsert t k (PVal v) = t))"

lemma insert_ok_empty_key:
  assumes "unfolds E n t" "fits t []"
  shows "insert_ok E g n t p [] v"
proof -
  have "t = PNil \<or> is_PVal t" using assms(2) by (simp add: fits_def)
  then show ?thesis
    using assms(1) by (cases t; cases n) (auto simp: insert_ok_def trie_insert_empty_key leaf_def elim: unfolds.cases)
qed

lemma trie_insert_refines:
  "unfolds E n t \<Longrightarrow> t = PNil \<or> wf_trie t \<Longrightarrow> fits t k \<Longrightarrow> insert_ok E g n t p k v"
proof (induction arbitrary: k p rule: unfolds.induct)
  case unfolds_nil
  then show ?case by (auto simp: insert_ok_def trie_insert_nil unfolds_leaf)
next
  case (unfolds_value w)
  then have "k = []" by (auto simp: fits_def split: if_splits)
  then show ?case using insert_ok_empty_key [of E "ValueNode w" "PVal w" g p v] unfolds_value by simp
next
  case (unfolds_short n t q fl)
  then have wf: "wf_trie (PShort q t)" by simp
  from unfolds_short.prems(2) have k: "hexkey k" by (auto simp: fits_def split: if_splits)
  show ?case
  proof (cases rule: prefixLen_cases [of k q])
    case (pre r)
    have "insert_ok E g n t (p @ q) r v"
      using unfolds_short.IH [of r] wf fits_PShort [OF wf] unfolds_short.prems(2) pre(1) by simp
    moreover have "k \<noteq> []" using k by auto
    ultimately show ?thesis
      using trie_insert_short_pre [OF pre(2) [unfolded pre(1)]] pinsert_PShort_pre [OF pre(2) [unfolded pre(1)]]
        unfolds_short.hyps
      unfolding insert_ok_def pre(1) by auto
  next
    case (short r)
    then show ?thesis using hexkey_not_proper_prefix [OF k, of r] short_path [OF wf] by (auto split: if_splits)
  next
    case (part c a p' b k')
    note facts = short_part [OF wf unfolds_short.prems(2) part(1,2)]
    have "unfolds E (let br = FullNode ((replicate 17 NilNode)
                 [unat a := if p' = [] then n else ShortNode p' n (newFlag g),
                  unat b := if k' = [] then ValueNode v else ShortNode k' (ValueNode v) (newFlag g)]) (newFlag g)
      in if c = [] then br else ShortNode c br (newFlag g))
      (leaf c (branch a (leaf p' t) b (leaf k' (PVal v))))"
      unfolding Let_def branch_def
      by (intro unfolds_leaf unfolds_branch unfolds_short.hyps unfolds_value)
    then show ?thesis
      using trie_insert_short_part [OF part(4) [unfolded part(1,2)]] facts
        pinsert_PShort_part [OF part(4) [unfolded part(1,2)]]
      unfolding insert_ok_def part(1,2) by (auto simp del: pinsert.simps)
  qed
next
  case (unfolds_full ns ts fl)
  then have wf: "wf_trie (PFull ts)" by simp
  then have len: "length ns = 17" "length ts = 17" using unfolds_full.IH by (auto dest: list_all2_lengthD)
  obtain x r where xr: "k = x # r" using unfolds_full.prems(2) by (cases k) (auto simp: fits_def)
  note child = fits_PFull [OF wf unfolds_full.prems(2) [unfolded xr]]
  have all: "list_all2 (unfolds E) ns ts" using unfolds_full.IH by (rule list_all2_mono) simp
  have "insert_ok E g (ns ! unat x) (ts ! unat x) (p @ [x]) r v"
    using list_all2_nthD [OF unfolds_full.IH, of "unat x"] child len wf_child [OF wf, of "unat x"] by auto
  then obtain d n' where n': "trie_insert E g (ns ! unat x) (p @ [x]) r (ValueNode v) = Some (Ok (d, n'))"
      "unfolds E n' (pinsert (ts ! unat x) r (PVal v))" "\<not> d \<Longrightarrow> pinsert (ts ! unat x) r (PVal v) = ts ! unat x"
    unfolding insert_ok_def by blast
  have "list_all2 (unfolds E) (ns[unat x := n']) (ts[unat x := pinsert (ts ! unat x) r (PVal v)])"
    using all n'(2) by (rule list_all2_update_cong)
  then show ?case
    unfolding insert_ok_def xr using n' child len all by (auto simp: trie_insert_full)
next
  case (unfolds_hash h enc n t)
  show ?case
  proof (cases "k = []")
    case True
    then show ?thesis using unfolds_hash.prems(2) unfolds_hash.hyps by (auto simp: fits_def)
  next
    case False
    have "insert_ok E g (setNodeflag (Some h) g n) t p k v" using unfolds_hash.IH unfolds_hash.prems by blast
    then show ?thesis
      using trie_insert_hash [OF resolveHash_unfolds [OF unfolds_hash.hyps(1-3)] False]
        unfolds_hash.hyps(7) [of "Some h" g]
      unfolding insert_ok_def by auto
  qed
qed

subsection \<open>Deleting\<close>

lemma trie_delete_nodes:
  "trie_delete E g NilNode p key = Some (Ok (False, NilNode))"
  "trie_delete E g (ValueNode v) p key = Some (Ok (True, NilNode))"
  by (simp_all add: trie_delete.simps)

lemma trie_delete_short:
  "trie_delete E g (ShortNode k n fl) p key =
     (if prefixLen key k < length k then Some (Ok (False, ShortNode k n fl))
      else if prefixLen key k = length key then Some (Ok (True, NilNode))
      else call (trie_delete E g n (p @ take (length k) key) (drop (length k) key)) (\<lambda>(d, child).
        Some (Ok (if \<not> d then (False, ShortNode k n fl)
                  else (case child of
                          ShortNode k2 v2 _ \<Rightarrow> (True, ShortNode (concat_bytes k k2) v2 (newFlag g))
                        | _ \<Rightarrow> (True, ShortNode k child (newFlag g)))))))"
  by (subst trie_delete.simps) (simp add: Let_def)

definition shrink :: "trie_env \<Rightarrow> u16 \<Rightarrow> bytes \<Rightarrow> node list \<Rightarrow> (trie_error, bool \<times> node) result option" where
  "shrink E g p cs =
     (let pos = single_child 0 (-1) cs; one = ShortNode [of_int pos] (cs ! nat pos) (newFlag g) in
      if pos \<ge> 0 then
        if pos \<noteq> 16 then
          (case resolve E g (cs ! nat pos) p of
             Ok cnode \<Rightarrow>
               (case cnode of
                  ShortNode k2 v2 _ \<Rightarrow> Some (Ok (True, ShortNode (of_int pos # k2) v2 (newFlag g)))
                | _ \<Rightarrow> Some (Ok (True, one)))
           | Err e \<Rightarrow> Some (Err e)
           | Panic \<Rightarrow> Some Panic)
        else Some (Ok (True, one))
      else Some (Ok (True, FullNode cs (newFlag g))))"

lemma trie_delete_full:
  assumes "unat x < length cs"
  shows "trie_delete E g (FullNode cs fl) p (x # r) =
    call (trie_delete E g (cs ! unat x) (p @ [x]) r) (\<lambda>(d, nn).
      if \<not> d then Some (Ok (False, FullNode cs fl)) else shrink E g p (cs[unat x := nn]))"
  using assms unfolding trie_delete.simps [of E g "FullNode cs fl"] nth_Cons_0 shrink_def Let_def by simp

lemma trie_delete_hash:
  assumes "resolveHash E g h p = Ok rn"
  shows "trie_delete E g (HashNode h) p key =
    call (trie_delete E g rn p key) (\<lambda>(d, nn). Some (Ok (if \<not> d then (False, rn) else (True, nn))))"
  using assms by (subst trie_delete.simps) simp

lemma single_child_live:
  "list_all2 (unfolds E) ns ts \<Longrightarrow>
     single_child i pos ns =
       (if pos = -1 then (case live i ts of [] \<Rightarrow> -1 | [j] \<Rightarrow> int j | _ \<Rightarrow> -2)
        else if live i ts = [] then pos else -2)"
proof (induction ns arbitrary: ts i pos)
  case (Cons n ns)
  then obtain t ts' where ts: "ts = t # ts'" "unfolds E n t" "list_all2 (unfolds E) ns ts'"
    by (auto simp: list_all2_Cons1)
  then have "n = NilNode \<longleftrightarrow> t = PNil" using unfolds_Nil_iff by auto
  then show ?case using Cons.IH [OF ts(3)] ts(1) by (auto split: list.splits)
qed simp

definition no_hash :: "node \<Rightarrow> bool" where
  "no_hash n \<longleftrightarrow> (\<forall>h. n \<noteq> HashNode h)"

lemma unfolds_PShort_cases:
  assumes "unfolds E n (PShort k t)" "no_hash n"
  obtains m fl where "n = ShortNode k m fl" "unfolds E m t"
  using assms by (cases rule: unfolds.cases) (auto simp: no_hash_def)

lemma resolve_unfolds:
  assumes "unfolds E n t"
  shows "\<exists>m. resolve E g n p = Ok m \<and> unfolds E m t \<and> no_hash m"
  using assms
proof cases
  case (unfolds_hash h enc m)
  then show ?thesis
    using resolveHash_unfolds [of E h enc m g p] setNodeflag_not_hash [of m "Some h" g]
    by (auto simp: resolve_def no_hash_def)
qed (auto simp: resolve_def no_hash_def)

lemma shrink_unfolds:
  assumes "list_all2 (unfolds E) ns ts" "length ts = 17" "ts ! 16 = PNil \<or> is_PVal (ts ! 16)"
  shows "\<exists>m. shrink E g p ns = Some (Ok (True, m)) \<and> unfolds E m (collapse ts) \<and> no_hash m"
proof (cases "\<exists>i. live 0 ts = [i]")
  case False
  then have "collapse ts = PFull ts" "single_child 0 (-1) ns < 0"
    using single_child_live [OF assms(1), of 0 "-1"] by (auto simp: collapse_def split: list.splits)
  then show ?thesis using assms by (simp add: shrink_def no_hash_def)
next
  case True
  then obtain i where i: "live 0 ts = [i]" by blast
  note one = live_single [OF i]
  have pos: "single_child 0 (-1) ns = int i" using single_child_live [OF assms(1), of 0 "-1"] i by simp
  have child: "unfolds E (ns ! i) (ts ! i)" using assms one by (auto dest: list_all2_nthD2)
  have coll: "collapse ts = prepend [of_nat i] (ts ! i)" by (simp add: collapse_def i)
  obtain m where m: "resolve E g (ns ! i) p = Ok m" "unfolds E m (ts ! i)" "no_hash m"
    using resolve_unfolds [OF child] by blast
  show ?thesis
  proof (cases "\<exists>k u. ts ! i = PShort k u")
    case True
    then obtain k u where u: "ts ! i = PShort k u" by blast
    then obtain n' fl where n': "m = ShortNode k n' fl" "unfolds E n' u"
      using m unfolds_PShort_cases by metis
    have "i \<noteq> 16" using assms(3) u by auto
    then show ?thesis using pos coll u n' m(1) by (simp add: shrink_def no_hash_def)
  next
    case False
    then have p: "prepend [of_nat i] (ts ! i) = PShort [of_nat i] (ts ! i)" by (cases "ts ! i") auto
    have "\<nexists>k n' fl. m = ShortNode k n' fl" using False m(2) by auto
    then have "shrink E g p ns = Some (Ok (True, ShortNode [of_nat i] (ns ! i) (newFlag g)))"
      using pos m(1) by (cases m) (auto simp: shrink_def Let_def)
    then show ?thesis using coll p child by (simp add: no_hash_def)
  qed
qed

definition delete_ok :: "trie_env \<Rightarrow> u16 \<Rightarrow> node \<Rightarrow> ptrie \<Rightarrow> bytes \<Rightarrow> bytes \<Rightarrow> bool" where
  "delete_ok E g n t p k \<longleftrightarrow>
     (\<exists>d n'. trie_delete E g n p k = Some (Ok (d, n')) \<and>
             unfolds E n' (pdelete t k) \<and> (if d then no_hash n' else pdelete t k = t))"

lemma unfolds_prepend:
  assumes "unfolds E n t" "no_hash n"
  shows "unfolds E (case n of ShortNode k2 v2 _ \<Rightarrow> ShortNode (concat_bytes k k2) v2 fl | _ \<Rightarrow> ShortNode k n fl)
    (prepend k t)"
  using assms by (cases n; cases t) (auto simp: concat_bytes_def no_hash_def)

lemma prefixLen_take: "take (length q) k = q \<Longrightarrow> prefixLen k q = length q"
proof (rule ccontr)
  assume q: "take (length q) k = q" and ne: "prefixLen k q \<noteq> length q"
  define m where "m = prefixLen k q"
  have m: "m < length q" "m < length k"
    using prefixLen_props [of k q] ne arg_cong [OF q, of length] by (auto simp: m_def)
  then have "k ! m = q ! m" using arg_cong [OF q, of "\<lambda>l. l ! m"] by simp
  then show False using prefixLen_props [of k q] m by (simp flip: m_def)
qed

lemma trie_delete_refines:
  "unfolds E n t \<Longrightarrow> t = PNil \<or> wf_trie t \<Longrightarrow> fits t k \<Longrightarrow> delete_ok E g n t p k"
proof (induction arbitrary: k p rule: unfolds.induct)
  case (unfolds_short n t q fl)
  then have wf: "wf_trie (PShort q t)" by simp
  show ?case
  proof (cases "take (length q) k = q")
    case False
    then have "prefixLen k q < length q"
      using prefixLen_props [of k q] by (metis le_neq_implies_less take_all order_refl)
    then show ?thesis using False unfolds_short.hyps by (auto simp: delete_ok_def trie_delete_short no_hash_def)
  next
    case True
    note len = prefixLen_take [OF True]
    define r where "r = drop (length q) k"
    have k: "k = q @ r" using prefix_split [OF True] by (simp add: r_def)
    have fit: "fits t r" using fits_PShort [OF wf] unfolds_short.prems(2) k by simp
    show ?thesis
    proof (cases "r = []")
      case r: True
      then have "k = q" using k by simp
      then show ?thesis using len by (auto simp: delete_ok_def trie_delete_short no_hash_def)
    next
      case r: False
      then obtain ts where t: "t = PFull ts" using wf fit by (cases t) (auto simp: fits_def)
      have "delete_ok E g n t (p @ q) r" using unfolds_short.IH [of r] wf fit by simp
      then obtain d n' where n': "trie_delete E g n (p @ q) r = Some (Ok (d, n'))"
          "unfolds E n' (pdelete t r)" "if d then no_hash n' else pdelete t r = t"
        unfolding delete_ok_def by blast
      have del: "pdelete (PShort q t) k = prepend q (pdelete t r)" using r k by simp
      have step: "trie_delete E g (ShortNode q n fl) p k =
          Some (Ok (if \<not> d then (False, ShortNode q n fl)
            else (True, case n' of ShortNode k2 v2 _ \<Rightarrow> ShortNode (concat_bytes q k2) v2 (newFlag g)
                        | _ \<Rightarrow> ShortNode q n' (newFlag g))))"
        using len n'(1) r k by (auto simp: trie_delete_short split: node.split)
      show ?thesis
      proof (cases d)
        case True
        then show ?thesis
          using step n' unfolds_prepend [of E n' "pdelete t r" q "newFlag g"]
          unfolding delete_ok_def del by (auto simp: no_hash_def split: node.splits)
      next
        case False
        then have "prepend q (pdelete t r) = PShort q t" using n'(3) t by simp
        then show ?thesis using step unfolds_short.hyps False unfolding delete_ok_def del by auto
      qed
    qed
  qed
next
  case (unfolds_full ns ts fl)
  then have wf: "wf_trie (PFull ts)" by simp
  then have len: "length ns = 17" "length ts = 17" using unfolds_full.IH by (auto dest: list_all2_lengthD)
  obtain x r where xr: "k = x # r" using unfolds_full.prems(2) by (cases k) (auto simp: fits_def)
  note child = fits_PFull [OF wf unfolds_full.prems(2) [unfolded xr]]
  have all: "list_all2 (unfolds E) ns ts" using unfolds_full.IH by (rule list_all2_mono) simp
  have "delete_ok E g (ns ! unat x) (ts ! unat x) (p @ [x]) r"
    using list_all2_nthD [OF unfolds_full.IH, of "unat x"] child len wf_child [OF wf, of "unat x"] by auto
  then obtain d n' where n': "trie_delete E g (ns ! unat x) (p @ [x]) r = Some (Ok (d, n'))"
      "unfolds E n' (pdelete (ts ! unat x) r)" "\<not> d \<Longrightarrow> pdelete (ts ! unat x) r = ts ! unat x"
    unfolding delete_ok_def by (auto split: if_splits)
  define ts' where "ts' = ts[unat x := pdelete (ts ! unat x) r]"
  have del: "pdelete (PFull ts) k = collapse ts'" using child len by (simp add: xr ts'_def)
  have all': "list_all2 (unfolds E) (ns[unat x := n']) ts'"
    unfolding ts'_def using all n'(2) by (rule list_all2_update_cong)
  show ?case
  proof (cases d)
    case True
    have "ts' ! 16 = PNil \<or> is_PVal (ts' ! 16)"
    proof (cases "unat x = 16")
      case True
      then have "r = []" using unfolds_full.prems(2) hexkey_hd [of x r] by (auto simp: xr fits_def split: if_splits)
      then show ?thesis using True child len by (cases "ts ! 16") (auto simp: fits_def ts'_def)
    next
      case False
      moreover have "ts ! 16 = PNil \<or> is_PVal (ts ! 16)" using wf by (auto dest!: spec [of _ 16])
      ultimately show ?thesis by (simp add: ts'_def)
    qed
    then obtain m where "shrink E g p (ns[unat x := n']) = Some (Ok (True, m))" "unfolds E m (collapse ts')" "no_hash m"
      using shrink_unfolds [OF all'] len by (auto simp: ts'_def)
    then show ?thesis
      unfolding delete_ok_def del using True n'(1) child len by (auto simp: xr trie_delete_full)
  next
    case False
    then have "ts' = ts" using n'(3) by (simp add: ts'_def)
    moreover have "collapse ts = PFull ts" using wf by (auto simp: collapse_def split: list.splits)
    ultimately show ?thesis
      unfolding delete_ok_def del using False n'(1) child len all by (auto simp: xr trie_delete_full)
  qed
next
  case (unfolds_hash h enc n t)
  have "delete_ok E g (setNodeflag (Some h) g n) t p k" using unfolds_hash.IH unfolds_hash.prems by blast
  then show ?case
    using trie_delete_hash [OF resolveHash_unfolds [OF unfolds_hash.hyps(1-3)]]
      unfolds_hash.hyps(7) [of "Some h" g]
    unfolding delete_ok_def by (auto split: if_splits)
qed (auto simp: delete_ok_def trie_delete_nodes no_hash_def fits_def split: if_splits)

subsection \<open>The trie as a map\<close>

text \<open>
  A trie over a database holds a map: its root unfolds to a well-formed trie with the entries of the
  map, under the hex form of the keys, and nothing else.
\<close>

definition holds_at :: "ptrie \<Rightarrow> (bytes \<rightharpoonup> bytes) \<Rightarrow> bool" where
  "holds_at t m \<longleftrightarrow> wf_root t \<and> (\<forall>k. plookup t (keybytesToHex k) = m k) \<and>
     (\<forall>q. plookup t q \<noteq> None \<longrightarrow> (\<exists>k. q = keybytesToHex k))"

definition holds :: "trie_env \<Rightarrow> trie \<Rightarrow> (bytes \<rightharpoonup> bytes) \<Rightarrow> bool" where
  "holds E T m \<longleftrightarrow> (\<exists>t. unfolds E (trie_root T) t \<and> holds_at t m)"

lemma keybytesToHex_inj: "keybytesToHex j = keybytesToHex k \<longleftrightarrow> j = k"
  by (metis pack_keybytesToHex)

lemma fits_root: "wf_root t \<Longrightarrow> fits t (keybytesToHex k)"
  using keybytesToHex_hexkey by (auto simp: fits_def wf_root_def)

lemma holds_at_pinsert:
  assumes "holds_at t m" "v \<noteq> []"
  shows "holds_at (pinsert t (keybytesToHex k) (PVal v)) (m(k \<mapsto> v))"
proof -
  have wf: "wf_root t" using assms(1) by (simp add: holds_at_def)
  have "plookup (pinsert t (keybytesToHex k) (PVal v)) q =
      (if q = keybytesToHex k then Some v else plookup t q)" for q
    using wf fits_root [OF wf] by (intro plookup_pinsert) (auto simp: wf_root_def)
  moreover have "wf_root (pinsert t (keybytesToHex k) (PVal v))"
    using wf pinsert_wf [OF _ fits_root [OF wf] assms(2), of k] by (auto simp: wf_root_def)
  ultimately show ?thesis using assms(1) by (auto simp: holds_at_def keybytesToHex_inj)
qed

lemma holds_at_pdelete:
  assumes "holds_at t m"
  shows "holds_at (pdelete t (keybytesToHex k)) (m(k := None))"
proof -
  have wf: "wf_root t" using assms(1) by (simp add: holds_at_def)
  have "plookup (pdelete t (keybytesToHex k)) q = (if q = keybytesToHex k then None else plookup t q)" for q
    using wf fits_root [OF wf] by (intro plookup_pdelete) (auto simp: wf_root_def)
  moreover have "wf_root (pdelete t (keybytesToHex k))"
    using wf pdelete_wf [OF _ fits_root [OF wf], of k] by (auto simp: wf_root_def)
  ultimately show ?thesis using assms(1) by (auto simp: holds_at_def keybytesToHex_inj)
qed

lemma TryGet_holds:
  assumes "holds E T m"
  shows "\<exists>T'. TryGet E T k = Some (Ok (m k, T')) \<and> holds E T' m"
proof -
  obtain t where t: "unfolds E (trie_root T) t" "holds_at t m" using assms by (auto simp: holds_def)
  then have wf: "wf_root t" by (simp add: holds_at_def)
  obtain n d where "tryGet E (trie_cachegen T) (trie_root T) (keybytesToHex k) 0 =
      Some (Ok (plookup t (keybytesToHex k), n, d))" "unfolds E n t"
    using tryGet_refines [OF t(1), of 0 "keybytesToHex k" "trie_cachegen T"] wf fits_root [OF wf]
    by (auto simp: wf_root_def)
  then show ?thesis using t unfolding TryGet_def holds_def by (auto simp: holds_at_def)
qed

lemma TryDelete_holds:
  assumes "holds E T m"
  shows "\<exists>T'. TryDelete E T k = Some (Ok T') \<and> holds E T' (m(k := None))"
proof -
  obtain t where t: "unfolds E (trie_root T) t" "holds_at t m" using assms by (auto simp: holds_def)
  then have wf: "wf_root t" by (simp add: holds_at_def)
  have "delete_ok E (trie_cachegen T) (trie_root T) t [] (keybytesToHex k)"
    using t(1) wf fits_root [OF wf] by (intro trie_delete_refines) (auto simp: wf_root_def)
  then show ?thesis
    unfolding delete_ok_def TryDelete_def holds_def using holds_at_pdelete [OF t(2), of k] by auto
qed

lemma TryUpdate_holds:
  assumes "holds E T m"
  shows "\<exists>T'. TryUpdate E T k v = Some (Ok T') \<and> holds E T' (m(k := if v = [] then None else Some v))"
proof (cases "v = []")
  case True
  then show ?thesis using TryDelete_holds [OF assms, of k] by (simp add: TryUpdate_def TryDelete_def)
next
  case False
  obtain t where t: "unfolds E (trie_root T) t" "holds_at t m" using assms by (auto simp: holds_def)
  then have wf: "wf_root t" by (simp add: holds_at_def)
  have "insert_ok E (trie_cachegen T) (trie_root T) t [] (keybytesToHex k) v"
    using t(1) wf fits_root [OF wf] by (intro trie_insert_refines) (auto simp: wf_root_def)
  then show ?thesis
    unfolding insert_ok_def TryUpdate_def holds_def using False holds_at_pinsert [OF t(2) False, of k] by auto
qed

lemma holds_at_unique: "holds_at t m \<Longrightarrow> holds_at t' m \<Longrightarrow> t = t'"
proof (rule ptrie_ext)
  assume "holds_at t m" "holds_at t' m"
  then show "plookup t q = plookup t' q" for q
    unfolding holds_at_def by (metis option.collapse)
qed (auto simp: holds_at_def wf_root_def)

subsection \<open>Stores that behave like maps\<close>

text \<open>
  The contract of a key-value store: reads return what the map holds, an update changes the map at
  its key and nowhere else, and no operation fails or diverges.
\<close>

text \<open>A sequence of updates, stopped by the first that does not succeed.\<close>

fun run_updates ::
  "('s \<Rightarrow> bytes \<Rightarrow> bytes \<Rightarrow> ('e, 's) result option) \<Rightarrow> 's \<Rightarrow> (bytes \<times> bytes) list \<Rightarrow> ('e, 's) result option"
where
  "run_updates upd s [] = Some (Ok s)"
| "run_updates upd s ((k, v) # ops) = call (upd s k v) (\<lambda>s'. run_updates upd s' ops)"

fun apply_updates :: "(bytes \<rightharpoonup> bytes) \<Rightarrow> (bytes \<times> bytes) list \<Rightarrow> (bytes \<rightharpoonup> bytes)" where
  "apply_updates m [] = m"
| "apply_updates m ((k, v) # ops) = apply_updates (m(k := if v = [] then None else Some v)) ops"

locale map_store =
  fixes models :: "'s \<Rightarrow> (bytes \<rightharpoonup> bytes) \<Rightarrow> bool"
    and get :: "'s \<Rightarrow> bytes \<Rightarrow> ('e, bytes option \<times> 's) result option"
    and upd :: "'s \<Rightarrow> bytes \<Rightarrow> bytes \<Rightarrow> ('e, 's) result option"
    and del :: "'s \<Rightarrow> bytes \<Rightarrow> ('e, 's) result option"
  assumes get_models: "models s m \<Longrightarrow> \<exists>s'. get s k = Some (Ok (m k, s')) \<and> models s' m"
    and upd_models: "models s m \<Longrightarrow>
      \<exists>s'. upd s k v = Some (Ok s') \<and> models s' (m(k := if v = [] then None else Some v))"
    and del_models: "models s m \<Longrightarrow> \<exists>s'. del s k = Some (Ok s') \<and> models s' (m(k := None))"
begin

lemma run_models:
  "models s m \<Longrightarrow> \<exists>s'. run_updates upd s ops = Some (Ok s') \<and> models s' (apply_updates m ops)"
proof (induction ops arbitrary: s m)
  case (Cons op ops)
  obtain k v where op: "op = (k, v)" by fastforce
  obtain s' where s': "upd s k v = Some (Ok s')" "models s' (m(k := if v = [] then None else Some v))"
    using upd_models [OF Cons.prems] by blast
  have "run_updates upd s (op # ops) = run_updates upd s' ops" by (simp add: op s'(1))
  moreover have "apply_updates m (op # ops) = apply_updates (m(k := if v = [] then None else Some v)) ops"
    unfolding op by (rule apply_updates.simps)
  ultimately show ?case using Cons.IH [OF s'(2)] by (simp only:)
qed simp

lemma get_after_run:
  assumes "models s m"
  shows "\<exists>s' s''. run_updates upd s ops = Some (Ok s') \<and> get s' k = Some (Ok (apply_updates m ops k, s''))"
proof -
  obtain s' where s': "run_updates upd s ops = Some (Ok s')" "models s' (apply_updates m ops)"
    using run_models [OF assms] by blast
  obtain s'' where "get s' k = Some (Ok (apply_updates m ops k, s''))"
    using get_models [OF s'(2)] by blast
  then show ?thesis using s'(1) by blast
qed

lemma get_after_delete:
  assumes "models s m"
  shows "\<exists>s' s''. del s j = Some (Ok s') \<and> get s' k = Some (Ok (if k = j then None else m k, s''))"
proof -
  obtain s' where s': "del s j = Some (Ok s')" "models s' (m(j := None))"
    using del_models [OF assms] by blast
  obtain s'' where "get s' k = Some (Ok ((m(j := None)) k, s''))"
    using get_models [OF s'(2)] by blast
  then show ?thesis using s'(1) by auto
qed

end

interpretation trie_map: map_store "holds E" "TryGet E" "TryUpdate E" "TryDelete E" for E
  by unfold_locales (rule TryGet_holds TryUpdate_holds TryDelete_holds; assumption)+

subsection \<open>Properties\<close>

text \<open>
  C2. A trie behaves as a map, whatever part of it has been loaded: from a trie that holds \<open>m\<close>, every
  sequence of \<^verbatim>\<open>TryUpdate\<close> calls, where an empty value deletes, returns without error, and a \<^verbatim>\<open>TryGet\<close>
  afterwards returns what the sequence makes of \<open>m\<close> at that key.
\<close>

theorem trie_updates_then_get:
  assumes "holds E T m"
  shows "\<exists>T' T''. run_updates (TryUpdate E) T ops = Some (Ok T') \<and>
    TryGet E T' k = Some (Ok (apply_updates m ops k, T''))"
  using assms by (rule trie_map.get_after_run)

definition empty_trie :: trie where
  "empty_trie = \<lparr>trie_root = NilNode, originalRoot = emptyRoot, trie_cachegen = 0, trie_cachelimit = 0\<rparr>"

lemma holds_empty: "trie_root T = NilNode \<Longrightarrow> holds E T Map.empty"
  by (auto simp: holds_def holds_at_def wf_root_def)

theorem trie_updates_then_get_witness:
  "\<exists>T' T''. run_updates (TryUpdate \<lparr>db_get = \<lambda>_. None, decode_msg = \<lambda>_. None\<rparr>) empty_trie
       [([1, 2], [7]), ([1, 3], [8]), ([1, 2], [])] = Some (Ok T') \<and>
     TryGet \<lparr>db_get = \<lambda>_. None, decode_msg = \<lambda>_. None\<rparr> T' [1, 3] = Some (Ok (Some [8], T''))"
  using trie_updates_then_get [OF holds_empty, of empty_trie "\<lparr>db_get = \<lambda>_. None, decode_msg = \<lambda>_. None\<rparr>"
      "[([1, 2], [7]), ([1, 3], [8]), ([1, 2], [])]" "[1, 3]"]
  by (simp add: empty_trie_def)

text \<open>
  C11. \<^verbatim>\<open>TryDelete\<close> removes its key and no other: it returns without error, and a \<^verbatim>\<open>TryGet\<close> afterwards
  returns nothing for the key and what the trie held before for the others.
\<close>

theorem trie_delete_then_get:
  assumes "holds E T m"
  shows "\<exists>T' T''. TryDelete E T j = Some (Ok T') \<and>
    TryGet E T' k = Some (Ok (if k = j then None else m k, T''))"
  using assms by (rule trie_map.get_after_delete)

theorem trie_delete_then_get_witness:
  "\<exists>T' T''. TryDelete \<lparr>db_get = \<lambda>_. None, decode_msg = \<lambda>_. None\<rparr> empty_trie [1, 2] = Some (Ok T') \<and>
     TryGet \<lparr>db_get = \<lambda>_. None, decode_msg = \<lambda>_. None\<rparr> T' [1, 3] = Some (Ok (None, T''))"
  using trie_delete_then_get [OF holds_empty, of empty_trie "\<lparr>db_get = \<lambda>_. None, decode_msg = \<lambda>_. None\<rparr>"
      "[1, 2]" "[1, 3]"]
  by (simp add: empty_trie_def)



end
