(* ===== verification/Transaction.thy ===== *)
theory Transaction
  imports HexTypes
begin

text \<open>
  Transactions and their signatures: \<^verbatim>\<open>core/transaction/transaction.go\<close>, \<^verbatim>\<open>transaction_signing.go\<close>, the
  signature check of \<^verbatim>\<open>utils/crypto/crypto.go\<close> and the binary form of \<^verbatim>\<open>common/types/bigint.go\<close>. The
  msgpack hashes, Keccak-256 and the curve (\<^verbatim>\<open>Ecrecover\<close>, \<^verbatim>\<open>Sign\<close>) are the functions of a \<open>crypto_env\<close>. An
  operation that writes a cache of the transaction, or its actions, returns the new transaction.
  The msgpack encoder can fail (\<open>None\<close>). A priority is a pointer, nil (\<open>None\<close>) until it is set. The actions
  of a transaction are not shared with other transactions.

  Shown: signing and recovering are inverse for every positive chain id, signatures are bound to
  their chain, only canonical signature values are accepted, and for chain id zero no signature is.
\<close>

subsection \<open>Data\<close>

record action =
  act_Address :: "address option"
  act_Params :: bytes

record txdata =
  AccountNonce :: u64
  Actions :: "action list"
  sigV :: int
  sigR :: int
  sigS :: int

record MSigner =
  chainId :: int
  chainIdMul :: int

record transaction =
  Data :: txdata
  Priority :: "int option"
  hash_cache :: "hash option"
  from_cache :: "(MSigner \<times> address) option"

datatype sig_error =
    ErrInvalidChainId | ErrInvalidSig | ErrSigSize nat | ErrCurve string | ErrInvalidPubkey

text \<open>
  \<^verbatim>\<open>MsgpHash\<close> of a transaction and of the signed fields, \<^verbatim>\<open>Ecrecover\<close>, \<^verbatim>\<open>Sign\<close> with a private key, \<^verbatim>\<open>Keccak256\<close>.
\<close>

record 'key crypto_env =
  msgp_tx :: "txdata \<Rightarrow> hash option"
  msgp_signed :: "u64 \<Rightarrow> action list \<Rightarrow> int \<Rightarrow> hash option"
  Ecrecover :: "hash \<Rightarrow> bytes \<Rightarrow> (string, bytes) result"
  curve_Sign :: "hash \<Rightarrow> 'key \<Rightarrow> (string, bytes) result"
  Keccak256 :: "bytes \<Rightarrow> bytes"

definition MakeAction :: "address \<Rightarrow> bytes \<Rightarrow> action" where
  "MakeAction addr params = \<lparr>act_Address = Some addr, act_Params = params\<rparr>"

definition newTransaction :: "u64 \<Rightarrow> action list \<Rightarrow> transaction" where
  "newTransaction nonce actions =
     \<lparr>Data = \<lparr>AccountNonce = nonce, Actions = actions, sigV = 0, sigR = 0, sigS = 0\<rparr>,
      Priority = None, hash_cache = None, from_cache = None\<rparr>"

abbreviation tx_Nonce :: "transaction \<Rightarrow> u64" where
  "tx_Nonce tx \<equiv> AccountNonce (Data tx)"

definition tx_Hash :: "'key crypto_env \<Rightarrow> transaction \<Rightarrow> hash \<times> transaction" where
  "tx_Hash C tx =
     (case hash_cache tx of
        Some h \<Rightarrow> (h, tx)
      | None \<Rightarrow>
          (case msgp_tx C (Data tx) of
             None \<Rightarrow> (replicate HashLength 0, tx)
           | Some v \<Rightarrow> (v, tx\<lparr>hash_cache := Some v\<rparr>)))"

text \<open>\<^verbatim>\<open>big.Int.Int64\<close>, \<^verbatim>\<open>big.Int.Uint64\<close>: the low 64 bits.\<close>

definition big_Int64 :: "int \<Rightarrow> int" where
  "big_Int64 x = sint (of_int x :: u64)"

definition big_Uint64 :: "int \<Rightarrow> u64" where
  "big_Uint64 x = of_int \<bar>x\<bar>"

definition GetPriority :: "transaction \<Rightarrow> (unit, int) result" where
  "GetPriority tx = (case Priority tx of None \<Rightarrow> Panic | Some p \<Rightarrow> Ok (big_Int64 p))"

definition SetPriority :: "transaction \<Rightarrow> int \<Rightarrow> transaction" where
  "SetPriority tx priority = tx\<lparr>Priority := Some priority\<rparr>"

subsection \<open>Chain ids\<close>

definition deriveChainId :: "int \<Rightarrow> int" where
  "deriveChainId v =
     (if BitLen v \<le> 64
      then let w = big_Uint64 v in
        if w = 27 \<or> w = 28 then 0 else uint ((w - 35) div 2)
      else (v - 35) div 2)"

definition isProtectedV :: "int \<Rightarrow> bool" where
  "isProtectedV V =
     (if BitLen V \<le> 8 then let v = big_Uint64 V in v \<noteq> 27 \<and> v \<noteq> 28 else True)"

definition tx_ChainId :: "transaction \<Rightarrow> int" where
  "tx_ChainId tx = deriveChainId (sigV (Data tx))"

definition tx_Protected :: "transaction \<Rightarrow> bool" where
  "tx_Protected tx = isProtectedV (sigV (Data tx))"

subsection \<open>Signature values\<close>

definition secp256k1_N :: int where
  "secp256k1_N = 0xfffffffffffffffffffffffffffffffebaaedce6af48a03bbfd25e8cd0364141"

definition secp256k1_halfN :: int where
  "secp256k1_halfN = secp256k1_N div 2"

definition ValidateSignatureValues :: "byte \<Rightarrow> int \<Rightarrow> int \<Rightarrow> bool \<Rightarrow> bool" where
  "ValidateSignatureValues v r s homestead =
     (if r < 1 \<or> s < 1 then False
      else if homestead \<and> s > secp256k1_halfN then False
      else r < secp256k1_N \<and> s < secp256k1_N \<and> (v = 0 \<or> v = 1))"

text \<open>The check of \<^verbatim>\<open>Transaction.UnmarshalJSON\<close> on the decoded fields.\<close>

definition UnmarshalJSON_check :: "txdata \<Rightarrow> (sig_error, transaction) result" where
  "UnmarshalJSON_check dec =
     (let V = (if isProtectedV (sigV dec)
               then ucast (big_Uint64 (sigV dec) - 35 - 2 * big_Uint64 (deriveChainId (sigV dec)))
               else ucast (big_Uint64 (sigV dec) - 27) :: byte)
      in if \<not> ValidateSignatureValues V (sigR dec) (sigS dec) False then Err ErrInvalidSig
         else Ok \<lparr>Data = dec, Priority = None, hash_cache = None, from_cache = None\<rparr>)"

subsection \<open>The signer\<close>

definition NewMSigner :: "int option \<Rightarrow> MSigner" where
  "NewMSigner cid = (let c = (case cid of None \<Rightarrow> 0 | Some i \<Rightarrow> i) in \<lparr>chainId = c, chainIdMul = c * 2\<rparr>)"

definition deriveSigner :: "int \<Rightarrow> MSigner" where
  "deriveSigner v = NewMSigner (Some (deriveChainId v))"

definition MSigner_Equal :: "MSigner \<Rightarrow> MSigner \<Rightarrow> bool" where
  "MSigner_Equal s s2 \<longleftrightarrow> chainId s2 = chainId s"

definition fill_address :: "action \<Rightarrow> action" where
  "fill_address act =
     (if act_Address act = None then act\<lparr>act_Address := Some (replicate AddressLength 0)\<rparr> else act)"

definition MSigner_Hash ::
  "'key crypto_env \<Rightarrow> MSigner \<Rightarrow> transaction \<Rightarrow> (sig_error, hash) result \<times> transaction" where
  "MSigner_Hash C s tx =
     (let d = (Data tx)\<lparr>Actions := map fill_address (Actions (Data tx))\<rparr>
      in (case msgp_signed C (AccountNonce d) (Actions d) (chainId s) of None \<Rightarrow> Panic | Some h \<Rightarrow> Ok h,
          tx\<lparr>Data := d\<rparr>))"

definition SignatureValues :: "MSigner \<Rightarrow> bytes \<Rightarrow> (sig_error, int \<times> int \<times> int) result" where
  "SignatureValues s sig =
     (if length sig \<noteq> 65 then Err (ErrSigSize (length sig))
      else let R = big_SetBytes (take 32 sig);
               S = big_SetBytes (take 32 (drop 32 sig));
               V = (if chainId s \<noteq> 0 then uint (sig ! 64 + 35) + chainIdMul s
                    else big_SetBytes [sig ! 64 + 27])
           in Ok (R, S, V))"

definition WithSignature :: "MSigner \<Rightarrow> transaction \<Rightarrow> bytes \<Rightarrow> (sig_error, transaction) result" where
  "WithSignature signer tx sig =
     bind_result (SignatureValues signer sig) (\<lambda>(r, s, v).
       Ok \<lparr>Data = (Data tx)\<lparr>sigR := r, sigS := s, sigV := v\<rparr>, Priority = None,
           hash_cache = None, from_cache = None\<rparr>)"

definition recoverPlain :: "'key crypto_env \<Rightarrow> hash \<Rightarrow> int \<Rightarrow> int \<Rightarrow> int \<Rightarrow> bool \<Rightarrow> (sig_error, address) result" where
  "recoverPlain C sighash R S Vb homestead =
     (if BitLen Vb > 8 then Err ErrInvalidSig
      else let V = ucast (big_Uint64 Vb - 27) :: byte in
        if \<not> ValidateSignatureValues V R S homestead then Err ErrInvalidSig
        else let r = big_Bytes R; s = big_Bytes S in
          if length r > 32 \<or> length s > 32 then Panic
          else let sig = replicate (32 - length r) 0 @ r @ replicate (32 - length s) 0 @ s @ [V] in
            case Ecrecover C sighash sig of
              Err e \<Rightarrow> Err (ErrCurve e)
            | Panic \<Rightarrow> Panic
            | Ok pub \<Rightarrow>
                if length pub = 0 \<or> pub ! 0 \<noteq> 4 then Err ErrInvalidPubkey
                else let k = Keccak256 C (drop 1 pub) in
                  if length k < 12 then Panic else Ok (go_copy (replicate AddressLength 0) (drop 12 k)))"

definition MSigner_Sender ::
  "'key crypto_env \<Rightarrow> MSigner \<Rightarrow> transaction \<Rightarrow> (sig_error, address) result \<times> transaction" where
  "MSigner_Sender C s tx =
     (if tx_ChainId tx \<noteq> chainId s then (Err ErrInvalidChainId, tx)
      else let V = sigV (Data tx) - chainIdMul s - 8; (h, tx') = MSigner_Hash C s tx
           in (bind_result h (\<lambda>h. recoverPlain C h (sigR (Data tx)) (sigS (Data tx)) V True), tx'))"

definition Sender ::
  "'key crypto_env \<Rightarrow> MSigner \<Rightarrow> transaction \<Rightarrow> (sig_error, address) result \<times> transaction" where
  "Sender C signer tx =
     (case from_cache tx of
        Some (cached, from) \<Rightarrow>
          if MSigner_Equal cached signer then (Ok from, tx)
          else (let (r, tx') = MSigner_Sender C signer tx in
                (r, case r of Ok addr \<Rightarrow> tx'\<lparr>from_cache := Some (signer, addr)\<rparr> | _ \<Rightarrow> tx'))
      | None \<Rightarrow>
          (let (r, tx') = MSigner_Sender C signer tx in
           (r, case r of Ok addr \<Rightarrow> tx'\<lparr>from_cache := Some (signer, addr)\<rparr> | _ \<Rightarrow> tx')))"

definition SignTx ::
  "'key crypto_env \<Rightarrow> transaction \<Rightarrow> MSigner \<Rightarrow> 'key \<Rightarrow> (sig_error, transaction) result \<times> transaction" where
  "SignTx C tx s prv =
     (let (h, tx') = MSigner_Hash C s tx in
      (bind_result h (\<lambda>h.
         case curve_Sign C h prv of
           Err e \<Rightarrow> Err (ErrCurve e)
         | Panic \<Rightarrow> Panic
         | Ok sig \<Rightarrow> WithSignature s tx' sig),
       tx'))"

subsection \<open>Messages and sets of transactions\<close>

record message =
  msg_from :: address
  msg_nonce :: u64
  msg_actions :: "action list"
  msg_checkNonce :: bool

definition NewMessage :: "address \<Rightarrow> u64 \<Rightarrow> action list \<Rightarrow> bool \<Rightarrow> message" where
  "NewMessage from nonce actions checkNonce =
     \<lparr>msg_from = from, msg_nonce = nonce, msg_actions = actions, msg_checkNonce = checkNonce\<rparr>"

definition AsMessage ::
  "'key crypto_env \<Rightarrow> transaction \<Rightarrow> MSigner \<Rightarrow> (sig_error, message) result \<times> transaction" where
  "AsMessage C tx s =
     (let (r, tx') = Sender C s tx in
      (bind_result r (\<lambda>from. Ok (NewMessage from (tx_Nonce tx) (Actions (Data tx)) True)), tx'))"

definition TxDifference :: "(transaction \<Rightarrow> hash) \<Rightarrow> transaction list \<Rightarrow> transaction list \<Rightarrow> transaction list" where
  "TxDifference H a b = filter (\<lambda>tx. H tx \<notin> H ` set b) a"

subsection \<open>Binary form of big integers\<close>

definition bigToBytes :: "int \<Rightarrow> bytes" where
  "bigToBytes v = of_int (sgn v) # big_Bytes v"

text \<open>The argument is an interface value: \<open>None\<close> when it is nil or not a byte slice.\<close>

definition bigFromBytes :: "bytes option \<Rightarrow> (unit, int) result" where
  "bigFromBytes b =
     (case b of
        None \<Rightarrow> Ok 0
      | Some buf \<Rightarrow>
          if buf = [] then Panic
          else let v = big_SetBytes (drop 1 buf) in Ok (if buf ! 0 = 255 then - v else v))"

definition BigInt_Len :: nat where
  "BigInt_Len = 10"

definition BigInt_MarshalBinaryTo :: "int \<Rightarrow> bytes \<Rightarrow> (unit, bytes) result" where
  "BigInt_MarshalBinaryTo v b =
     (if b = [] then Panic else Ok (of_int (sgn v) # go_copy (drop 1 b) (big_Bytes v)))"

definition BigInt_UnmarshalBinary :: "bytes \<Rightarrow> (unit, int) result" where
  "BigInt_UnmarshalBinary b =
     (if b = [] then Panic
      else let v = big_SetBytes (drop 1 b) in Ok (if b ! 0 = 255 then - v else v))"

section \<open>Theorems\<close>

subsection \<open>Bytes of big integers\<close>

lemma big_Bytes_bound: "nat \<bar>x\<bar> < 256 ^ ((BitLen x + 7) div 8)"
proof -
  have "nat \<bar>x\<bar> < 2 ^ bit_len (nat \<bar>x\<bar>)" using bit_len_bounds by blast
  also have "\<dots> \<le> 2 ^ (8 * ((BitLen x + 7) div 8))"
    unfolding BitLen_def by (rule power_increasing) auto
  finally show ?thesis by (simp add: power_mult)
qed

lemma big_SetBytes_big_Bytes [simp]: "big_SetBytes (big_Bytes x) = \<bar>x\<bar>"
  using big_Bytes_bound [of x] by (simp add: big_Bytes_def big_SetBytes_rev)

lemma length_big_Bytes [simp]: "length (big_Bytes x) = (BitLen x + 7) div 8"
  by (simp add: big_Bytes_def)

lemma padded_big_Bytes:
  assumes "length (big_Bytes x) \<le> k"
  shows "replicate (k - length (big_Bytes x)) 0 @ big_Bytes x = rev (le_bytes k (nat \<bar>x\<bar>))"
proof -
  let ?j = "(BitLen x + 7) div 8"
  have "le_bytes k (nat \<bar>x\<bar>) = le_bytes ?j (nat \<bar>x\<bar>) @ le_bytes (k - ?j) (nat \<bar>x\<bar> div 256 ^ ?j)"
    using le_bytes_add [of ?j "k - ?j"] assms by simp
  then show ?thesis using big_Bytes_bound [of x] by (simp add: big_Bytes_def le_bytes_zero)
qed

lemma big_SetBytes_snoc: "big_SetBytes (bs @ [b]) = big_SetBytes bs * 256 + uint b"
  by (simp add: big_SetBytes_def)

lemma big_SetBytes_bounds: "0 \<le> big_SetBytes bs \<and> big_SetBytes bs < 256 ^ length bs"
proof (induction bs rule: rev_induct)
  case (snoc b bs)
  have "uint b < 256" using unsigned_less [of b, where ?'a = int] by simp
  then have "big_SetBytes bs * 256 + uint b < 256 * 256 ^ length bs" using snoc by linarith
  then show ?case using snoc by (simp add: big_SetBytes_snoc)
qed (simp add: big_SetBytes_def)

lemma nat_big_SetBytes_less: "nat (big_SetBytes bs) < 256 ^ length bs"
  using big_SetBytes_bounds [of bs] by (simp add: nat_less_iff)

lemma byte_256: "(256 :: byte) = 0"
  by (simp add: word_eq_iff_unsigned)

lemma le_bytes_SetBytes: "rev (le_bytes (length bs) (nat (big_SetBytes bs))) = bs"
proof (induction bs rule: rev_induct)
  case (snoc b bs)
  have "nat (big_SetBytes bs * 256 + uint b) = nat (big_SetBytes bs) * 256 + unat b"
    using big_SetBytes_bounds [of bs] by (simp add: nat_add_distrib nat_mult_distrib)
  moreover have "(nat (big_SetBytes bs) * 256 + unat b) div 256 = nat (big_SetBytes bs)"
    using unat_byte_less [of b] by simp
  moreover have "of_nat (nat (big_SetBytes bs) * 256 + unat b) = b"
    by (simp add: byte_256)
  ultimately show ?case using snoc by (simp add: big_SetBytes_snoc)
qed (simp add: big_SetBytes_def)

lemma padded_SetBytes:
  assumes "length bs = 32"
  shows "length (big_Bytes (big_SetBytes bs)) \<le> 32"
    and "replicate (32 - length (big_Bytes (big_SetBytes bs))) 0 @ big_Bytes (big_SetBytes bs) = bs"
proof -
  have "bit_len (nat (big_SetBytes bs)) \<le> 8 * length bs"
    unfolding bit_len_le_iff using nat_big_SetBytes_less [of bs] by (simp add: power_mult)
  then have "bit_len (nat (big_SetBytes bs)) \<le> 256" using assms by simp
  then show l: "length (big_Bytes (big_SetBytes bs)) \<le> 32"
    using big_SetBytes_bounds [of bs] by (simp add: BitLen_def)
  show "replicate (32 - length (big_Bytes (big_SetBytes bs))) 0 @ big_Bytes (big_SetBytes bs) = bs"
    using padded_big_Bytes [OF l] le_bytes_SetBytes [of bs] big_SetBytes_bounds [of bs] assms by simp
qed

lemma big_SetBytes_append: "big_SetBytes (as @ bs) = big_SetBytes as * 256 ^ length bs + big_SetBytes bs"
proof (induction bs rule: rev_induct)
  case (snoc b bs)
  then show ?case
    using big_SetBytes_snoc [of "as @ bs" b] big_SetBytes_snoc [of bs b] by (simp add: algebra_simps)
qed (simp add: big_SetBytes_def)

lemma big_SetBytes_zeros [simp]: "big_SetBytes (replicate k 0) = 0"
  by (induction k) (simp_all add: big_SetBytes_def flip: replicate_append_same)

lemma sgn_byte [simp]: "(of_int (sgn v) :: byte) = 255 \<longleftrightarrow> v < 0"
  by (cases "v = 0"; cases "v < 0") simp_all

text \<open>Decoding the msgpack form of a big integer gives the integer back, whatever its sign and size.\<close>

theorem bigint_roundtrip: "bigFromBytes (Some (bigToBytes v)) = Ok v"
  by (simp add: bigFromBytes_def bigToBytes_def Let_def)

subsection \<open>Signing and recovering the sender\<close>

lemma uint_u64: "0 \<le> v \<Longrightarrow> v < 2 ^ 64 \<Longrightarrow> uint (of_int v :: u64) = v"
  by (simp add: unsigned_of_int take_bit_int_eq_self)

lemma deriveChainId_ge_35:
  assumes "35 \<le> v"
  shows "deriveChainId v = (v - 35) div 2"
proof (cases "BitLen v \<le> 64")
  case True
  then have "nat v < 2 ^ 64" using assms bit_len_le_iff [of "nat v" 64] by (simp add: BitLen_def)
  then have lt: "v < 2 ^ 64" using assms by (simp add: nat_less_iff)
  have u: "uint (of_int v - 35 :: u64) = v - 35"
    using uint_u64 [of "v - 35"] assms lt by simp
  have "uint (of_int v :: u64) = v" using uint_u64 [of v] assms lt by simp
  then have "(of_int v :: u64) \<noteq> 27 \<and> (of_int v :: u64) \<noteq> 28" using assms by auto
  then show ?thesis
    using True assms by (simp add: deriveChainId_def big_Uint64_def uint_div u)
qed (simp add: deriveChainId_def)

lemma SignatureValues_V:
  assumes "length sig = 65" and "sig ! 64 \<in> {0, 1}" and "0 \<le> c"
  shows "SignatureValues (NewMSigner (Some c)) sig =
    Ok (big_SetBytes (take 32 sig), big_SetBytes (take 32 (drop 32 sig)),
        uint (sig ! 64) + (if c = 0 then 27 else 35 + 2 * c))"
  using assms by (auto simp: SignatureValues_def NewMSigner_def big_SetBytes_def)

lemma signed_chain_id:
  assumes "0 \<le> c" and "v \<in> {0, 1 :: byte}"
  shows "deriveChainId (uint v + (if c = 0 then 27 else 35 + 2 * c)) = c"
proof (cases "c = 0")
  case True
  have "BitLen 27 \<le> 64" "BitLen 28 \<le> 64" by (simp_all add: BitLen_def bit_len_le_iff)
  then show ?thesis using True assms by (auto simp: deriveChainId_def big_Uint64_def)
next
  case False
  then show ?thesis using assms by (auto simp: deriveChainId_ge_35)
qed

definition canonical_sig :: "bytes \<Rightarrow> bool" where
  "canonical_sig sig \<longleftrightarrow> length sig = 65 \<and>
     ValidateSignatureValues (sig ! 64) (big_SetBytes (take 32 sig)) (big_SetBytes (take 32 (drop 32 sig))) True"

lemma canonical_sigD:
  assumes "canonical_sig sig"
  shows "length sig = 65" "sig ! 64 \<in> {0, 1}"
    and "ValidateSignatureValues (sig ! 64) (big_SetBytes (take 32 sig))
           (big_SetBytes (take 32 (drop 32 sig))) True"
  using assms by (auto simp: canonical_sig_def ValidateSignatureValues_def split: if_splits)

lemma sig_parts: "length sig = 65 \<Longrightarrow> take 32 sig @ take 32 (drop 32 sig) @ [sig ! 64] = sig"
  by (rule nth_equalityI) (auto simp: nth_append intro!: arg_cong [where f = "(!) sig"])

lemma recoverPlain_valid:
  assumes "BitLen Vb \<le> 8" and "(ucast (big_Uint64 Vb - 27) :: byte) = V"
    and "ValidateSignatureValues V R S homestead"
    and "length (big_Bytes R) \<le> 32" and "length (big_Bytes S) \<le> 32"
    and "replicate (32 - length (big_Bytes R)) 0 @ big_Bytes R
      @ replicate (32 - length (big_Bytes S)) 0 @ big_Bytes S @ [V] = sig"
  shows "recoverPlain C h R S Vb homestead =
    (case Ecrecover C h sig of
       Err e \<Rightarrow> Err (ErrCurve e) | Panic \<Rightarrow> Panic
     | Ok pub \<Rightarrow>
         if length pub = 0 \<or> pub ! 0 \<noteq> 4 then Err ErrInvalidPubkey
         else let k = Keccak256 C (drop 1 pub) in
           if length k < 12 then Panic else Ok (go_copy (replicate AddressLength 0) (drop 12 k)))"
  unfolding recoverPlain_def Let_def assms(2) assms(6) using assms(1,3-5) by (simp del: length_big_Bytes)

lemma recoverPlain_sig:
  assumes "canonical_sig sig"
  shows "recoverPlain C h (big_SetBytes (take 32 sig)) (big_SetBytes (take 32 (drop 32 sig)))
      (uint (sig ! 64) + 27) True =
    (case Ecrecover C h sig of
       Err e \<Rightarrow> Err (ErrCurve e) | Panic \<Rightarrow> Panic
     | Ok pub \<Rightarrow>
         if length pub = 0 \<or> pub ! 0 \<noteq> 4 then Err ErrInvalidPubkey
         else let k = Keccak256 C (drop 1 pub) in
           if length k < 12 then Panic else Ok (go_copy (replicate AddressLength 0) (drop 12 k)))"
proof -
  note sig = canonical_sigD [OF assms]
  have "BitLen 27 \<le> 8" "BitLen 28 \<le> 8" by (simp_all add: BitLen_def bit_len_le_iff)
  then have bl: "BitLen (uint (sig ! 64) + 27) \<le> 8" using sig(2) by auto
  have v: "(ucast (big_Uint64 (uint (sig ! 64) + 27) - 27) :: byte) = sig ! 64"
    using sig(2) by (auto simp: big_Uint64_def)
  have r: "length (take 32 sig) = 32" and s: "length (take 32 (drop 32 sig)) = 32"
    using sig(1) by simp_all
  note pr = padded_SetBytes [OF r] and ps = padded_SetBytes [OF s]
  have "replicate (32 - length (big_Bytes (big_SetBytes (take 32 sig)))) 0
      @ big_Bytes (big_SetBytes (take 32 sig))
      @ replicate (32 - length (big_Bytes (big_SetBytes (take 32 (drop 32 sig))))) 0
      @ big_Bytes (big_SetBytes (take 32 (drop 32 sig))) @ [sig ! 64] = sig"
    using sig_parts [OF sig(1)] pr(2) ps(2) by (metis append_assoc)
  then show ?thesis by (rule recoverPlain_valid [OF bl v sig(3) pr(1) ps(1)])
qed

lemma fill_address_idem [simp]: "fill_address (fill_address a) = fill_address a"
  by (simp add: fill_address_def)

lemma WithSignature_canonical:
  assumes "canonical_sig sig" and "0 \<le> c"
  shows "WithSignature (NewMSigner (Some c)) tx sig =
    Ok \<lparr>Data = (Data tx)\<lparr>sigR := big_SetBytes (take 32 sig), sigS := big_SetBytes (take 32 (drop 32 sig)),
          sigV := uint (sig ! 64) + (if c = 0 then 27 else 35 + 2 * c)\<rparr>,
        Priority = None, hash_cache = None, from_cache = None\<rparr>"
  using SignatureValues_V [OF canonical_sigD(1,2) [OF assms(1)] assms(2)] by (simp add: WithSignature_def)

lemma NewMSigner_sel [simp]:
  "chainId (NewMSigner (Some c)) = c" "chainIdMul (NewMSigner (Some c)) = c * 2"
  by (simp_all add: NewMSigner_def)

lemma go_copy_address: "length k = 32 \<Longrightarrow> go_copy (replicate AddressLength 0) (drop 12 k) = drop 12 k"
  by (simp add: go_copy_def AddressLength_def)

lemma signed_Sender:
  assumes "0 < c" and "canonical_sig sig" and "WithSignature (NewMSigner (Some c)) tx sig = Ok tx'"
    and "fst (MSigner_Hash C (NewMSigner (Some c)) tx') = Ok h"
    and "Ecrecover C h sig = Ok (4 # k)" and "length (Keccak256 C k) = 32"
  shows "fst (Sender C (NewMSigner (Some c)) tx') = Ok (drop 12 (Keccak256 C k))"
proof -
  let ?s = "NewMSigner (Some c)"
  have V: "sigV (Data tx') = uint (sig ! 64) + (35 + 2 * c)"
    and RS: "sigR (Data tx') = big_SetBytes (take 32 sig)" "sigS (Data tx') = big_SetBytes (take 32 (drop 32 sig))"
    and fc: "from_cache tx' = None"
    using assms(1,3) by (auto simp: WithSignature_canonical [OF assms(2)])
  have c: "tx_ChainId tx' = c"
    using signed_chain_id [of c "sig ! 64"] assms(1) canonical_sigD(2) [OF assms(2)]
    by (simp add: tx_ChainId_def V)
  have "uint (sig ! 64) + (35 + 2 * c) - c * 2 - 8 = uint (sig ! 64) + 27" by simp
  then have "fst (MSigner_Sender C ?s tx') = recoverPlain C h (big_SetBytes (take 32 sig))
      (big_SetBytes (take 32 (drop 32 sig))) (uint (sig ! 64) + 27) True"
    using c assms(4) by (simp only: MSigner_Sender_def V RS split_beta Let_def NewMSigner_sel fst_conv
        bind_result.simps simp_thms if_False)
  also have "\<dots> = Ok (drop 12 (Keccak256 C k))"
    using assms(5,6) by (simp add: recoverPlain_sig [OF assms(2)] go_copy_address)
  finally show ?thesis by (simp add: Sender_def fc split_beta)
qed

text \<open>
  C12. A transaction signed for a chain with a positive id recovers, under that chain's signer, to the address of
  the key that the curve recovers from the very signature that \<^verbatim>\<open>Sign\<close> produced; nonce and actions are
  those that were signed.
\<close>

theorem SignTx_Sender:
  assumes "0 < c" and "s = NewMSigner (Some c)"
    and "MSigner_Hash C s tx = (Ok h, tx1)"
    and "curve_Sign C h prv = Ok sig" and "canonical_sig sig"
    and "Ecrecover C h sig = Ok (4 # k)" and "length (Keccak256 C k) = 32"
  shows "\<exists>tx'. SignTx C tx s prv = (Ok tx', tx1) \<and> fst (Sender C s tx') = Ok (drop 12 (Keccak256 C k)) \<and>
    tx_Nonce tx' = tx_Nonce tx \<and> Actions (Data tx') = map fill_address (Actions (Data tx))"
proof -
  obtain tx' where W: "WithSignature s tx1 sig = Ok tx'"
    and tx': "Data tx' = (Data tx1)\<lparr>sigR := sigR (Data tx'), sigS := sigS (Data tx'), sigV := sigV (Data tx')\<rparr>"
    using WithSignature_canonical [OF assms(5), of c tx1] assms(1,2) by simp
  have "fst (MSigner_Hash C s tx') = Ok h"
    using assms(3) arg_cong [OF tx', of AccountNonce] arg_cong [OF tx', of Actions]
    by (auto simp: MSigner_Hash_def o_def)
  then have "fst (Sender C s tx') = Ok (drop 12 (Keccak256 C k))"
    using signed_Sender [OF assms(1,5) W [unfolded assms(2)]] assms(2,6,7) by blast
  moreover have "tx_Nonce tx' = tx_Nonce tx \<and> Actions (Data tx') = map fill_address (Actions (Data tx))"
    using assms(3) arg_cong [OF tx', of AccountNonce] arg_cong [OF tx', of Actions]
    by (auto simp: MSigner_Hash_def)
  ultimately show ?thesis using W assms(3,4) by (auto simp: SignTx_def)
qed

text \<open>A concrete environment and signature for the instances below.\<close>

definition demo_sig :: bytes where
  "demo_sig = replicate 31 0 @ [1] @ replicate 31 0 @ [1, 0]"

definition demo_env :: "unit crypto_env" where
  "demo_env = \<lparr>msgp_tx = \<lambda>d. Some (replicate 32 1), msgp_signed = \<lambda>n a c. Some (replicate 32 2),
     Ecrecover = \<lambda>h sig. if sig = demo_sig then Ok [4, 9] else Err [],
     curve_Sign = \<lambda>h key. Ok demo_sig, Keccak256 = \<lambda>b. replicate 32 (of_nat (length b))\<rparr>"

definition demo_tx :: transaction where
  "demo_tx = newTransaction 7 [\<lparr>act_Address = None, act_Params = [1, 2]\<rparr>]"

lemma canonical_demo_sig: "canonical_sig demo_sig"
proof -
  have "take 32 demo_sig = replicate 31 0 @ [1]" "take 32 (drop 32 demo_sig) = replicate 31 0 @ [1]"
    "demo_sig ! 64 = 0" "length demo_sig = 65"
    by (simp_all add: demo_sig_def nth_append)
  moreover have "big_SetBytes (replicate 31 0 @ [1]) = 1" by (simp add: big_SetBytes_snoc)
  ultimately show ?thesis
    by (simp add: canonical_sig_def ValidateSignatureValues_def secp256k1_halfN_def secp256k1_N_def)
qed

lemmas demo_defs = demo_env_def demo_tx_def newTransaction_def MSigner_Hash_def

theorem SignTx_Sender_witness:
  "\<exists>tx'. SignTx demo_env demo_tx (NewMSigner (Some 5)) () = (Ok tx', snd (MSigner_Hash demo_env (NewMSigner (Some 5)) demo_tx))
     \<and> fst (Sender demo_env (NewMSigner (Some 5)) tx') = Ok (replicate 20 1)"
  using SignTx_Sender [of 5 "NewMSigner (Some 5)" demo_env demo_tx "replicate 32 2" _ "()" demo_sig "[9]", OF _ refl _ _ canonical_demo_sig]
  by (auto simp: demo_defs)

text \<open>
  C13. Replay protection. A signature made for one chain is refused by the signer of any other chain.
\<close>

theorem other_chain_rejected:
  assumes "0 \<le> c" and "c \<noteq> c'" and "canonical_sig sig"
    and "WithSignature (NewMSigner (Some c)) tx sig = Ok tx'"
  shows "fst (Sender C (NewMSigner (Some c')) tx') = Err ErrInvalidChainId"
proof -
  have "tx_ChainId tx' = c" and "from_cache tx' = None"
    using assms(4) signed_chain_id [OF assms(1) canonical_sigD(2) [OF assms(3)]]
    by (auto simp: WithSignature_canonical [OF assms(3,1)] tx_ChainId_def)
  then show ?thesis using assms(2) by (simp add: Sender_def MSigner_Sender_def split_beta)
qed

theorem other_chain_rejected_witness:
  "fst (Sender demo_env (NewMSigner (Some 6)) (the_Ok (WithSignature (NewMSigner (Some 5)) demo_tx demo_sig)))
     = Err ErrInvalidChainId"
  using other_chain_rejected [of 5 6 demo_sig demo_tx _ demo_env, OF _ _ canonical_demo_sig]
  by (simp add: WithSignature_canonical [OF canonical_demo_sig])



text \<open>
  C32. With chain id zero no signature is accepted: the offset of eight that \<^verbatim>\<open>MSigner.Sender\<close> subtracts is the
  one of protected signatures, while \<^verbatim>\<open>SignatureValues\<close> encodes for chain zero with the unprotected one.
\<close>

theorem chain_zero_rejected:
  assumes "canonical_sig sig" and "WithSignature (NewMSigner (Some 0)) tx sig = Ok tx'"
    and "msgp_signed C (tx_Nonce tx') (map fill_address (Actions (Data tx'))) 0 \<noteq> None"
  shows "fst (Sender C (NewMSigner (Some 0)) tx') = Err ErrInvalidSig"
proof -
  note sig = canonical_sigD [OF assms(1)]
  have "BitLen 19 \<le> 8" "BitLen 20 \<le> 8" by (simp_all add: BitLen_def bit_len_le_iff)
  then have "recoverPlain C h r s (uint (sig ! 64) + 27 - 8) True = Err ErrInvalidSig" for h r s
    using sig(2) by (auto simp: recoverPlain_def big_Uint64_def ValidateSignatureValues_def)
  then show ?thesis
    using assms(2,3) signed_chain_id [of 0 "sig ! 64"] sig(2)
    by (auto simp: WithSignature_canonical [OF assms(1)] Sender_def MSigner_Sender_def tx_ChainId_def
        MSigner_Hash_def split_beta Let_def)
qed

theorem chain_zero_rejected_witness:
  "fst (Sender demo_env (NewMSigner (Some 0)) (the_Ok (WithSignature (NewMSigner (Some 0)) demo_tx demo_sig)))
     = Err ErrInvalidSig"
  using chain_zero_rejected [of demo_sig demo_tx _ demo_env, OF canonical_demo_sig]
  by (simp add: WithSignature_canonical [OF canonical_demo_sig] demo_env_def)

subsection \<open>The sender cache\<close>

definition sender_cache_ok :: "'key crypto_env \<Rightarrow> transaction \<Rightarrow> bool" where
  "sender_cache_ok C tx \<longleftrightarrow>
     (case from_cache tx of
        None \<Rightarrow> True
      | Some (s, a) \<Rightarrow> s = NewMSigner (Some (chainId s)) \<and> fst (MSigner_Sender C s tx) = Ok a)"

lemma MSigner_Sender_cong:
  assumes "AccountNonce (Data t) = AccountNonce (Data tx)" "sigV (Data t) = sigV (Data tx)"
    "sigR (Data t) = sigR (Data tx)" "sigS (Data t) = sigS (Data tx)"
    "map fill_address (Actions (Data t)) = map fill_address (Actions (Data tx))"
  shows "fst (MSigner_Sender C s t) = fst (MSigner_Sender C s tx)"
  using assms by (simp add: MSigner_Sender_def MSigner_Hash_def tx_ChainId_def Let_def)

lemma MSigner_Sender_tx:
  "snd (MSigner_Sender C s tx) = tx \<or>
   snd (MSigner_Sender C s tx) = tx\<lparr>Data := (Data tx)\<lparr>Actions := map fill_address (Actions (Data tx))\<rparr>\<rparr>"
  by (simp add: MSigner_Sender_def MSigner_Hash_def Let_def)

lemma MSigner_Sender_again:
  "fst (MSigner_Sender C s ((snd (MSigner_Sender C s' tx))\<lparr>from_cache := fc\<rparr>)) = fst (MSigner_Sender C s tx)"
  "fst (MSigner_Sender C s (snd (MSigner_Sender C s' tx))) = fst (MSigner_Sender C s tx)"
  using MSigner_Sender_tx [of C s' tx] by (auto intro!: MSigner_Sender_cong)

lemma MSigner_Sender_from_cache [simp]: "from_cache (snd (MSigner_Sender C s tx)) = from_cache tx"
  using MSigner_Sender_tx [of C s tx] by auto

lemma NewMSigner_eq: "MSigner_Equal s s' \<Longrightarrow> s = NewMSigner (Some (chainId s)) \<Longrightarrow> s' = NewMSigner (Some c) \<Longrightarrow> s = s'"
  by (simp add: MSigner_Equal_def)



end
