(* ===== verification/GoHeap.thy ===== *)
theory GoHeap
  imports Prelude "HOL-Library.Multiset"
begin

text \<open>
  \<^verbatim>\<open>container/heap\<close> of the Go library, on which the transaction pool and the block producer rest, over a list
  and the \<^verbatim>\<open>Less\<close> method of the heap as an argument. The locale \<open>heap_order\<close> states what \<^verbatim>\<open>Less\<close> has to satisfy;
  inside it every operation keeps the heap order and the elements, and \<^verbatim>\<open>Pop\<close> returns a least element.
\<close>

subsection \<open>The operations\<close>

definition swap :: "'a list \<Rightarrow> nat \<Rightarrow> nat \<Rightarrow> 'a list" where
  "swap xs i j = xs[i := xs ! j, j := xs ! i]"

function up :: "('a \<Rightarrow> 'a \<Rightarrow> bool) \<Rightarrow> 'a list \<Rightarrow> nat \<Rightarrow> 'a list" where
  "up lt xs j =
     (let i = (j - 1) div 2 in
      if i = j \<or> \<not> lt (xs ! j) (xs ! i) then xs else up lt (swap xs i j) i)"
  by pat_completeness auto
termination by (relation "measure (\<lambda>(_, _, j). j)") auto

function down_from :: "('a \<Rightarrow> 'a \<Rightarrow> bool) \<Rightarrow> 'a list \<Rightarrow> nat \<Rightarrow> nat \<Rightarrow> 'a list \<times> nat" where
  "down_from lt xs i n =
     (let j1 = 2 * i + 1 in
      if j1 \<ge> n then (xs, i)
      else let j = (if j1 + 1 < n \<and> lt (xs ! (j1 + 1)) (xs ! j1) then j1 + 1 else j1) in
        if \<not> lt (xs ! j) (xs ! i) then (xs, i) else down_from lt (swap xs i j) j n)"
  by pat_completeness auto
termination by (relation "measure (\<lambda>(_, _, i, n). n - i)") auto

declare up.simps [simp del] down_from.simps [simp del]

definition down :: "('a \<Rightarrow> 'a \<Rightarrow> bool) \<Rightarrow> 'a list \<Rightarrow> nat \<Rightarrow> nat \<Rightarrow> 'a list \<times> bool" where
  "down lt xs i0 n = (let (ys, i) = down_from lt xs i0 n in (ys, i > i0))"

primrec init_loop :: "('a \<Rightarrow> 'a \<Rightarrow> bool) \<Rightarrow> nat \<Rightarrow> 'a list \<Rightarrow> 'a list" where
  "init_loop lt 0 xs = xs"
| "init_loop lt (Suc i) xs = init_loop lt i (fst (down lt xs i (length xs)))"

definition heap_Init :: "('a \<Rightarrow> 'a \<Rightarrow> bool) \<Rightarrow> 'a list \<Rightarrow> 'a list" where
  "heap_Init lt xs = init_loop lt (length xs div 2) xs"

definition heap_Push :: "('a \<Rightarrow> 'a \<Rightarrow> bool) \<Rightarrow> 'a list \<Rightarrow> 'a \<Rightarrow> 'a list" where
  "heap_Push lt xs x = up lt (xs @ [x]) (length xs)"

text \<open>On an empty heap \<^verbatim>\<open>Pop\<close> swaps out of range and panics.\<close>

definition heap_Pop :: "('a \<Rightarrow> 'a \<Rightarrow> bool) \<Rightarrow> 'a list \<Rightarrow> (unit, 'a \<times> 'a list) result" where
  "heap_Pop lt xs =
     (if xs = [] then Panic
      else let n = length xs - 1; ys = fst (down lt (swap xs 0 n) 0 n) in Ok (ys ! n, take n ys))"

definition heap_Remove :: "('a \<Rightarrow> 'a \<Rightarrow> bool) \<Rightarrow> 'a list \<Rightarrow> nat \<Rightarrow> (unit, 'a \<times> 'a list) result" where
  "heap_Remove lt xs i =
     (if i \<ge> length xs then Panic
      else let n = length xs - 1;
               ys = (if n \<noteq> i
                     then let (zs, moved) = down lt (swap xs i n) i n in if moved then zs else up lt zs i
                     else xs)
           in Ok (ys ! n, take n ys))"

definition heap_Fix :: "('a \<Rightarrow> 'a \<Rightarrow> bool) \<Rightarrow> 'a list \<Rightarrow> nat \<Rightarrow> 'a list" where
  "heap_Fix lt xs i =
     (let (ys, moved) = down lt xs i (length xs) in if moved then ys else up lt ys i)"

subsection \<open>Positions\<close>

definition par :: "nat \<Rightarrow> nat" where
  "par c = (c - 1) div 2"

lemma par_less [simp]: "0 < c \<Longrightarrow> par c < c"
  unfolding par_def by linarith

lemma par_eq: "0 < c \<Longrightarrow> par c = i \<longleftrightarrow> c = 2 * i + 1 \<or> c = 2 * i + 2"
  unfolding par_def by linarith

lemma length_swap [simp]: "length (swap xs i j) = length xs"
  by (simp add: swap_def)

lemma nth_swap:
  "i < length xs \<Longrightarrow> j < length xs \<Longrightarrow> c < length xs \<Longrightarrow>
     swap xs i j ! c = (if c = j then xs ! i else if c = i then xs ! j else xs ! c)"
  by (simp add: swap_def nth_list_update)

lemma mset_swap_nth [simp]: "i < length xs \<Longrightarrow> j < length xs \<Longrightarrow> mset (swap xs i j) = mset xs"
  unfolding swap_def by (rule mset_swap)

subsection \<open>Heap order\<close>

text \<open>Links from parents at position \<open>k\<close> or above, within the first \<open>n\<close> elements.\<close>

definition heap_from :: "('a \<Rightarrow> 'a \<Rightarrow> bool) \<Rightarrow> nat \<Rightarrow> nat \<Rightarrow> 'a list \<Rightarrow> bool" where
  "heap_from lt k n xs \<longleftrightarrow> (\<forall>c<n. 0 < c \<longrightarrow> k \<le> par c \<longrightarrow> \<not> lt (xs ! c) (xs ! par c))"

abbreviation is_heap :: "('a \<Rightarrow> 'a \<Rightarrow> bool) \<Rightarrow> 'a list \<Rightarrow> bool" where
  "is_heap lt xs \<equiv> heap_from lt 0 (length xs) xs"

text \<open>The same except at position \<open>i\<close>, whose parent is still below its children.\<close>

definition hole :: "('a \<Rightarrow> 'a \<Rightarrow> bool) \<Rightarrow> nat \<Rightarrow> nat \<Rightarrow> nat \<Rightarrow> 'a list \<Rightarrow> bool" where
  "hole lt k n i xs \<longleftrightarrow>
     (\<forall>c<n. 0 < c \<longrightarrow> k \<le> par c \<longrightarrow> c \<noteq> i \<longrightarrow> par c \<noteq> i \<longrightarrow> \<not> lt (xs ! c) (xs ! par c)) \<and>
     (\<forall>c<n. 0 < c \<longrightarrow> par c = i \<longrightarrow> 0 < i \<longrightarrow> k \<le> par i \<longrightarrow> \<not> lt (xs ! c) (xs ! par i))"

definition above_ok :: "('a \<Rightarrow> 'a \<Rightarrow> bool) \<Rightarrow> nat \<Rightarrow> nat \<Rightarrow> 'a list \<Rightarrow> bool" where
  "above_ok lt k i xs \<longleftrightarrow> (0 < i \<longrightarrow> k \<le> par i \<longrightarrow> \<not> lt (xs ! i) (xs ! par i))"

definition below_ok :: "('a \<Rightarrow> 'a \<Rightarrow> bool) \<Rightarrow> nat \<Rightarrow> nat \<Rightarrow> 'a list \<Rightarrow> bool" where
  "below_ok lt n i xs \<longleftrightarrow> (\<forall>c<n. 0 < c \<longrightarrow> par c = i \<longrightarrow> \<not> lt (xs ! c) (xs ! i))"

lemma hole_closed:
  "hole lt k n i xs \<Longrightarrow> above_ok lt k i xs \<Longrightarrow> below_ok lt n i xs \<Longrightarrow> heap_from lt k n xs"
  unfolding hole_def above_ok_def below_ok_def heap_from_def by metis

subsection \<open>The contract of Less\<close>

locale heap_order =
  fixes lt :: "'a \<Rightarrow> 'a \<Rightarrow> bool"
  assumes asym: "lt a b \<Longrightarrow> \<not> lt b a"
    and ge_trans: "\<not> lt b a \<Longrightarrow> \<not> lt c b \<Longrightarrow> \<not> lt c a"
begin

lemma irrefl: "\<not> lt a a"
  using asym by blast

lemma swap_down:
  assumes "hole lt k n i xs" and "k \<le> i" and "n \<le> length xs" and "j < n" "0 < j" "par j = i"
    and "lt (xs ! j) (xs ! i)" and "\<forall>c<n. 0 < c \<longrightarrow> par c = i \<longrightarrow> \<not> lt (xs ! c) (xs ! j)"
  shows "hole lt k n j (swap xs i j)" and "above_ok lt k j (swap xs i j)"
proof -
  have ij: "i < j" using par_less [OF assms(5)] assms(6) by simp
  have nth: "swap xs i j ! c = (if c = j then xs ! i else if c = i then xs ! j else xs ! c)" if "c < n" for c
    using that assms(3,4) ij by (intro nth_swap) auto
  show "above_ok lt k j (swap xs i j)"
    using asym [OF assms(7)] assms(4,6) ij by (auto simp: above_ok_def nth)
  have links: "\<not> lt (swap xs i j ! c) (swap xs i j ! par c)"
    if c: "c < n" "0 < c" "k \<le> par c" "c \<noteq> j" "par c \<noteq> j" for c
  proof -
    have p: "par c < c" "par c < n" using c less_trans [OF par_less [OF c(2)] c(1)] by simp_all
    consider "c = i" | "par c = i" | "c \<noteq> i" "par c \<noteq> i" by blast
    then show ?thesis
    proof cases
      case 1
      then show ?thesis using assms(1,4-6) c p ij by (auto simp: nth hole_def)
    next
      case 2
      then show ?thesis using assms(8) c p ij by (auto simp: nth)
    next
      case 3
      then show ?thesis using assms(1) c p by (auto simp: nth hole_def)
    qed
  qed
  have "\<not> lt (swap xs i j ! c) (swap xs i j ! par j)" if c: "c < n" "0 < c" "par c = j" for c
    using assms(1,2,4,6) c ij par_less [of c] by (auto simp: nth hole_def)
  then show "hole lt k n j (swap xs i j)" using links by (auto simp: hole_def)
qed

lemma down_child:
  assumes "2 * i + 1 < n"
  obtains j where "j < n" "0 < j" "par j = i" "i < j"
    and "\<forall>c<n. 0 < c \<longrightarrow> par c = i \<longrightarrow> \<not> lt (xs ! c) (xs ! j)"
    and "down_from lt xs i n = (if \<not> lt (xs ! j) (xs ! i) then (xs, i) else down_from lt (swap xs i j) j n)"
proof
  let ?j = "if 2 * i + 1 + 1 < n \<and> lt (xs ! (2 * i + 1 + 1)) (xs ! (2 * i + 1)) then 2 * i + 1 + 1 else 2 * i + 1"
  show "?j < n" "0 < ?j" "par ?j = i" "i < ?j" using assms by (auto simp: par_def)
  show "\<forall>c<n. 0 < c \<longrightarrow> par c = i \<longrightarrow> \<not> lt (xs ! c) (xs ! ?j)"
    using asym irrefl by (auto simp: par_eq)
  show "down_from lt xs i n = (if \<not> lt (xs ! ?j) (xs ! i) then (xs, i) else down_from lt (swap xs i ?j) ?j n)"
    using assms by (subst down_from.simps) (simp only: Let_def not_le [symmetric] if_False)
qed

lemma down_leaf: "n \<le> 2 * i + 1 \<Longrightarrow> down_from lt xs i n = (xs, i)"
  by (subst down_from.simps) simp

lemma below_leaf: "n \<le> 2 * i + 1 \<Longrightarrow> below_ok lt n i xs"
  by (auto simp: below_ok_def par_eq)


lemma down_from_elems:
  assumes "n \<le> length xs"
  shows "mset (fst (down_from lt xs i n)) = mset xs \<and> length (fst (down_from lt xs i n)) = length xs \<and>
    (\<forall>c\<ge>n. c < length xs \<longrightarrow> fst (down_from lt xs i n) ! c = xs ! c) \<and> i \<le> snd (down_from lt xs i n)"
  using assms
proof (induction "n - i" arbitrary: xs i rule: less_induct)
  case less
  show ?case
  proof (cases "2 * i + 1 < n")
    case True
    obtain j where j: "j < n" "i < j"
      and eq: "down_from lt xs i n = (if \<not> lt (xs ! j) (xs ! i) then (xs, i) else down_from lt (swap xs i j) j n)"
      using down_child [OF True] by metis
    have "n - j < n - i" using j by simp
    from less.hyps [OF this, of "swap xs i j"] show ?thesis
      using less.prems j by (auto simp: eq nth_swap)
  next
    case False
    then show ?thesis by (simp add: down_leaf)
  qed
qed

lemma down_from_heap:
  assumes "hole lt k n i xs" and "above_ok lt k i xs" and "k \<le> i" and "n \<le> length xs"
  shows "heap_from lt k n (fst (down_from lt xs i n))"
  using assms
proof (induction "n - i" arbitrary: xs i rule: less_induct)
  case less
  show ?case
  proof (cases "2 * i + 1 < n")
    case True
    obtain j where j: "j < n" "0 < j" "par j = i" "i < j"
      and small: "\<forall>c<n. 0 < c \<longrightarrow> par c = i \<longrightarrow> \<not> lt (xs ! c) (xs ! j)"
      and eq: "down_from lt xs i n = (if \<not> lt (xs ! j) (xs ! i) then (xs, i) else down_from lt (swap xs i j) j n)"
      by (rule down_child [OF True, where xs = xs])
    show ?thesis
    proof (cases "lt (xs ! j) (xs ! i)")
      case lt: True
      note sw = swap_down [OF less.prems(1,3,4) j(1-3) lt small]
      have "n - j < n - i" using j by simp
      from less.hyps [OF this sw] show ?thesis using less.prems(3,4) j(4) lt eq by simp
    next
      case False
      have "below_ok lt n i xs" using ge_trans [OF False] small unfolding below_ok_def by blast
      then show ?thesis using hole_closed [OF less.prems(1,2)] False eq by simp
    qed
  next
    case False
    then show ?thesis using hole_closed [OF less.prems(1,2) below_leaf] by (simp add: down_leaf)
  qed
qed

lemma down_cases:
  assumes "hole lt k n i xs" and "k \<le> i" and "n \<le> length xs"
  shows "if snd (down lt xs i n) then heap_from lt k n (fst (down lt xs i n))
    else fst (down lt xs i n) = xs \<and> below_ok lt n i xs"
proof (cases "2 * i + 1 < n")
  case True
  obtain j where j: "j < n" "0 < j" "par j = i" "i < j"
    and small: "\<forall>c<n. 0 < c \<longrightarrow> par c = i \<longrightarrow> \<not> lt (xs ! c) (xs ! j)"
    and eq: "down_from lt xs i n = (if \<not> lt (xs ! j) (xs ! i) then (xs, i) else down_from lt (swap xs i j) j n)"
    by (rule down_child [OF True, where xs = xs])
  show ?thesis
  proof (cases "lt (xs ! j) (xs ! i)")
    case lt: True
    note sw = swap_down [OF assms j(1-3) lt small]
    have "heap_from lt k n (fst (down_from lt (swap xs i j) j n))"
      using down_from_heap [OF sw] assms(2,3) j(4) by simp
    moreover have "i < snd (down_from lt (swap xs i j) j n)"
      using down_from_elems [of n "swap xs i j" j] assms(3) j(4) by simp
    ultimately show ?thesis using lt eq by (simp add: down_def split_beta)
  next
    case False
    have "below_ok lt n i xs" using ge_trans [OF False] small unfolding below_ok_def by blast
    then show ?thesis using False eq by (simp add: down_def)
  qed
next
  case False
  then show ?thesis by (simp add: down_def down_leaf below_leaf)
qed

lemma fst_down: "fst (down lt xs i n) = fst (down_from lt xs i n)"
  by (simp add: down_def split_beta)


lemma up_eq:
  "up lt xs j = (if par j = j \<or> \<not> lt (xs ! j) (xs ! par j) then xs else up lt (swap xs (par j) j) (par j))"
  by (subst up.simps) (simp add: Let_def par_def)

lemma up_elems:
  "j < length xs \<Longrightarrow> mset (up lt xs j) = mset xs \<and> length (up lt xs j) = length xs"
proof (induction j arbitrary: xs rule: less_induct)
  case (less j)
  show ?case
  proof (cases "par j = j \<or> \<not> lt (xs ! j) (xs ! par j)")
    case True
    then show ?thesis using up_eq [of xs j] by simp
  next
    case False
    then have "par j < j" by (cases j) (auto simp: par_def)
    with less show ?thesis using False up_eq [of xs j] by simp
  qed
qed

lemma swap_up:
  assumes "hole lt 0 n j xs" and "below_ok lt n j xs" and "n \<le> length xs" and "j < n" "0 < j"
    and "lt (xs ! j) (xs ! par j)"
  shows "hole lt 0 n (par j) (swap xs (par j) j)" and "below_ok lt n (par j) (swap xs (par j) j)"
proof -
  let ?i = "par j"
  have ij: "?i < j" using assms(5) by simp
  have nth: "swap xs ?i j ! c = (if c = j then xs ! ?i else if c = ?i then xs ! j else xs ! c)" if "c < n" for c
    using that assms(3,4) ij by (intro nth_swap) auto
  have sib: "\<not> lt (xs ! c) (xs ! ?i)" if "c < n" "0 < c" "par c = ?i" "c \<noteq> j" for c
    using assms(1) that ij par_less [of c] by (auto simp: hole_def)
  show "below_ok lt n ?i (swap xs ?i j)"
    unfolding below_ok_def
  proof (intro allI impI)
    fix c assume c: "c < n" "0 < c" "par c = ?i"
    then have "c \<noteq> ?i" using par_less [of c] by auto
    then show "\<not> lt (swap xs ?i j ! c) (swap xs ?i j ! ?i)"
      using c ij assms(4) asym [OF assms(6)] ge_trans [OF asym [OF assms(6)] sib [OF c]] by (auto simp: nth)
  qed
  have kids: "\<not> lt (swap xs ?i j ! c) (swap xs ?i j ! par c)"
    if c: "c < n" "0 < c" "c \<noteq> ?i" "par c \<noteq> ?i" for c
  proof -
    have p: "par c < n" using less_trans [OF par_less [OF c(2)] c(1)] .
    have "c \<noteq> j" using c by auto
    then show ?thesis
      using assms(1,5) c p ij by (cases "par c = j") (auto simp: nth hole_def)
  qed
  have gp: "\<not> lt (swap xs ?i j ! c) (swap xs ?i j ! par ?i)"
    if c: "c < n" "0 < c" "par c = ?i" "0 < ?i" for c
  proof -
    have pi: "par ?i < ?i" "?i < n" using c(4) ij assms(4) by auto
    have top: "\<not> lt (xs ! ?i) (xs ! par ?i)"
      using assms(1) pi less_trans [OF pi(1) ij] c(4) by (auto simp: hole_def)
    have "c \<noteq> ?i" using c par_less [of c] by auto
    then show ?thesis
      using top c pi ij ge_trans [OF top sib [OF c(1-3)]] by (auto simp: nth)
  qed
  show "hole lt 0 n ?i (swap xs ?i j)" using kids gp by (auto simp: hole_def)
qed

lemma up_heap:
  assumes "hole lt 0 n j xs" and "below_ok lt n j xs" and "n \<le> length xs" and "j < n"
  shows "heap_from lt 0 n (up lt xs j)"
  using assms
proof (induction j arbitrary: xs rule: less_induct)
  case (less j)
  note eq = up_eq [of xs j]
  show ?case
  proof (cases "par j = j \<or> \<not> lt (xs ! j) (xs ! par j)")
    case True
    then have "above_ok lt 0 j xs" using irrefl by (auto simp: above_ok_def)
    then show ?thesis using hole_closed [OF less.prems(1)] less.prems(2) True eq by simp
  next
    case False
    then have j: "0 < j" by (cases j) (auto simp: par_def)
    note sw = swap_up [OF less.prems(1-4) j]
    show ?thesis
      using less.IH [OF par_less [OF j] sw] False less.prems(3,4) less_trans [OF par_less [OF j] less.prems(4)] eq
      by simp
  qed
qed

lemma init_loop_heap:
  "heap_from lt k (length xs) xs \<Longrightarrow>
     is_heap lt (init_loop lt k xs) \<and> mset (init_loop lt k xs) = mset xs"
proof (induction k arbitrary: xs)
  case (Suc k)
  let ?ys = "fst (down lt xs k (length xs))"
  have "hole lt k (length xs) k xs"
    using Suc.prems by (auto simp: hole_def heap_from_def par_def)
  moreover have "above_ok lt k k xs" by (auto simp: above_ok_def par_def)
  ultimately have "heap_from lt k (length xs) ?ys" using down_from_heap by (simp add: fst_down)
  moreover have "length ?ys = length xs" "mset ?ys = mset xs"
    using down_from_elems [of "length xs" xs k] by (simp_all add: fst_down)
  ultimately show ?case using Suc.IH [of ?ys] by simp
qed simp

lemma heap_Init_heap: "is_heap lt (heap_Init lt xs) \<and> mset (heap_Init lt xs) = mset xs"
  unfolding heap_Init_def by (rule init_loop_heap) (auto simp: heap_from_def par_def)

lemma is_heap_least: "is_heap lt xs \<Longrightarrow> c < length xs \<Longrightarrow> \<not> lt (xs ! c) (xs ! 0)"
proof (induction c rule: less_induct)
  case (less c)
  show ?case
  proof (cases "c = 0")
    case False
    then have "\<not> lt (xs ! par c) (xs ! 0)" "\<not> lt (xs ! c) (xs ! par c)"
      using less par_less [of c] less_trans [of "par c" c "length xs"] by (auto simp: heap_from_def)
    then show ?thesis by (rule ge_trans)
  qed (simp add: irrefl)
qed

lemma is_heap_hd_least: "is_heap lt xs \<Longrightarrow> y \<in> set xs \<Longrightarrow> \<not> lt y (xs ! 0)"
  using is_heap_least by (metis in_set_conv_nth)


lemma hole_update:
  assumes "heap_from lt 0 n xs" and "\<And>c. c < n \<Longrightarrow> c \<noteq> i \<Longrightarrow> ys ! c = xs ! c"
  shows "hole lt 0 n i ys"
proof -
  have p: "par c < n" if "c < n" "0 < c" for c using less_trans [OF par_less [OF that(2)] that(1)] .
  have "\<not> lt (ys ! c) (ys ! par i)" if c: "c < n" "0 < c" "par c = i" "0 < i" for c
  proof -
    have i: "i < n" "par i < n" "c \<noteq> i" "par i \<noteq> i" using c p [of c] p [of i] par_less [of c] less_imp_neq [OF par_less [OF c(4)]] by auto
    have "\<not> lt (xs ! i) (xs ! par i)" "\<not> lt (xs ! c) (xs ! i)" using assms(1) c i by (auto simp: heap_from_def)
    then show ?thesis using ge_trans assms(2) c i by auto
  qed
  then show ?thesis using assms p by (auto simp: hole_def heap_from_def)
qed

lemma heap_from_take: "heap_from lt 0 n xs \<Longrightarrow> n \<le> length xs \<Longrightarrow> is_heap lt (take n xs)"
  using less_trans [OF par_less] by (auto simp: heap_from_def)

lemma mset_take_last: "length xs = Suc n \<Longrightarrow> mset xs = add_mset (xs ! n) (mset (take n xs))"
  using arg_cong [OF take_Suc_conv_app_nth [of n xs], of mset] by simp

lemma heap_Push_heap:
  assumes "is_heap lt xs"
  shows "is_heap lt (heap_Push lt xs x)" and "mset (heap_Push lt xs x) = add_mset x (mset xs)"
proof -
  let ?n = "length xs" and ?ys = "xs @ [x]"
  have leaf: "par c \<noteq> ?n" if "c < Suc ?n" "0 < c" for c using that par_less [of c] by linarith
  have "\<not> lt (?ys ! c) (?ys ! par c)" if c: "c < Suc ?n" "0 < c" "c \<noteq> ?n" for c
    using assms c less_trans [OF par_less [OF c(2)], of ?n] by (auto simp: heap_from_def nth_append)
  then have "hole lt 0 (Suc ?n) ?n ?ys" using leaf by (auto simp: hole_def)
  moreover have "below_ok lt (Suc ?n) ?n ?ys" using leaf by (auto simp: below_ok_def)
  ultimately have "heap_from lt 0 (Suc ?n) (up lt ?ys ?n)" by (rule up_heap) simp_all
  then show "is_heap lt (heap_Push lt xs x)" and "mset (heap_Push lt xs x) = add_mset x (mset xs)"
    using up_elems [of ?n ?ys] by (simp_all add: heap_Push_def)
qed

lemma up_above: "j < c \<Longrightarrow> c < length xs \<Longrightarrow> up lt xs j ! c = xs ! c"
proof (induction j arbitrary: xs rule: less_induct)
  case (less j)
  show ?case
  proof (cases "par j = j \<or> \<not> lt (xs ! j) (xs ! par j)")
    case True
    then show ?thesis using up_eq [of xs j] by simp
  next
    case False
    then have "par j < j" by (cases j) (auto simp: par_def)
    with less.IH [of "par j" "swap xs (par j) j"] less.prems False up_eq [of xs j] show ?thesis
      by (simp add: nth_swap)
  qed
qed

lemma sift:
  assumes "hole lt 0 n i xs" and "i < n" and "n \<le> length xs"
  defines "ys \<equiv> (if snd (down lt xs i n) then fst (down lt xs i n) else up lt (fst (down lt xs i n)) i)"
  shows "heap_from lt 0 n ys" and "mset ys = mset xs" and "length ys = length xs"
    and "\<And>c. n \<le> c \<Longrightarrow> c < length xs \<Longrightarrow> ys ! c = xs ! c"
  using down_cases [OF assms(1) _ assms(3)] down_from_elems [OF assms(3), of i] up_heap [OF assms(1) _ assms(3,2)]
    up_elems [of i xs] up_above [of i _ xs] assms(2,3)
  unfolding ys_def by (auto simp: fst_down split: if_splits)

lemma heap_Fix_heap:
  assumes "is_heap lt xs" and "i < length xs"
  shows "is_heap lt (heap_Fix lt (xs[i := v]) i)" and "mset (heap_Fix lt (xs[i := v]) i) = mset (xs[i := v])"
proof -
  have h: "hole lt 0 (length xs) i (xs[i := v])" by (rule hole_update [OF assms(1)]) simp
  then show "is_heap lt (heap_Fix lt (xs[i := v]) i)" "mset (heap_Fix lt (xs[i := v]) i) = mset (xs[i := v])"
    using sift [OF h assms(2)] by (simp_all add: heap_Fix_def split_beta)
qed

lemma heap_Remove_heap:
  assumes "is_heap lt xs" and "i < length xs"
  obtains rest where "heap_Remove lt xs i = Ok (xs ! i, rest)" and "is_heap lt rest"
    and "mset xs = add_mset (xs ! i) (mset rest)"
proof -
  let ?n = "length xs - 1" and ?s = "swap xs i (length xs - 1)"
  have hn: "heap_from lt 0 ?n xs" using assms(1) by (auto simp: heap_from_def)
  obtain ys where R: "heap_Remove lt xs i = Ok (ys ! ?n, take ?n ys)" and h: "heap_from lt 0 ?n ys"
    and m: "mset ys = mset xs" and l: "length ys = length xs" and n: "ys ! ?n = xs ! i"
  proof (cases "i = ?n")
    case True
    then show ?thesis using that [of xs] hn assms(2) by (auto simp: heap_Remove_def Let_def)
  next
    case False
    then have i: "i < ?n" "?n < length xs" using assms(2) by auto
    have "hole lt 0 ?n i ?s" by (rule hole_update [OF hn]) (use i in \<open>auto simp: nth_swap\<close>)
    note s = sift [OF this i(1)]
    show ?thesis
    proof (rule that)
      show "heap_Remove lt xs i = Ok ((if snd (down lt ?s i ?n) then fst (down lt ?s i ?n) else up lt (fst (down lt ?s i ?n)) i) ! ?n,
          take ?n (if snd (down lt ?s i ?n) then fst (down lt ?s i ?n) else up lt (fst (down lt ?s i ?n)) i))"
        using i False by (simp add: heap_Remove_def split_beta Let_def)
    qed (use s i in \<open>simp_all add: nth_swap\<close>)
  qed
  have "mset xs = add_mset (xs ! i) (mset (take ?n ys))"
    using mset_take_last [of ys ?n] m l n assms(2) by simp
  with that [of "take ?n ys"] R n heap_from_take [OF h] l show thesis by simp
qed

lemma heap_Pop_heap:
  assumes "is_heap lt xs" and "xs \<noteq> []"
  obtains rest where "heap_Pop lt xs = Ok (xs ! 0, rest)" and "is_heap lt rest"
    and "mset xs = add_mset (xs ! 0) (mset rest)"
proof -
  let ?n = "length xs - 1" and ?s = "swap xs 0 (length xs - 1)"
  define ys where "ys = fst (down lt ?s 0 ?n)"
  have hn: "heap_from lt 0 ?n xs" using assms(1) by (auto simp: heap_from_def)
  have "hole lt 0 ?n 0 ?s" by (rule hole_update [OF hn]) (use assms(2) in \<open>auto simp: nth_swap\<close>)
  then have h: "heap_from lt 0 ?n ys" unfolding ys_def fst_down by (rule down_from_heap) (auto simp: above_ok_def)
  have m: "mset ys = mset xs" and l: "length ys = length xs" and n: "ys ! ?n = xs ! 0"
    using down_from_elems [of ?n ?s 0] assms(2) by (simp_all add: ys_def fst_down nth_swap)
  have "mset xs = add_mset (xs ! 0) (mset (take ?n ys))"
    using mset_take_last [of ys ?n] m l n assms(2) by simp
  moreover have "heap_Pop lt xs = Ok (ys ! ?n, take ?n ys)"
    using assms(2) by (simp add: heap_Pop_def Let_def ys_def)
  ultimately show thesis using that [of "take ?n ys"] n heap_from_take [OF h] l by simp
qed

end

end
