(* ===== verification/TxList.thy ===== *)
theory TxList
  imports Transaction GoHeap "HOL-Library.AList"
begin

text \<open>
  The transaction lists of the pool, \<^verbatim>\<open>core/txprocessor/tx_list.go\<close>: the map of an account's transactions with
  its heap of nonces and its cache of the sorted order (\<^verbatim>\<open>txSortedMap\<close>), the list of an account (\<^verbatim>\<open>txList\<close>) and
  the priority heap over the pool (\<^verbatim>\<open>txPriorityList\<close>).

  A Go map is an association list with distinct keys, in the order in which the runtime would iterate
  it; every theorem holds for every such order. \<^verbatim>\<open>sort.Sort\<close> on distinct nonces is \<open>sort_key\<close>. In the result
  of an operation \<open>Panic\<close> is a runtime panic and \<open>Err ()\<close> a nil transaction among the values returned;
  neither happens on a map that satisfies the invariant. The map of all transactions of the pool, to which
  the priority list holds a pointer, is an argument of the operations that read it, as is the
  membership test of the set of local accounts.
\<close>

subsection \<open>txSortedMap\<close>

type_synonym tx_items = "(u64 \<times> transaction) list"

record txSortedMap =
  sm_items :: tx_items
  sm_index :: "u64 list"
  sm_cache :: "transaction list option"

abbreviation nonce_less :: "u64 \<Rightarrow> u64 \<Rightarrow> bool" where
  "nonce_less a b \<equiv> a < b"

definition newTxSortedMap :: txSortedMap where
  "newTxSortedMap = \<lparr>sm_items = [], sm_index = [], sm_cache = None\<rparr>"

definition sm_Get :: "txSortedMap \<Rightarrow> u64 \<Rightarrow> transaction option" where
  "sm_Get m nonce = map_of (sm_items m) nonce"

definition sm_Put :: "txSortedMap \<Rightarrow> transaction \<Rightarrow> txSortedMap" where
  "sm_Put m tx =
     (let nonce = tx_Nonce tx;
          index = (if map_of (sm_items m) nonce = None then heap_Push nonce_less (sm_index m) nonce
                   else sm_index m)
      in \<lparr>sm_items = AList.update nonce tx (sm_items m), sm_index = index, sm_cache = None\<rparr>)"

definition item :: "tx_items \<Rightarrow> u64 \<Rightarrow> (unit, transaction) result" where
  "item items nonce = (case map_of items nonce of None \<Rightarrow> Err () | Some tx \<Rightarrow> Ok tx)"

lemma heap_Pop_shorter [termination_simp]: "heap_Pop lt xs = Ok (x, ys) \<Longrightarrow> length ys < length xs"
  by (cases xs) (auto simp: heap_Pop_def Let_def)

fun forward_loop ::
  "u64 \<Rightarrow> tx_items \<Rightarrow> u64 list \<Rightarrow> transaction list \<Rightarrow> (unit, transaction list \<times> tx_items \<times> u64 list) result" where
  "forward_loop threshold items index removed =
     (if index \<noteq> [] \<and> index ! 0 < threshold
      then bind_result (heap_Pop nonce_less index) (\<lambda>(nonce, index').
             bind_result (item items nonce) (\<lambda>tx.
               forward_loop threshold (AList.delete nonce items) index' (removed @ [tx])))
      else Ok (removed, items, index))"

declare forward_loop.simps [simp del]

definition sm_Forward :: "txSortedMap \<Rightarrow> u64 \<Rightarrow> (unit, transaction list \<times> txSortedMap) result" where
  "sm_Forward m threshold =
     bind_result (forward_loop threshold (sm_items m) (sm_index m) []) (\<lambda>(removed, items, index).
       let m' = m\<lparr>sm_items := items, sm_index := index\<rparr> in
       case sm_cache m of
         None \<Rightarrow> Ok (removed, m')
       | Some cache \<Rightarrow>
           if length cache < length removed then Panic
           else Ok (removed, m'\<lparr>sm_cache := Some (drop (length removed) cache)\<rparr>))"

definition sm_Filter :: "txSortedMap \<Rightarrow> (transaction \<Rightarrow> bool) \<Rightarrow> transaction list \<times> txSortedMap" where
  "sm_Filter m P =
     (let removed = map snd (filter (\<lambda>(_, tx). P tx) (sm_items m));
          items = filter (\<lambda>(_, tx). \<not> P tx) (sm_items m)
      in if length removed > 0
         then (removed, \<lparr>sm_items = items, sm_index = heap_Init nonce_less (map fst items), sm_cache = None\<rparr>)
         else (removed, m\<lparr>sm_items := items\<rparr>))"

fun cap_loop ::
  "nat \<Rightarrow> nat \<Rightarrow> tx_items \<Rightarrow> u64 list \<Rightarrow> transaction list \<Rightarrow> (unit, transaction list \<times> tx_items) result" where
  "cap_loop threshold n items index drops =
     (if n > threshold
      then if n - 1 \<ge> length index then Panic
           else bind_result (item items (index ! (n - 1))) (\<lambda>tx.
                  cap_loop threshold (n - 1) (AList.delete (index ! (n - 1)) items) index (drops @ [tx]))
      else Ok (drops, items))"

declare cap_loop.simps [simp del]

definition sm_Cap :: "txSortedMap \<Rightarrow> int \<Rightarrow> (unit, transaction list \<times> txSortedMap) result" where
  "sm_Cap m threshold =
     (if int (length (sm_items m)) \<le> threshold then Ok ([], m)
      else if threshold < 0 then Panic
      else let index = sort (sm_index m) in
        bind_result (cap_loop (nat threshold) (length (sm_items m)) (sm_items m) index []) (\<lambda>(drops, items).
          let m' = m\<lparr>sm_items := items, sm_index := heap_Init nonce_less (take (nat threshold) index)\<rparr> in
          case sm_cache m of
            None \<Rightarrow> Ok (drops, m')
          | Some cache \<Rightarrow>
              if length cache < length drops then Panic
              else Ok (drops, m'\<lparr>sm_cache := Some (take (length cache - length drops) cache)\<rparr>)))"

fun find_index :: "u64 \<Rightarrow> u64 list \<Rightarrow> nat \<Rightarrow> nat option" where
  "find_index nonce [] i = None"
| "find_index nonce (x # xs) i = (if x = nonce then Some i else find_index nonce xs (Suc i))"

definition sm_Remove :: "txSortedMap \<Rightarrow> u64 \<Rightarrow> (unit, bool \<times> txSortedMap) result" where
  "sm_Remove m nonce =
     (case map_of (sm_items m) nonce of
        None \<Rightarrow> Ok (False, m)
      | Some _ \<Rightarrow>
          bind_result
            (case find_index nonce (sm_index m) 0 of
               None \<Rightarrow> Ok (sm_index m)
             | Some i \<Rightarrow> bind_result (heap_Remove nonce_less (sm_index m) i) (\<lambda>(_, index). Ok index))
            (\<lambda>index. Ok (True, \<lparr>sm_items = AList.delete nonce (sm_items m), sm_index = index, sm_cache = None\<rparr>)))"

fun ready_loop ::
  "u64 \<Rightarrow> tx_items \<Rightarrow> u64 list \<Rightarrow> transaction list \<Rightarrow> (unit, transaction list \<times> tx_items \<times> u64 list) result" where
  "ready_loop next items index ready =
     (if index \<noteq> [] \<and> index ! 0 = next
      then bind_result (item items next) (\<lambda>tx.
             bind_result (heap_Pop nonce_less index) (\<lambda>(_, index').
               ready_loop (next + 1) (AList.delete next items) index' (ready @ [tx])))
      else Ok (ready, items, index))"

declare ready_loop.simps [simp del]

definition sm_Ready :: "txSortedMap \<Rightarrow> u64 \<Rightarrow> (unit, transaction list \<times> txSortedMap) result" where
  "sm_Ready m start =
     (if sm_index m = [] \<or> sm_index m ! 0 > start then Ok ([], m)
      else bind_result (ready_loop (sm_index m ! 0) (sm_items m) (sm_index m) []) (\<lambda>(ready, items, index).
             Ok (ready, \<lparr>sm_items = items, sm_index = index, sm_cache = None\<rparr>)))"

definition sm_Len :: "txSortedMap \<Rightarrow> nat" where
  "sm_Len m = length (sm_items m)"

definition sm_Flatten :: "txSortedMap \<Rightarrow> transaction list \<times> txSortedMap" where
  "sm_Flatten m =
     (let cache = (case sm_cache m of
                     None \<Rightarrow> sort_key tx_Nonce (map snd (sm_items m))
                   | Some c \<Rightarrow> c)
      in (cache, m\<lparr>sm_cache := Some cache\<rparr>))"

subsection \<open>txList\<close>

record txList =
  l_strict :: bool
  l_txs :: txSortedMap
  l_priority :: int

definition newTxList :: "bool \<Rightarrow> txList" where
  "newTxList strict = \<lparr>l_strict = strict, l_txs = newTxSortedMap, l_priority = 0\<rparr>"

definition l_Overlaps :: "txList \<Rightarrow> transaction \<Rightarrow> bool" where
  "l_Overlaps l tx \<longleftrightarrow> sm_Get (l_txs l) (tx_Nonce tx) \<noteq> None"

definition l_Add :: "txList \<Rightarrow> transaction \<Rightarrow> (unit, (bool \<times> transaction option) \<times> txList) result" where
  "l_Add l tx =
     (let old = sm_Get (l_txs l) (tx_Nonce tx) in
      bind_result
        (case old of
           None \<Rightarrow> Ok True
         | Some o' \<Rightarrow> bind_result (GetPriority o') (\<lambda>po. bind_result (GetPriority tx) (\<lambda>pt. Ok (\<not> po \<ge> pt))))
        (\<lambda>better.
           if \<not> better then Ok ((False, None), l)
           else bind_result (GetPriority tx) (\<lambda>priority.
             Ok ((True, old),
                 l\<lparr>l_txs := sm_Put (l_txs l) tx,
                   l_priority := (if l_priority l < priority then priority else l_priority l)\<rparr>))))"

definition l_Forward :: "txList \<Rightarrow> u64 \<Rightarrow> (unit, transaction list \<times> txList) result" where
  "l_Forward l threshold =
     bind_result (sm_Forward (l_txs l) threshold) (\<lambda>(removed, m). Ok (removed, l\<lparr>l_txs := m\<rparr>))"

definition prio :: "transaction \<Rightarrow> int" where
  "prio tx = (case Priority tx of None \<Rightarrow> 0 | Some p \<Rightarrow> big_Int64 p)"

definition lowest_nonce :: "transaction list \<Rightarrow> u64" where
  "lowest_nonce removed = foldl (\<lambda>lowest tx. if lowest > tx_Nonce tx then tx_Nonce tx else lowest) (- 1) removed"

definition l_Filter ::
  "txList \<Rightarrow> int \<Rightarrow> (unit, (transaction list \<times> transaction list) \<times> txList) result" where
  "l_Filter l priority =
     (if l_priority l \<le> priority then Ok (([], []), l)
      else if \<exists>(_, tx) \<in> set (sm_items (l_txs l)). Priority tx = None then Panic
      else let (removed, m) = sm_Filter (l_txs l) (\<lambda>tx. prio tx > priority);
               (invalids, m') =
                 (if l_strict l \<and> length removed > 0
                  then sm_Filter m (\<lambda>tx. tx_Nonce tx > lowest_nonce removed) else ([], m))
           in Ok ((removed, invalids), l\<lparr>l_txs := m', l_priority := priority\<rparr>))"

definition l_Cap :: "txList \<Rightarrow> int \<Rightarrow> (unit, transaction list \<times> txList) result" where
  "l_Cap l threshold = bind_result (sm_Cap (l_txs l) threshold) (\<lambda>(drops, m). Ok (drops, l\<lparr>l_txs := m\<rparr>))"

definition l_Remove :: "txList \<Rightarrow> transaction \<Rightarrow> (unit, (bool \<times> transaction list) \<times> txList) result" where
  "l_Remove l tx =
     (let nonce = tx_Nonce tx in
      bind_result (sm_Remove (l_txs l) nonce) (\<lambda>(removed, m).
        if \<not> removed then Ok ((False, []), l\<lparr>l_txs := m\<rparr>)
        else if l_strict l
        then let (invalids, m') = sm_Filter m (\<lambda>t. tx_Nonce t > nonce) in Ok ((True, invalids), l\<lparr>l_txs := m'\<rparr>)
        else Ok ((True, []), l\<lparr>l_txs := m\<rparr>)))"

definition l_Ready :: "txList \<Rightarrow> u64 \<Rightarrow> (unit, transaction list \<times> txList) result" where
  "l_Ready l start = bind_result (sm_Ready (l_txs l) start) (\<lambda>(ready, m). Ok (ready, l\<lparr>l_txs := m\<rparr>))"

definition l_Len :: "txList \<Rightarrow> nat" where
  "l_Len l = sm_Len (l_txs l)"

definition l_Empty :: "txList \<Rightarrow> bool" where
  "l_Empty l \<longleftrightarrow> l_Len l = 0"

definition l_Flatten :: "txList \<Rightarrow> transaction list \<times> txList" where
  "l_Flatten l = (let (txs, m) = sm_Flatten (l_txs l) in (txs, l\<lparr>l_txs := m\<rparr>))"

subsection \<open>txPriorityList\<close>

type_synonym tx_pool_all = "(hash \<times> transaction) list"

record txPriorityList =
  p_items :: "transaction list"
  p_stales :: int

text \<open>\<^verbatim>\<open>priorityHeap.Less\<close>; the transactions of the heap have a priority.\<close>

definition prio_less :: "transaction \<Rightarrow> transaction \<Rightarrow> bool" where
  "prio_less a b \<longleftrightarrow> prio a < prio b"

definition newTxPriorityList :: txPriorityList where
  "newTxPriorityList = \<lparr>p_items = [], p_stales = 0\<rparr>"

definition p_Put :: "txPriorityList \<Rightarrow> transaction \<Rightarrow> txPriorityList" where
  "p_Put l tx = l\<lparr>p_items := heap_Push prio_less (p_items l) tx\<rparr>"

definition p_Removed :: "tx_pool_all \<Rightarrow> txPriorityList \<Rightarrow> txPriorityList" where
  "p_Removed all l =
     (let stales = p_stales l + 1 in
      if stales \<le> int (length (p_items l) div 4) then l\<lparr>p_stales := stales\<rparr>
      else \<lparr>p_items = heap_Init prio_less (map snd all), p_stales = 0\<rparr>)"

fun p_cap_loop ::
  "(transaction \<Rightarrow> bool) \<Rightarrow> (transaction \<Rightarrow> bool) \<Rightarrow> int \<Rightarrow> transaction list \<Rightarrow> int \<Rightarrow> transaction list \<Rightarrow> transaction list
   \<Rightarrow> (unit, transaction list \<times> int \<times> transaction list \<times> transaction list) result" where
  "p_cap_loop live local threshold items stales drop' save =
     (if items \<noteq> []
      then bind_result (heap_Pop prio_less items) (\<lambda>(tx, items').
             if \<not> live tx then p_cap_loop live local threshold items' (stales - 1) drop' save
             else if prio tx \<ge> threshold then Ok (items', stales, drop', save @ [tx])
             else if local tx then p_cap_loop live local threshold items' stales drop' (save @ [tx])
             else p_cap_loop live local threshold items' stales (drop' @ [tx]) save)
      else Ok (items, stales, drop', save))"

fun p_discard_loop ::
  "(transaction \<Rightarrow> bool) \<Rightarrow> (transaction \<Rightarrow> bool) \<Rightarrow> int \<Rightarrow> transaction list \<Rightarrow> int \<Rightarrow> transaction list \<Rightarrow> transaction list
   \<Rightarrow> (unit, transaction list \<times> int \<times> transaction list \<times> transaction list) result" where
  "p_discard_loop live local cnt items stales drop' save =
     (if items \<noteq> [] \<and> cnt > 0
      then bind_result (heap_Pop prio_less items) (\<lambda>(tx, items').
             if \<not> live tx then p_discard_loop live local cnt items' (stales - 1) drop' save
             else if local tx then p_discard_loop live local cnt items' stales drop' (save @ [tx])
             else p_discard_loop live local (cnt - 1) items' stales (drop' @ [tx]) save)
      else Ok (items, stales, drop', save))"

fun p_stale_loop :: "(transaction \<Rightarrow> bool) \<Rightarrow> transaction list \<Rightarrow> int \<Rightarrow> (unit, transaction list \<times> int) result" where
  "p_stale_loop live items stales =
     (if items \<noteq> [] \<and> \<not> live (items ! 0)
      then bind_result (heap_Pop prio_less items) (\<lambda>(_, items'). p_stale_loop live items' (stales - 1))
      else Ok (items, stales))"

declare p_cap_loop.simps [simp del] p_discard_loop.simps [simp del] p_stale_loop.simps [simp del]

text \<open>\<open>H\<close> is the hash of a transaction, \<open>local\<close> the test \<^verbatim>\<open>accountSet.containsTx\<close>.\<close>

definition live_in :: "(transaction \<Rightarrow> hash) \<Rightarrow> tx_pool_all \<Rightarrow> transaction \<Rightarrow> bool" where
  "live_in H all tx \<longleftrightarrow> map_of all (H tx) \<noteq> None"

definition push_all :: "transaction list \<Rightarrow> transaction list \<Rightarrow> transaction list" where
  "push_all items save = foldl (heap_Push prio_less) items save"

definition p_Cap ::
  "(transaction \<Rightarrow> hash) \<Rightarrow> tx_pool_all \<Rightarrow> txPriorityList \<Rightarrow> int \<Rightarrow> (transaction \<Rightarrow> bool)
   \<Rightarrow> (unit, transaction list \<times> txPriorityList) result" where
  "p_Cap H all l threshold local =
     bind_result (p_cap_loop (live_in H all) local threshold (p_items l) (p_stales l) [] [])
       (\<lambda>(items, stales, drop', save). Ok (drop', \<lparr>p_items = push_all items save, p_stales = stales\<rparr>))"

definition p_Underpriority ::
  "(transaction \<Rightarrow> hash) \<Rightarrow> tx_pool_all \<Rightarrow> txPriorityList \<Rightarrow> transaction \<Rightarrow> (transaction \<Rightarrow> bool)
   \<Rightarrow> (unit, bool \<times> txPriorityList) result" where
  "p_Underpriority H all l tx local =
     (if local tx then Ok (False, l)
      else bind_result (p_stale_loop (live_in H all) (p_items l) (p_stales l)) (\<lambda>(items, stales).
             let l' = \<lparr>p_items = items, p_stales = stales\<rparr> in
             if items = [] then Ok (False, l') else Ok (prio (items ! 0) \<ge> prio tx, l')))"

definition p_Discard ::
  "(transaction \<Rightarrow> hash) \<Rightarrow> tx_pool_all \<Rightarrow> txPriorityList \<Rightarrow> int \<Rightarrow> (transaction \<Rightarrow> bool)
   \<Rightarrow> (unit, transaction list \<times> txPriorityList) result" where
  "p_Discard H all l cnt local =
     bind_result (p_discard_loop (live_in H all) local cnt (p_items l) (p_stales l) [] [])
       (\<lambda>(items, stales, drop', save). Ok (drop', \<lparr>p_items = push_all items save, p_stales = stales\<rparr>))"

end
