(* ===== verification/TxListProofs.thy ===== *)
theory TxListProofs
  imports TxList
begin

text \<open>
  The sorted map of an account's transactions implements a list sorted by nonce: for every sequence of
  operations the heap of nonces, the map and the cache stay consistent, no operation panics on them, and
  the values returned are those of the same operations on the sorted list. The two heap orders of the pool
  interpret the contract of \<^verbatim>\<open>container/heap\<close>.
\<close>

subsection \<open>The heaps\<close>

interpretation nonce_heap: heap_order nonce_less
  by unfold_locales auto

interpretation prio_heap: heap_order prio_less
  by unfold_locales (auto simp: prio_less_def)

subsection \<open>Invariant and abstraction\<close>

definition items_ok :: "tx_items \<Rightarrow> bool" where
  "items_ok items \<longleftrightarrow> distinct (map fst items) \<and> (\<forall>(n, tx) \<in> set items. tx_Nonce tx = n)"

definition index_ok :: "tx_items \<Rightarrow> u64 list \<Rightarrow> bool" where
  "index_ok items index \<longleftrightarrow> mset index = mset (map fst items) \<and> is_heap nonce_less index"

definition txs_of :: "tx_items \<Rightarrow> transaction list" where
  "txs_of items = sort_key tx_Nonce (map snd items)"

definition sm_inv :: "txSortedMap \<Rightarrow> bool" where
  "sm_inv m \<longleftrightarrow> items_ok (sm_items m) \<and> index_ok (sm_items m) (sm_index m) \<and>
     (case sm_cache m of None \<Rightarrow> True | Some c \<Rightarrow> c = txs_of (sm_items m))"

abbreviation flat :: "txSortedMap \<Rightarrow> transaction list" where
  "flat m \<equiv> txs_of (sm_items m)"

lemma items_ok_nonces: "items_ok items \<Longrightarrow> map (tx_Nonce \<circ> snd) items = map fst items"
  by (auto simp: items_ok_def)

lemma items_ok_inj: "items_ok items \<Longrightarrow> inj_on tx_Nonce (snd ` set items)"
  using arg_cong [OF items_ok_nonces, of items distinct] distinct_map [of tx_Nonce "map snd items"]
  by (auto simp: items_ok_def simp del: map_eq_conv)

lemma items_ok_filter: "items_ok items \<Longrightarrow> items_ok (filter P items)"
  by (auto simp: items_ok_def distinct_map_filter)

lemma mset_txs_of [simp]: "mset (txs_of items) = mset (map snd items)"
  by (simp add: txs_of_def)

lemma set_txs_of [simp]: "set (txs_of items) = snd ` set items"
  by (simp add: txs_of_def)

lemma length_txs_of [simp]: "length (txs_of items) = length items"
  by (simp add: txs_of_def)

lemma sorted_txs_of: "sorted (map tx_Nonce (txs_of items))"
  by (simp add: txs_of_def)

lemma txs_ofI:
  assumes "items_ok items" and "mset ys = mset (map snd items)" and "sorted (map tx_Nonce ys)"
  shows "txs_of items = ys"
  unfolding txs_of_def using assms items_ok_inj by (intro sort_key_inj_key_eq) auto

lemma map_nonce_txs_of: "items_ok items \<Longrightarrow> map tx_Nonce (txs_of items) = sort (map fst items)"
proof (rule properties_for_sort [symmetric])
  assume "items_ok items"
  have "mset (map tx_Nonce (txs_of items)) = mset (map (tx_Nonce \<circ> snd) items)"
    by (simp add: image_mset.compositionality)
  then show "mset (map tx_Nonce (txs_of items)) = mset (map fst items)"
    by (simp only: items_ok_nonces [OF \<open>items_ok items\<close>])
qed (rule sorted_txs_of)

lemma distinct_nonces: "items_ok items \<Longrightarrow> distinct (map tx_Nonce (txs_of items))"
  by (simp add: map_nonce_txs_of items_ok_def)

lemma txs_of_filter:
  assumes "items_ok items"
  shows "txs_of (filter (\<lambda>(_, tx). P tx) items) = filter P (txs_of items)"
proof (rule txs_ofI)
  have "mset (filter P (txs_of items)) = filter_mset P (mset (map snd items))" by simp
  also have "\<dots> = mset (filter P (map snd items))" by (simp only: mset_filter)
  finally show "mset (filter P (txs_of items)) = mset (map snd (filter (\<lambda>(_, tx). P tx) items))"
    by (simp add: filter_map o_def case_prod_beta)
qed (use assms sorted_txs_of in \<open>auto simp: items_ok_filter sorted_filter\<close>)

lemma filter_key:
  assumes "items_ok items"
  shows "filter (\<lambda>(n, _). Q n) items = filter (\<lambda>(_, tx). Q (tx_Nonce tx)) items"
  using assms by (intro filter_cong) (auto simp: items_ok_def)

lemma delete_filter: "AList.delete n items = filter (\<lambda>(k, _). k \<noteq> n) items"
  by (auto simp: AList.delete_eq intro!: filter_cong)

lemma txs_of_delete:
  "items_ok items \<Longrightarrow> txs_of (AList.delete n items) = filter (\<lambda>tx. tx_Nonce tx \<noteq> n) (txs_of items)"
  by (simp add: delete_filter filter_key txs_of_filter)

lemma items_ok_delete: "items_ok items \<Longrightarrow> items_ok (AList.delete n items)"
  by (simp add: delete_filter items_ok_filter)

lemma item_Ok:
  assumes "items_ok items" and "tx \<in> set (txs_of items)"
  shows "item items (tx_Nonce tx) = Ok tx" and "map_of items (tx_Nonce tx) = Some tx"
proof -
  have "(tx_Nonce tx, tx) \<in> set items" using assms by (auto simp: items_ok_def)
  then show "map_of items (tx_Nonce tx) = Some tx" using assms(1) by (simp add: items_ok_def)
  then show "item items (tx_Nonce tx) = Ok tx" by (simp add: item_def)
qed

subsection \<open>The operations on the sorted list\<close>

lemma index_head:
  assumes "items_ok items" and "index_ok items index" and "index \<noteq> []"
  obtains tx txs where "txs_of items = tx # txs" and "index ! 0 = tx_Nonce tx"
    and "\<And>t. t \<in> set txs \<Longrightarrow> tx_Nonce tx < tx_Nonce t"
proof -
  have ms: "mset index = mset (map tx_Nonce (txs_of items))"
    using assms(1,2) by (simp add: index_ok_def map_nonce_txs_of)
  then obtain tx txs where t: "txs_of items = tx # txs" using assms(3) by (cases "txs_of items") auto
  have s: "\<forall>t\<in>set txs. tx_Nonce tx < tx_Nonce t"
    using sorted_txs_of [of items] distinct_nonces [OF assms(1)] by (auto simp: t order.strict_iff_order)
  have set: "set index = tx_Nonce ` set (tx # txs)"
    using arg_cong [OF ms, of set_mset] by (simp add: t)
  have "index ! 0 \<in> tx_Nonce ` set (tx # txs)" using assms(3) set nth_mem [of 0 index] by auto
  moreover have "\<not> tx_Nonce tx < index ! 0"
    using nonce_heap.is_heap_hd_least [of index "tx_Nonce tx"] assms(2) set by (simp add: index_ok_def)
  ultimately have "index ! 0 = tx_Nonce tx" using s by auto
  then show thesis using that t s by blast
qed

lemma index_empty: "index_ok items [] \<Longrightarrow> items = []"
  by (simp add: index_ok_def)

lemma pop_step:
  assumes "items_ok items" and "index_ok items index" and "index \<noteq> []"
  obtains tx txs index' where "txs_of items = tx # txs" and "index ! 0 = tx_Nonce tx"
    and "\<forall>t\<in>set txs. tx_Nonce tx < tx_Nonce t"
    and "heap_Pop nonce_less index = Ok (tx_Nonce tx, index')" and "item items (tx_Nonce tx) = Ok tx"
    and "items_ok (AList.delete (tx_Nonce tx) items)" and "index_ok (AList.delete (tx_Nonce tx) items) index'"
    and "txs_of (AList.delete (tx_Nonce tx) items) = txs"
proof -
  obtain tx txs where t: "txs_of items = tx # txs" and h: "index ! 0 = tx_Nonce tx"
    and s: "\<And>t. t \<in> set txs \<Longrightarrow> tx_Nonce tx < tx_Nonce t"
    using index_head [OF assms] by metis
  obtain index' where p: "heap_Pop nonce_less index = Ok (index ! 0, index')" "is_heap nonce_less index'"
    "mset index = add_mset (index ! 0) (mset index')"
    using nonce_heap.heap_Pop_heap [of index] assms(2,3) by (auto simp: index_ok_def)
  let ?items = "AList.delete (tx_Nonce tx) items"
  have d: "items_ok ?items" using items_ok_delete [OF assms(1)] .
  have txs: "txs_of ?items = txs"
    using s by (force simp: txs_of_delete [OF assms(1)] t intro: filter_True)
  have "mset (map fst ?items) = mset (map tx_Nonce txs)"
    using map_nonce_txs_of [OF d] by (simp add: txs flip: mset_map)
  moreover have "mset index = mset (map tx_Nonce (txs_of items))"
    using assms(1,2) by (simp add: index_ok_def map_nonce_txs_of)
  ultimately have "index_ok ?items index'" using p h by (simp add: index_ok_def t)
  then show thesis using that [OF t h] s p h d txs item_Ok(1) [OF assms(1), of tx] t by simp
qed

lemma forward_loop_spec:
  assumes "items_ok items" and "index_ok items index"
  shows "\<exists>items' index'. forward_loop th items index acc =
      Ok (acc @ takeWhile (\<lambda>tx. tx_Nonce tx < th) (txs_of items), items', index') \<and>
    items_ok items' \<and> index_ok items' index' \<and> txs_of items' = dropWhile (\<lambda>tx. tx_Nonce tx < th) (txs_of items)"
  using assms
proof (induction "length index" arbitrary: items index acc rule: less_induct)
  case less
  show ?case
  proof (cases "index = []")
    case True
    then show ?thesis using less.prems index_empty [of items]
      by (subst forward_loop.simps) (simp add: txs_of_def)
  next
    case False
    obtain tx txs index' where t: "txs_of items = tx # txs" "index ! 0 = tx_Nonce tx"
      and step: "heap_Pop nonce_less index = Ok (tx_Nonce tx, index')" "item items (tx_Nonce tx) = Ok tx"
        "items_ok (AList.delete (tx_Nonce tx) items)" "index_ok (AList.delete (tx_Nonce tx) items) index'"
        "txs_of (AList.delete (tx_Nonce tx) items) = txs"
      by (rule pop_step [OF less.prems False])
    show ?thesis
    proof (cases "tx_Nonce tx < th")
      case True
      show ?thesis
        using less.hyps [OF heap_Pop_shorter [OF step(1)] step(3,4), of "acc @ [tx]"] step True t False
        by (subst forward_loop.simps) simp
    next
      case ge: False
      then show ?thesis using less.prems t by (subst forward_loop.simps) simp
    qed
  qed
qed

fun run_from :: "u64 \<Rightarrow> transaction list \<Rightarrow> transaction list" where
  "run_from n [] = []"
| "run_from n (tx # txs) = (if tx_Nonce tx = n then tx # run_from (n + 1) txs else [])"

lemma ready_loop_spec:
  assumes "items_ok items" and "index_ok items index"
  shows "\<exists>items' index'. ready_loop n items index acc = Ok (acc @ run_from n (txs_of items), items', index') \<and>
    items_ok items' \<and> index_ok items' index' \<and> txs_of items' = drop (length (run_from n (txs_of items))) (txs_of items)"
  using assms
proof (induction "length index" arbitrary: n items index acc rule: less_induct)
  case less
  show ?case
  proof (cases "index = []")
    case True
    then show ?thesis using less.prems index_empty [of items]
      by (subst ready_loop.simps) (simp add: txs_of_def)
  next
    case False
    obtain tx txs index' where t: "txs_of items = tx # txs" "index ! 0 = tx_Nonce tx"
      and step: "heap_Pop nonce_less index = Ok (tx_Nonce tx, index')" "item items (tx_Nonce tx) = Ok tx"
        "items_ok (AList.delete (tx_Nonce tx) items)" "index_ok (AList.delete (tx_Nonce tx) items) index'"
        "txs_of (AList.delete (tx_Nonce tx) items) = txs"
      by (rule pop_step [OF less.prems False])
    show ?thesis
    proof (cases "tx_Nonce tx = n")
      case True
      show ?thesis
        using less.hyps [OF heap_Pop_shorter [OF step(1)] step(3,4), of "n + 1" "acc @ [tx]"] step True t False
        by (subst ready_loop.simps) simp
    next
      case ge: False
      then show ?thesis using less.prems t by (subst ready_loop.simps) simp
    qed
  qed
qed

lemma takeWhile_sorted_length:
  "length (takeWhile P xs) \<le> length xs" "drop (length (takeWhile P xs)) xs = dropWhile P xs"
  by (simp_all add: length_takeWhile_le dropWhile_eq_drop)

lemma sm_Forward_spec:
  assumes "sm_inv m"
  obtains m' where "sm_Forward m th = Ok (takeWhile (\<lambda>tx. tx_Nonce tx < th) (flat m), m')" and "sm_inv m'"
    and "flat m' = dropWhile (\<lambda>tx. tx_Nonce tx < th) (flat m)"
proof -
  obtain items index where F: "forward_loop th (sm_items m) (sm_index m) [] =
      Ok (takeWhile (\<lambda>tx. tx_Nonce tx < th) (flat m), items, index)"
    and ok: "items_ok items" "index_ok items index" "txs_of items = dropWhile (\<lambda>tx. tx_Nonce tx < th) (flat m)"
    using forward_loop_spec [of "sm_items m" "sm_index m" th "[]"] assms by (auto simp: sm_inv_def)
  show thesis
  proof (cases "sm_cache m")
    case None
    then show ?thesis using F ok
      by (intro that [of "m\<lparr>sm_items := items, sm_index := index\<rparr>"]) (auto simp: sm_Forward_def sm_inv_def)
  next
    case (Some c)
    then have "c = flat m" using assms by (simp add: sm_inv_def)
    then show ?thesis using F ok Some takeWhile_sorted_length [where xs = "flat m" and P = "\<lambda>tx. tx_Nonce tx < th"]
      by (intro that [of "m\<lparr>sm_items := items, sm_index := index, sm_cache := Some (txs_of items)\<rparr>"])
        (auto simp: sm_Forward_def sm_inv_def)
  qed
qed

lemma sm_Filter_spec:
  assumes "sm_inv m"
  shows "mset (fst (sm_Filter m P)) = mset (filter P (flat m))" and "sm_inv (snd (sm_Filter m P))"
    and "flat (snd (sm_Filter m P)) = filter (\<lambda>tx. \<not> P tx) (flat m)"
proof -
  have ok: "items_ok (sm_items m)" using assms by (simp add: sm_inv_def)
  let ?keep = "filter (\<lambda>(_, tx). \<not> P tx) (sm_items m)" and ?rem = "filter (\<lambda>(_, tx). P tx) (sm_items m)"
  have keep: "sm_items (snd (sm_Filter m P)) = ?keep" by (simp add: sm_Filter_def Let_def)
  show "flat (snd (sm_Filter m P)) = filter (\<lambda>tx. \<not> P tx) (flat m)"
    unfolding keep by (rule txs_of_filter [OF ok])
  have rem: "fst (sm_Filter m P) = map snd ?rem" by (simp add: sm_Filter_def Let_def)
  have "mset (map snd ?rem) = mset (txs_of ?rem)" by (simp only: mset_txs_of)
  then show "mset (fst (sm_Filter m P)) = mset (filter P (flat m))"
    unfolding txs_of_filter [OF ok] rem .
  show "sm_inv (snd (sm_Filter m P))"
  proof (cases "?rem = []")
    case True
    then have "?keep = sm_items m" by (auto simp: filter_empty_conv intro!: filter_True)
    then show ?thesis using assms True by (simp add: sm_Filter_def Let_def)
  next
    case False
    then show ?thesis
      using nonce_heap.heap_Init_heap [of "map fst ?keep"] items_ok_filter [OF ok]
      by (simp add: sm_Filter_def Let_def sm_inv_def index_ok_def)
  qed
qed

lemma sm_Flatten_spec:
  assumes "sm_inv m"
  shows "fst (sm_Flatten m) = flat m" and "sm_inv (snd (sm_Flatten m))" and "flat (snd (sm_Flatten m)) = flat m"
  using assms by (auto simp: sm_Flatten_def sm_inv_def txs_of_def Let_def split: option.splits)

definition spec_ready :: "u64 \<Rightarrow> transaction list \<Rightarrow> transaction list" where
  "spec_ready start l =
     (case l of [] \<Rightarrow> [] | tx # _ \<Rightarrow> if tx_Nonce tx > start then [] else run_from (tx_Nonce tx) l)"

lemma sm_Ready_spec:
  assumes "sm_inv m"
  obtains m' where "sm_Ready m start = Ok (spec_ready start (flat m), m')" and "sm_inv m'"
    and "flat m' = drop (length (spec_ready start (flat m))) (flat m)"
proof (cases "sm_index m = []")
  case True
  then have "flat m = []" using assms(1) index_empty [of "sm_items m"] by (auto simp: sm_inv_def txs_of_def)
  then show thesis using that [of m] True assms(1) by (simp add: sm_Ready_def spec_ready_def)
next
  case False
  have ok: "items_ok (sm_items m)" "index_ok (sm_items m) (sm_index m)" using assms(1) by (simp_all add: sm_inv_def)
  obtain tx txs where t: "flat m = tx # txs" "sm_index m ! 0 = tx_Nonce tx"
    using index_head [OF ok False] by metis
  obtain items index where R: "ready_loop (tx_Nonce tx) (sm_items m) (sm_index m) [] =
      Ok (run_from (tx_Nonce tx) (flat m), items, index)"
    and ok': "items_ok items" "index_ok items index"
      "txs_of items = drop (length (run_from (tx_Nonce tx) (flat m))) (flat m)"
    using ready_loop_spec [OF ok, of "tx_Nonce tx" "[]"] by auto
  show thesis
  proof (cases "tx_Nonce tx > start")
    case True
    then show ?thesis using that [of m] t False assms(1) by (simp add: sm_Ready_def spec_ready_def)
  next
    case ge: False
    then have "spec_ready start (flat m) = run_from (tx_Nonce tx) (flat m)" by (simp add: spec_ready_def t(1))
    then show ?thesis
      using that [of "\<lparr>sm_items = items, sm_index = index, sm_cache = None\<rparr>"] R ok' ge t(2) False
      by (simp add: sm_Ready_def sm_inv_def)
  qed
qed

lemma delete_absent: "n \<notin> fst ` set items \<Longrightarrow> AList.delete n items = items"
  by (force simp: delete_filter intro!: filter_True)

lemma delete_keys:
  "distinct (map fst items) \<Longrightarrow> n \<in> fst ` set items \<Longrightarrow>
     mset (map fst items) = add_mset n (mset (map fst (AList.delete n items)))"
proof (induction items)
  case (Cons a items)
  then show ?case using delete_absent [of n items] by (cases a) auto
qed simp

lemma update_mset:
  "distinct (map fst items) \<Longrightarrow>
     mset (map snd (AList.update n tx items)) = add_mset tx (mset (map snd (AList.delete n items)))"
proof (induction items)
  case (Cons a items)
  then show ?case using delete_absent [of n items] by (cases a) auto
qed simp

lemma items_ok_update:
  assumes "items_ok items"
  shows "items_ok (AList.update (tx_Nonce tx) tx items)"
proof -
  have "distinct (map fst (AList.update (tx_Nonce tx) tx items))"
    using assms by (simp add: items_ok_def distinct_update)
  moreover have "set (AList.update n tx items) \<subseteq> insert (n, tx) (set items)" for n
    by (induction items) auto
  ultimately show ?thesis using assms unfolding items_ok_def by fastforce
qed

lemma sm_Put_spec:
  assumes "sm_inv m"
  shows "sm_inv (sm_Put m tx)"
    and "flat (sm_Put m tx) = insort_key tx_Nonce tx (filter (\<lambda>t. tx_Nonce t \<noteq> tx_Nonce tx) (flat m))"
proof -
  let ?n = "tx_Nonce tx" and ?items = "sm_items m"
  have ok: "items_ok ?items" "index_ok ?items (sm_index m)" using assms by (simp_all add: sm_inv_def)
  have u: "items_ok (AList.update ?n tx ?items)" by (rule items_ok_update [OF ok(1)])
  have "mset (insort_key tx_Nonce tx (txs_of (AList.delete ?n ?items))) = mset (map snd (AList.update ?n tx ?items))"
    using update_mset [of ?items ?n tx] ok(1) by (simp add: items_ok_def)
  moreover have "sorted (map tx_Nonce (insort_key tx_Nonce tx (txs_of (AList.delete ?n ?items))))"
    by (simp add: sorted_insort_key sorted_txs_of)
  ultimately have "txs_of (AList.update ?n tx ?items) = insort_key tx_Nonce tx (txs_of (AList.delete ?n ?items))"
    by (rule txs_ofI [OF u])
  then show "flat (sm_Put m tx) = insort_key tx_Nonce tx (filter (\<lambda>t. tx_Nonce t \<noteq> ?n) (flat m))"
    by (simp add: sm_Put_def Let_def txs_of_delete [OF ok(1)])
  have "index_ok (AList.update ?n tx ?items)
      (if map_of ?items ?n = None then heap_Push nonce_less (sm_index m) ?n else sm_index m)"
    using ok(2) nonce_heap.heap_Push_heap [of "sm_index m" ?n]
    by (simp add: index_ok_def update_keys map_of_eq_None_iff)
  then show "sm_inv (sm_Put m tx)" using u by (simp add: sm_Put_def sm_inv_def Let_def)
qed

lemma find_index_Some:
  "nonce \<in> set xs \<Longrightarrow> \<exists>k. find_index nonce xs i = Some (i + k) \<and> k < length xs \<and> xs ! k = nonce"
proof (induction xs arbitrary: i)
  case (Cons x xs)
  show ?case
  proof (cases "x = nonce")
    case False
    then obtain k where "find_index nonce xs (Suc i) = Some (Suc i + k)" "k < length xs" "xs ! k = nonce"
      using Cons.IH [of "Suc i"] Cons.prems False by auto
    then show ?thesis using False by (intro exI [of _ "Suc k"]) simp
  qed simp
qed simp

lemma sm_Remove_spec:
  assumes "sm_inv m"
  obtains m' where "sm_Remove m n = Ok (n \<in> tx_Nonce ` set (flat m), m')" and "sm_inv m'"
    and "flat m' = filter (\<lambda>t. tx_Nonce t \<noteq> n) (flat m)"
proof -
  let ?items = "sm_items m"
  have ok: "items_ok ?items" "index_ok ?items (sm_index m)" using assms by (simp_all add: sm_inv_def)
  have keys: "n \<in> tx_Nonce ` set (flat m) \<longleftrightarrow> n \<in> fst ` set ?items"
    using ok(1) by (force simp: items_ok_def)
  show thesis
  proof (cases "map_of ?items n")
    case None
    then have "n \<notin> tx_Nonce ` set (flat m)" using keys by (simp add: map_of_eq_None_iff)
    moreover from this have "filter (\<lambda>t. tx_Nonce t \<noteq> n) (flat m) = flat m" by (intro filter_True) auto
    ultimately show ?thesis using that [of m] None assms by (simp add: sm_Remove_def)
  next
    case (Some tx)
    then have n: "n \<in> fst ` set ?items" by (force dest: map_of_SomeD)
    then have "n \<in> set (sm_index m)"
      using ok(2) mset_eq_setD [of "sm_index m" "map fst ?items"] by (simp add: index_ok_def)
    then obtain k where k: "find_index n (sm_index m) 0 = Some k" "k < length (sm_index m)" "sm_index m ! k = n"
      using find_index_Some [of n "sm_index m" 0] by auto
    obtain rest where rest: "heap_Remove nonce_less (sm_index m) k = Ok (n, rest)" "is_heap nonce_less rest"
      "mset (sm_index m) = add_mset n (mset rest)"
      using nonce_heap.heap_Remove_heap [of "sm_index m" k] ok(2) k(2,3) by (auto simp: index_ok_def)
    have "index_ok (AList.delete n ?items) rest"
      using rest(2,3) ok delete_keys [OF _ n] by (simp add: index_ok_def items_ok_def)
    then show ?thesis
      using that [of "\<lparr>sm_items = AList.delete n ?items, sm_index = rest, sm_cache = None\<rparr>"] Some n keys k(1) rest(1)
        items_ok_delete [OF ok(1)] txs_of_delete [OF ok(1)]
      by (simp add: sm_Remove_def sm_inv_def)
  qed
qed

lemma map_of_filter_key: "Q k \<Longrightarrow> map_of (filter (\<lambda>(k, _). Q k) items) k = map_of items k"
  by (induction items) auto

lemma cap_loop_spec:
  assumes "items_ok items" and "idx = map tx_Nonce (txs_of items)" and "n \<le> length items" and "th \<le> n"
    and "its = filter (\<lambda>(k, _). k \<in> set (take n idx)) items"
  shows "cap_loop th n its idx acc =
    Ok (acc @ rev (drop th (take n (txs_of items))), filter (\<lambda>(k, _). k \<in> set (take th idx)) items)"
  using assms(3-5)
proof (induction n arbitrary: its acc)
  case (Suc n)
  show ?case
  proof (cases "th = Suc n")
    case False
    then have th: "th \<le> n" "\<not> Suc n \<le> th" using Suc.prems(2) by auto
    let ?k = "idx ! n" and ?tx = "txs_of items ! n"
    have n: "n < length (txs_of items)" using Suc.prems(1) by simp
    then have k: "?k = tx_Nonce ?tx" by (simp add: assms(2))
    have d: "distinct idx" using distinct_nonces [OF assms(1)] by (simp add: assms(2))
    have "item items ?k = Ok ?tx" using item_Ok(1) [OF assms(1), of ?tx] n nth_mem [OF n] k by simp
    moreover have "map_of its ?k = map_of items ?k"
      unfolding Suc.prems(3) by (rule map_of_filter_key) (use n in \<open>simp add: take_Suc_conv_app_nth assms(2)\<close>)
    ultimately have it: "item its ?k = Ok ?tx" by (simp add: item_def)
    have nk: "?k \<notin> set (take n idx)"
      using distinct_take [OF d, of "Suc n"] n by (simp add: assms(2) take_Suc_conv_app_nth)
    have "AList.delete ?k its = filter (\<lambda>(k, _). k \<in> set (take n idx)) items"
      using n nk by (auto simp: Suc.prems(3) delete_filter assms(2) take_Suc_conv_app_nth intro!: filter_cong)
    from Suc.IH [OF _ th(1) this, of "acc @ [?tx]"] show ?thesis
      using it Suc.prems(1) th n
      by (subst cap_loop.simps) (simp add: assms(2) take_Suc_conv_app_nth)
  qed (simp add: Suc.prems(3) cap_loop.simps [of "Suc n"])
qed (simp add: cap_loop.simps [of _ 0])

lemma sm_Cap_spec:
  assumes "sm_inv m" and "0 \<le> th"
  obtains m' where "sm_Cap m th = Ok (rev (drop (nat th) (flat m)), m')" and "sm_inv m'"
    and "flat m' = take (nat th) (flat m)"
proof (cases "int (length (sm_items m)) \<le> th")
  case True
  then show thesis using that [of m] assms by (simp add: sm_Cap_def)
next
  case False
  let ?items = "sm_items m" and ?t = "nat th"
  have ok: "items_ok ?items" "index_ok ?items (sm_index m)" using assms by (simp_all add: sm_inv_def)
  have t: "?t < length ?items" using False assms(2) by linarith
  define idx where "idx = map tx_Nonce (flat m)"
  have idx: "sort (sm_index m) = idx"
    unfolding idx_def map_nonce_txs_of [OF ok(1)] using ok(2)
    by (intro properties_for_sort) (auto simp: index_ok_def)
  have "filter (\<lambda>(k, _). k \<in> set idx) ?items = ?items"
    using ok(1) by (intro filter_True) (force simp: idx_def items_ok_def)
  then have C: "cap_loop ?t (length ?items) ?items idx [] =
      Ok (rev (drop ?t (flat m)), filter (\<lambda>(k, _). k \<in> set (take ?t idx)) ?items)"
    using cap_loop_spec [OF ok(1) idx_def, of "length ?items" ?t ?items "[]"] t by (simp add: idx_def)
  let ?its = "filter (\<lambda>(k, _). k \<in> set (take ?t idx)) ?items"
  have iok: "items_ok ?its" by (rule items_ok_filter [OF ok(1)])
  have d: "distinct idx" using distinct_nonces [OF ok(1)] by (simp add: idx_def)
  have "txs_of ?its = filter (\<lambda>tx. tx_Nonce tx \<in> set (take ?t idx)) (flat m)"
    by (simp only: filter_key [OF ok(1)] txs_of_filter [OF ok(1)])
  also have "\<dots> = take ?t (flat m)"
  proof -
    have "set (take ?t idx) \<inter> set (drop ?t idx) = {}" using d by (metis append_take_drop_id distinct_append)
    then have "filter (\<lambda>tx. tx_Nonce tx \<in> set (take ?t idx)) (take ?t (flat m) @ drop ?t (flat m)) = take ?t (flat m)"
      unfolding filter_append by (subst filter_True, force simp: idx_def take_map, subst filter_False) (auto simp: idx_def take_map drop_map)
    then show ?thesis by simp
  qed
  finally have txs: "txs_of ?its = take ?t (flat m)" .
  define its where "its = ?its"
  have "mset (map tx_Nonce (txs_of its)) = mset (sort (map fst its))"
    using map_nonce_txs_of [OF iok] by (simp only: its_def)
  then have keys: "mset (map fst its) = mset (take ?t idx)"
    by (simp only: mset_sort txs [folded its_def] idx_def take_map)
  then have inv: "index_ok its (heap_Init nonce_less (take ?t idx))"
    using nonce_heap.heap_Init_heap [of "take ?t idx"] by (simp add: index_ok_def)
  define m' where "m' = \<lparr>sm_items = its, sm_index = heap_Init nonce_less (take ?t idx),
    sm_cache = map_option (\<lambda>_. take ?t (flat m)) (sm_cache m)\<rparr>"
  have "sm_cache m = None \<or> sm_cache m = Some (flat m)"
    using assms(1) by (auto simp: sm_inv_def split: option.splits)
  then have "sm_Cap m th = Ok (rev (drop ?t (flat m)), m')"
    using False assms(2) C [folded its_def] t by (auto simp: sm_Cap_def idx m'_def)
  moreover have "sm_inv m'" and "flat m' = take ?t (flat m)"
    using inv iok [folded its_def] txs [folded its_def]
    by (auto simp: sm_inv_def m'_def split: option.splits)
  ultimately show thesis by (rule that)
qed

subsection \<open>Refinement of a sorted list\<close>

datatype sm_op = OpPut transaction | OpForward u64 | OpFilter "transaction \<Rightarrow> bool" | OpCap int
  | OpRemove u64 | OpReady u64 | OpFlatten

type_synonym sm_out = "bool \<times> transaction list"

fun sm_step :: "sm_op \<Rightarrow> txSortedMap \<Rightarrow> (unit, sm_out \<times> txSortedMap) result" where
  "sm_step (OpPut tx) m = Ok ((True, []), sm_Put m tx)"
| "sm_step (OpForward th) m = bind_result (sm_Forward m th) (\<lambda>(out, m'). Ok ((True, out), m'))"
| "sm_step (OpFilter P) m = (let (out, m') = sm_Filter m P in Ok ((True, out), m'))"
| "sm_step (OpCap th) m = bind_result (sm_Cap m th) (\<lambda>(out, m'). Ok ((True, out), m'))"
| "sm_step (OpRemove n) m = bind_result (sm_Remove m n) (\<lambda>(found, m'). Ok ((found, []), m'))"
| "sm_step (OpReady n) m = bind_result (sm_Ready m n) (\<lambda>(out, m'). Ok ((True, out), m'))"
| "sm_step OpFlatten m = (let (out, m') = sm_Flatten m in Ok ((True, out), m'))"

fun spec_step :: "sm_op \<Rightarrow> transaction list \<Rightarrow> sm_out \<times> transaction list" where
  "spec_step (OpPut tx) l = ((True, []), insort_key tx_Nonce tx (filter (\<lambda>t. tx_Nonce t \<noteq> tx_Nonce tx) l))"
| "spec_step (OpForward th) l = ((True, takeWhile (\<lambda>t. tx_Nonce t < th) l), dropWhile (\<lambda>t. tx_Nonce t < th) l)"
| "spec_step (OpFilter P) l = ((True, filter P l), filter (\<lambda>t. \<not> P t) l)"
| "spec_step (OpCap th) l = ((True, rev (drop (nat th) l)), take (nat th) l)"
| "spec_step (OpRemove n) l = ((n \<in> tx_Nonce ` set l, []), filter (\<lambda>t. tx_Nonce t \<noteq> n) l)"
| "spec_step (OpReady n) l = ((True, spec_ready n l), drop (length (spec_ready n l)) l)"
| "spec_step OpFlatten l = ((True, l), l)"

fun sm_run :: "sm_op list \<Rightarrow> txSortedMap \<Rightarrow> (unit, sm_out list \<times> txSortedMap) result" where
  "sm_run [] m = Ok ([], m)"
| "sm_run (op # ops) m =
     bind_result (sm_step op m) (\<lambda>(out, m'). bind_result (sm_run ops m') (\<lambda>(outs, m''). Ok (out # outs, m'')))"

fun spec_run :: "sm_op list \<Rightarrow> transaction list \<Rightarrow> sm_out list \<times> transaction list" where
  "spec_run [] l = ([], l)"
| "spec_run (op # ops) l = (let (out, l') = spec_step op l; (outs, l'') = spec_run ops l' in (out # outs, l''))"

fun cap_ok :: "sm_op \<Rightarrow> bool" where
  "cap_ok (OpCap th) \<longleftrightarrow> 0 \<le> th"
| "cap_ok _ \<longleftrightarrow> True"

text \<open>Equal outputs; what \<^verbatim>\<open>Filter\<close> returns comes in the order of the map and is compared up to order.\<close>

definition same_out :: "sm_op \<Rightarrow> sm_out \<Rightarrow> sm_out \<Rightarrow> bool" where
  "same_out op o1 o2 \<longleftrightarrow>
     (case op of OpFilter P \<Rightarrow> mset (snd o1) = mset (snd o2) | _ \<Rightarrow> o1 = o2)"

lemma sm_step_refines:
  assumes "sm_inv m" and "cap_ok op"
  shows "\<exists>out m'. sm_step op m = Ok (out, m') \<and> same_out op out (fst (spec_step op (flat m))) \<and>
    sm_inv m' \<and> flat m' = snd (spec_step op (flat m))"
proof (cases op)
  case (OpPut tx)
  then show ?thesis using sm_Put_spec [OF assms(1), of tx] by (simp add: same_out_def)
next
  case (OpForward th)
  obtain m' where "sm_Forward m th = Ok (takeWhile (\<lambda>tx. tx_Nonce tx < th) (flat m), m')" "sm_inv m'"
    "flat m' = dropWhile (\<lambda>tx. tx_Nonce tx < th) (flat m)" by (rule sm_Forward_spec [OF assms(1)])
  then show ?thesis using OpForward by (simp add: same_out_def)
next
  case (OpFilter P)
  then show ?thesis using sm_Filter_spec [OF assms(1), of P] by (simp add: same_out_def split_beta)
next
  case (OpCap th)
  then have "0 \<le> th" using assms(2) by simp
  then obtain m' where "sm_Cap m th = Ok (rev (drop (nat th) (flat m)), m')" "sm_inv m'"
    "flat m' = take (nat th) (flat m)" by (rule sm_Cap_spec [OF assms(1)])
  then show ?thesis using OpCap by (simp add: same_out_def)
next
  case (OpRemove n)
  obtain m' where "sm_Remove m n = Ok (n \<in> tx_Nonce ` set (flat m), m')" "sm_inv m'"
    "flat m' = filter (\<lambda>t. tx_Nonce t \<noteq> n) (flat m)" by (rule sm_Remove_spec [OF assms(1)])
  then show ?thesis using OpRemove by (simp add: same_out_def)
next
  case (OpReady n)
  obtain m' where "sm_Ready m n = Ok (spec_ready n (flat m), m')" "sm_inv m'"
    "flat m' = drop (length (spec_ready n (flat m))) (flat m)" by (rule sm_Ready_spec [OF assms(1)])
  then show ?thesis using OpReady by (simp add: same_out_def)
next
  case OpFlatten
  then show ?thesis using sm_Flatten_spec [OF assms(1)] by (simp add: same_out_def split_beta)
qed

lemma sm_run_refines:
  assumes "sm_inv m" and "list_all cap_ok ops"
  shows "\<exists>outs m'. sm_run ops m = Ok (outs, m') \<and> sm_inv m' \<and> flat m' = snd (spec_run ops (flat m)) \<and>
    length outs = length ops \<and> (\<forall>i<length ops. same_out (ops ! i) (outs ! i) (fst (spec_run ops (flat m)) ! i))"
  using assms
proof (induction ops arbitrary: m)
  case (Cons op ops)
  then obtain out m' where s: "sm_step op m = Ok (out, m')" "same_out op out (fst (spec_step op (flat m)))"
    "sm_inv m'" "flat m' = snd (spec_step op (flat m))"
    using sm_step_refines [of m op] by auto
  have "list_all cap_ok ops" using Cons.prems(2) by simp
  then obtain outs m'' where "sm_run ops m' = Ok (outs, m'')" "sm_inv m''"
    "flat m'' = snd (spec_run ops (flat m'))" "length outs = length ops"
    "\<forall>i<length ops. same_out (ops ! i) (outs ! i) (fst (spec_run ops (flat m')) ! i)"
    using Cons.IH [OF s(3)] by auto
  then show ?case using s by (auto simp: split_beta nth_Cons split: nat.split)
qed simp

lemma sm_inv_new: "sm_inv newTxSortedMap" "flat newTxSortedMap = []"
  by (simp_all add: sm_inv_def newTxSortedMap_def items_ok_def index_ok_def txs_of_def heap_from_def)

text \<open>
  C8. The sorted map of an account behaves as a list of transactions sorted by nonce: from the empty map
  every sequence of operations runs without a panic or a nil transaction, each returns what it returns on the
  sorted list, and flattening the map at the end gives that list.
\<close>

theorem sorted_map_refines:
  assumes "list_all cap_ok ops"
  shows "\<exists>outs m. sm_run ops newTxSortedMap = Ok (outs, m) \<and> fst (sm_Flatten m) = snd (spec_run ops []) \<and>
    length outs = length ops \<and> (\<forall>i<length ops. same_out (ops ! i) (outs ! i) (fst (spec_run ops []) ! i))"
proof -
  obtain outs m where "sm_run ops newTxSortedMap = Ok (outs, m)" "sm_inv m" "flat m = snd (spec_run ops [])"
    "length outs = length ops" "\<forall>i<length ops. same_out (ops ! i) (outs ! i) (fst (spec_run ops []) ! i)"
    using sm_run_refines [OF sm_inv_new(1) assms] by (auto simp: sm_inv_new(2))
  then show ?thesis using sm_Flatten_spec(1) [of m] by simp
qed

definition demo_nonce_tx :: "u64 \<Rightarrow> int \<Rightarrow> transaction" where
  "demo_nonce_tx n p = SetPriority (newTransaction n []) p"

definition demo_ops :: "sm_op list" where
  "demo_ops = [OpPut (demo_nonce_tx 5 0), OpPut (demo_nonce_tx 3 0), OpPut (demo_nonce_tx 4 0),
     OpPut (demo_nonce_tx 9 0), OpReady 3]"

theorem sorted_map_refines_witness:
  "\<exists>outs m. sm_run demo_ops newTxSortedMap = Ok (outs, m) \<and> fst (sm_Flatten m) = [demo_nonce_tx 9 0] \<and>
    outs ! 4 = (True, [demo_nonce_tx 3 0, demo_nonce_tx 4 0, demo_nonce_tx 5 0])"
proof -
  have "snd (spec_run demo_ops []) = [demo_nonce_tx 9 0]"
    and "fst (spec_run demo_ops []) ! 4 = (True, [demo_nonce_tx 3 0, demo_nonce_tx 4 0, demo_nonce_tx 5 0])"
    by (simp_all add: demo_ops_def demo_nonce_tx_def SetPriority_def newTransaction_def spec_ready_def)
  moreover have "list_all cap_ok demo_ops" "demo_ops ! 4 = OpReady 3" "4 < length demo_ops" by (simp_all add: demo_ops_def)
  ultimately show ?thesis using sorted_map_refines [of demo_ops] by (fastforce simp: same_out_def)
qed

subsection \<open>The list of an account\<close>

declare set_txs_of [simp del]

definition priced :: "transaction \<Rightarrow> bool" where
  "priced tx \<longleftrightarrow> Priority tx \<noteq> None"

text \<open>The cached priority bounds every transaction of the list, on which the short cut of \<^verbatim>\<open>Filter\<close> rests.\<close>

definition l_inv :: "txList \<Rightarrow> bool" where
  "l_inv l \<longleftrightarrow> sm_inv (l_txs l) \<and> (\<forall>tx \<in> set (flat (l_txs l)). priced tx \<and> prio tx \<le> l_priority l)"

lemma GetPriority_priced: "priced tx \<Longrightarrow> GetPriority tx = Ok (prio tx)"
  by (auto simp: priced_def GetPriority_def prio_def)

lemma l_inv_subset:
  "l_inv l \<Longrightarrow> sm_inv m \<Longrightarrow> set (flat m) \<subseteq> set (flat (l_txs l)) \<Longrightarrow> l_inv (l\<lparr>l_txs := m\<rparr>)"
  unfolding l_inv_def by (auto)

lemma sm_Get_Some_iff:
  assumes "sm_inv m"
  shows "sm_Get m n = Some tx \<longleftrightarrow> tx \<in> set (flat m) \<and> tx_Nonce tx = n"
proof -
  have ok: "items_ok (sm_items m)" using assms by (simp add: sm_inv_def)
  then have "sm_Get m n = Some tx \<longleftrightarrow> (n, tx) \<in> set (sm_items m)"
    by (simp add: sm_Get_def items_ok_def)
  then show ?thesis using ok by (force simp: items_ok_def set_txs_of)
qed

lemma foldl_lowest:
  fixes a :: u64
  defines "f \<equiv> (\<lambda>lowest tx. if lowest > tx_Nonce tx then tx_Nonce tx else lowest)"
  shows "foldl f a xs \<le> a \<and> (\<forall>t\<in>set xs. foldl f a xs \<le> tx_Nonce t) \<and>
    (foldl f a xs = a \<or> foldl f a xs \<in> tx_Nonce ` set xs)"
proof (induction xs arbitrary: a)
  case (Cons x xs)
  show ?case using Cons [of a] Cons [of "tx_Nonce x"] by (auto simp: f_def intro: order_trans)
qed simp

lemma lowest_nonce_props:
  assumes "xs \<noteq> []"
  shows "lowest_nonce xs \<in> tx_Nonce ` set xs" and "\<forall>t\<in>set xs. lowest_nonce xs \<le> tx_Nonce t"
proof -
  note f = foldl_lowest [of "-1" xs, folded lowest_nonce_def]
  show "\<forall>t\<in>set xs. lowest_nonce xs \<le> tx_Nonce t" using f by blast
  show "lowest_nonce xs \<in> tx_Nonce ` set xs"
  proof (cases "lowest_nonce xs = - 1")
    case True
    obtain t where t: "t \<in> set xs" using assms by (cases xs) auto
    then have "- 1 \<le> tx_Nonce t" using f True by auto
    then have "tx_Nonce t = - 1" by (simp add: word_order.extremum_unique)
    then show ?thesis using True t by force
  qed (use f in blast)
qed

lemma flat_distinct: "sm_inv m \<Longrightarrow> distinct (map tx_Nonce (flat m))"
  by (simp add: sm_inv_def distinct_nonces)

lemma same_nonce_eq: "sm_inv m \<Longrightarrow> s \<in> set (flat m) \<Longrightarrow> t \<in> set (flat m) \<Longrightarrow> tx_Nonce s = tx_Nonce t \<Longrightarrow> s = t"
  using flat_distinct [of m] by (auto simp: distinct_map inj_on_def)

text \<open>A strict list of two transactions, the second with the higher priority.\<close>

definition demo_list :: txList where
  "demo_list = \<lparr>l_strict = True,
     l_txs = \<lparr>sm_items = [(4, demo_nonce_tx 4 9), (3, demo_nonce_tx 3 5)], sm_index = [3, 4], sm_cache = None\<rparr>,
     l_priority = 9\<rparr>"

lemma demo_nonce_tx_sel [simp]:
  "tx_Nonce (demo_nonce_tx n p) = n" "Priority (demo_nonce_tx n p) = Some p"
  "prio (demo_nonce_tx n p) = big_Int64 p" "priced (demo_nonce_tx n p)"
  by (simp_all add: demo_nonce_tx_def SetPriority_def newTransaction_def prio_def priced_def)

lemma demo_list_inv: "l_inv demo_list" "flat (l_txs demo_list) = [demo_nonce_tx 3 5, demo_nonce_tx 4 9]"
proof -
  show fl: "flat (l_txs demo_list) = [demo_nonce_tx 3 5, demo_nonce_tx 4 9]"
    by (simp add: demo_list_def txs_of_def)
  have "is_heap nonce_less [3, 4]" by (auto simp: heap_from_def par_def less_Suc_eq)
  then have "sm_inv (l_txs demo_list)"
    by (simp add: demo_list_def sm_inv_def items_ok_def index_ok_def add_mset_commute)
  then show "l_inv demo_list" unfolding l_inv_def fl by (simp add: demo_list_def big_Int64_def)
qed

text \<open>
  C25. \<^verbatim>\<open>txList.Filter\<close> removes exactly the transactions above the priority, in strict mode also everything
  with a higher nonce than one of those, and nothing else; the cached bound that lets it return early is
  right before and after.
\<close>

theorem l_Filter_exact:
  assumes "l_inv l"
  shows "\<exists>removed invalids l'. l_Filter l p = Ok ((removed, invalids), l') \<and> l_inv l' \<and>
    mset removed = mset (filter (\<lambda>t. prio t > p) (flat (l_txs l))) \<and>
    mset (flat (l_txs l)) = mset (flat (l_txs l')) + mset removed + mset invalids \<and>
    (\<forall>t \<in> set (flat (l_txs l')). \<forall>r \<in> set removed. l_strict l \<longrightarrow> tx_Nonce t < tx_Nonce r) \<and>
    (\<forall>t \<in> set invalids. l_strict l \<and> (\<exists>r \<in> set removed. tx_Nonce r < tx_Nonce t))"
proof (cases "l_priority l \<le> p")
  case True
  then have "filter (\<lambda>t. prio t > p) (flat (l_txs l)) = []"
    using assms by (force simp: l_inv_def filter_empty_conv)
  then show ?thesis using True assms by (simp add: l_Filter_def)
next
  case False
  have inv: "sm_inv (l_txs l)" and pr: "\<not> (\<exists>(_, tx) \<in> set (sm_items (l_txs l)). Priority tx = None)"
    using assms by (force simp: l_inv_def priced_def set_txs_of)+
  obtain removed m where F: "sm_Filter (l_txs l) (\<lambda>tx. prio tx > p) = (removed, m)" by fastforce
  note f = sm_Filter_spec [OF inv, of "\<lambda>tx. prio tx > p", unfolded F fst_conv snd_conv]
  define low where "low = lowest_nonce removed"
  obtain invalids m' where G: "(if l_strict l \<and> length removed > 0 then sm_Filter m (\<lambda>tx. tx_Nonce tx > low) else ([], m))
      = (invalids, m')" by fastforce
  define keep where "keep = (\<lambda>t. \<not> (l_strict l \<and> removed \<noteq> [] \<and> tx_Nonce t > low))"
  have g: "mset invalids = mset (filter (\<lambda>t. \<not> keep t) (flat m))" "sm_inv m'" "flat m' = filter keep (flat m)"
    using G f(2) sm_Filter_spec [OF f(2), of "\<lambda>tx. tx_Nonce tx > low"]
    by (auto simp: keep_def split: if_splits simp del: mset_filter)
  let ?l = "l\<lparr>l_txs := m', l_priority := p\<rparr>"
  have rem: "set removed = {t \<in> set (flat (l_txs l)). prio t > p}" using mset_eq_setD [OF f(1)] by auto
  have L: "l_Filter l p = Ok ((removed, invalids), ?l)"
    using False pr F G [unfolded low_def] by (auto simp: l_Filter_def split: if_splits)
  moreover have "l_inv ?l" using assms g(2,3) f(3) by (auto simp: l_inv_def)
  moreover have "mset (flat (l_txs l)) = mset (flat m') + mset removed + mset invalids"
    using f(1,3) g(1,3) by (simp del: mset_txs_of flip: mset_filter) (simp add: multiset_eq_iff)
  moreover have "tx_Nonce t < tx_Nonce q" if t: "t \<in> set (flat m')" "q \<in> set removed" "l_strict l" for t q
  proof -
    have ne: "removed \<noteq> []" using t(2) by auto
    then obtain w where w: "w \<in> set removed" "tx_Nonce w = low"
      using lowest_nonce_props(1) [OF ne] by (auto simp: low_def)
    have "tx_Nonce t \<le> low" "t \<in> set (flat (l_txs l))" "\<not> prio t > p"
      using t ne by (auto simp: g(3) f(3) keep_def)
    moreover have "tx_Nonce t \<noteq> low"
      using same_nonce_eq [OF inv, of t w] calculation w rem by auto
    ultimately show ?thesis
      using lowest_nonce_props(2) [OF ne] t(2) by (force simp: low_def)
  qed
  moreover have "l_strict l \<and> (\<exists>r \<in> set removed. tx_Nonce r < tx_Nonce t)" if "t \<in> set invalids" for t
  proof -
    have "\<not> keep t" using that mset_eq_setD [OF g(1)] by auto
    then show ?thesis using lowest_nonce_props(1) [of removed] by (auto simp: keep_def low_def)
  qed
  ultimately show ?thesis using f(1) by (intro exI [of _ removed] exI [of _ invalids] exI [of _ ?l]) auto
qed

theorem l_Filter_exact_witness:
  "\<exists>removed invalids l'. l_Filter demo_list 7 = Ok ((removed, invalids), l') \<and> l_inv l' \<and>
     mset removed = {#demo_nonce_tx 4 9#}"
  using l_Filter_exact [OF demo_list_inv(1), of 7] by (auto simp: demo_list_inv(2) big_Int64_def)

lemma l_inv_new: "l_inv (newTxList strict)"
  using sm_inv_new by (simp add: l_inv_def newTxList_def txs_of_def newTxSortedMap_def)

lemma l_Add_spec:
  assumes "l_inv l" and "priced tx"
  defines "better \<equiv> (\<forall>t \<in> set (flat (l_txs l)). tx_Nonce t = tx_Nonce tx \<longrightarrow> prio t < prio tx)"
  obtains l' where
    "l_Add l tx = Ok ((better, if better then sm_Get (l_txs l) (tx_Nonce tx) else None), l')" and "l_inv l'"
    and "flat (l_txs l') = (if better then snd (spec_step (OpPut tx) (flat (l_txs l))) else flat (l_txs l))"
    and "l_strict l' = l_strict l"
proof -
  have inv: "sm_inv (l_txs l)" using assms(1) by (simp add: l_inv_def)
  note get = sm_Get_Some_iff [OF inv] and put = sm_Put_spec [OF inv, of tx]
  let ?l = "l\<lparr>l_txs := sm_Put (l_txs l) tx, l_priority := (if l_priority l < prio tx then prio tx else l_priority l)\<rparr>"
  have li: "l_inv ?l"
    using assms(1,2) put by (auto simp: l_inv_def set_insort_key)
  show thesis
  proof (cases "sm_Get (l_txs l) (tx_Nonce tx)")
    case None
    then have b: better unfolding better_def using get by (metis option.distinct(1))
    then show ?thesis
      using that [of ?l] None li put GetPriority_priced [OF assms(2)] by (simp add: l_Add_def)
  next
    case (Some t)
    then have t: "t \<in> set (flat (l_txs l))" "tx_Nonce t = tx_Nonce tx" by (simp_all add: get)
    then have "priced t" using assms(1) by (simp add: l_inv_def)
    have b: "better \<longleftrightarrow> prio t < prio tx"
      unfolding better_def using t same_nonce_eq [OF inv _ t(1)] by metis
    have A: "l_Add l tx = (if better then Ok ((True, Some t), ?l) else Ok ((False, None), l))"
      using Some b GetPriority_priced [OF assms(2)] GetPriority_priced [OF \<open>priced t\<close>]
      by (simp add: l_Add_def not_less)
    show ?thesis
    proof (cases better)
      case True
      then show ?thesis using that [of ?l] A Some li put by simp
    next
      case False
      then show ?thesis using that [of l] A assms(1) by simp
    qed
  qed
qed

text \<open>
  C26. Adding to an account's list keeps, for every nonce, a transaction of the highest priority offered: a
  transaction enters exactly if no transaction of its nonce has the same or a higher priority, it then replaces
  the one it beats, which is returned, and the rest of the list is unchanged.
\<close>

theorem l_Add_keeps_best:
  assumes "l_inv l" and "priced tx"
  shows "\<exists>ok old l'. l_Add l tx = Ok ((ok, old), l') \<and> l_inv l' \<and>
    (ok \<longleftrightarrow> (\<forall>t \<in> set (flat (l_txs l)). tx_Nonce t = tx_Nonce tx \<longrightarrow> prio t < prio tx)) \<and>
    set (flat (l_txs l')) =
      (if ok then insert tx {t \<in> set (flat (l_txs l)). tx_Nonce t \<noteq> tx_Nonce tx} else set (flat (l_txs l))) \<and>
    (\<forall>t. old = Some t \<longleftrightarrow> ok \<and> t \<in> set (flat (l_txs l)) \<and> tx_Nonce t = tx_Nonce tx)"
proof -
  have inv: "sm_inv (l_txs l)" using assms(1) by (simp add: l_inv_def)
  show ?thesis
    by (rule l_Add_spec [OF assms])
      (auto simp: set_insort_key sm_Get_Some_iff [OF inv])
qed

theorem l_Add_keeps_best_witness:
  "\<exists>old l'. l_Add demo_list (demo_nonce_tx 3 6) = Ok ((True, old), l') \<and>
     set (flat (l_txs l')) = {demo_nonce_tx 3 6, demo_nonce_tx 4 9}"
  using l_Add_keeps_best [OF demo_list_inv(1), of "demo_nonce_tx 3 6"]
  by (auto simp: demo_list_inv(2) big_Int64_def)

text \<open>
  C27. Removing a transaction from a strict list leaves exactly the transactions with lower nonces and returns
  those with higher ones; in a list that is not strict only the transaction itself goes.
\<close>

theorem l_Remove_exact:
  assumes "l_inv l"
  shows "\<exists>found invalids l'. l_Remove l tx = Ok ((found, invalids), l') \<and> l_inv l' \<and>
    (found \<longleftrightarrow> tx_Nonce tx \<in> tx_Nonce ` set (flat (l_txs l))) \<and>
    flat (l_txs l') = filter (\<lambda>t. if l_strict l \<and> found then tx_Nonce t < tx_Nonce tx else tx_Nonce t \<noteq> tx_Nonce tx) (flat (l_txs l)) \<and>
    mset invalids = (if l_strict l \<and> found then mset (filter (\<lambda>t. tx_Nonce t > tx_Nonce tx) (flat (l_txs l))) else {#})"
proof -
  let ?n = "tx_Nonce tx"
  have inv: "sm_inv (l_txs l)" using assms(1) by (simp add: l_inv_def)
  obtain m where R: "sm_Remove (l_txs l) ?n = Ok (?n \<in> tx_Nonce ` set (flat (l_txs l)), m)" "sm_inv m"
    "flat m = filter (\<lambda>t. tx_Nonce t \<noteq> ?n) (flat (l_txs l))"
    by (rule sm_Remove_spec [OF inv])
  obtain invalids m' where F: "sm_Filter m (\<lambda>t. tx_Nonce t > ?n) = (invalids, m')" by fastforce
  note f = sm_Filter_spec [OF R(2), of "\<lambda>t. tx_Nonce t > ?n", unfolded F fst_conv snd_conv R(3) filter_filter]
  have eq: "filter (\<lambda>t. tx_Nonce t \<noteq> ?n \<and> \<not> ?n < tx_Nonce t) (flat (l_txs l)) = filter (\<lambda>t. tx_Nonce t < ?n) (flat (l_txs l))"
    "filter (\<lambda>t. tx_Nonce t \<noteq> ?n \<and> ?n < tx_Nonce t) (flat (l_txs l)) = filter (\<lambda>t. ?n < tx_Nonce t) (flat (l_txs l))"
    by (rule filter_cong; auto)+
  have sub: "l_inv (l\<lparr>l_txs := m\<rparr>)" "l_inv (l\<lparr>l_txs := m'\<rparr>)"
    using R(2,3) f(2,3) by (auto intro!: l_inv_subset [OF assms])
  show ?thesis
  proof (cases "?n \<in> tx_Nonce ` set (flat (l_txs l)) \<and> l_strict l")
    case True
    then show ?thesis using R F f sub eq by (auto simp: l_Remove_def simp del: mset_filter)
  next
    case False
    then have "l_Remove l tx = Ok ((?n \<in> tx_Nonce ` set (flat (l_txs l)), []), l\<lparr>l_txs := m\<rparr>)"
      using R by (auto simp: l_Remove_def Let_def)
    then show ?thesis using R sub False by auto
  qed
qed

theorem l_Remove_exact_witness:
  "\<exists>invalids l'. l_Remove demo_list (demo_nonce_tx 3 0) = Ok ((True, invalids), l') \<and>
     flat (l_txs l') = [] \<and> mset invalids = {#demo_nonce_tx 4 9#}"
proof -
  have "l_strict demo_list" by (simp add: demo_list_def)
  then show ?thesis
    using l_Remove_exact [OF demo_list_inv(1), of "demo_nonce_tx 3 0"] by (auto simp: demo_list_inv(2))
qed

end
