(* ===== verification/TxPriority.thy ===== *)
theory TxPriority
  imports TxListProofs
begin

text \<open>
  The priority heap over the whole pool: it keeps every live transaction, counts exactly the stale ones,
  and when the pool is full \<^verbatim>\<open>Discard\<close> drops the remote transactions of the lowest priority.
\<close>

subsection \<open>Invariant\<close>

definition p_inv :: "(transaction \<Rightarrow> bool) \<Rightarrow> txPriorityList \<Rightarrow> bool" where
  "p_inv live l \<longleftrightarrow> is_heap prio_less (p_items l) \<and>
     p_stales l = int (size {#t \<in># mset (p_items l). \<not> live t#})"

lemma prio_pop:
  assumes "is_heap prio_less items" and "items \<noteq> []"
  obtains tx items' where "heap_Pop prio_less items = Ok (tx, items')" and "tx = items ! 0"
    and "is_heap prio_less items'"
    and "mset items = add_mset tx (mset items')" and "\<forall>t \<in> set items'. prio tx \<le> prio t"
proof -
  obtain items' where p: "heap_Pop prio_less items = Ok (items ! 0, items')" "is_heap prio_less items'"
    "mset items = add_mset (items ! 0) (mset items')"
    by (rule prio_heap.heap_Pop_heap [OF assms])
  have "set items' \<subseteq> set items" using arg_cong [OF p(3), of set_mset] by auto
  then have "\<forall>t \<in> set items'. prio (items ! 0) \<le> prio t"
    using prio_heap.is_heap_hd_least [OF assms(1)] by (auto simp: prio_less_def not_less)
  then show thesis using that [OF p(1)] p by blast
qed

lemma push_all_heap:
  "is_heap prio_less items \<Longrightarrow> is_heap prio_less (push_all items save) \<and> mset (push_all items save) = mset items + mset save"
proof (induction save arbitrary: items)
  case (Cons t save)
  note h = prio_heap.heap_Push_heap [OF Cons.prems, of t]
  from Cons.IH [OF h(1)] h(2) show ?case by (simp add: push_all_def)
qed (simp add: push_all_def)

lemma p_Put_inv: "p_inv live l \<Longrightarrow> live tx \<Longrightarrow> p_inv live (p_Put l tx)"
  using prio_heap.heap_Push_heap [of "p_items l" tx] by (simp add: p_inv_def p_Put_def)

subsection \<open>Discard\<close>

text \<open>
  From heap \<open>items\<close> to \<open>items'\<close>: \<open>d\<close> are dropped, \<open>s\<close> are set aside, the stale ones that were met are gone.
\<close>

definition split_heap ::
  "(transaction \<Rightarrow> bool) \<Rightarrow> (transaction \<Rightarrow> bool) \<Rightarrow> transaction list \<Rightarrow> transaction list \<Rightarrow> transaction list \<Rightarrow> transaction list \<Rightarrow> bool" where
  "split_heap live local items items' d s \<longleftrightarrow>
     is_heap prio_less items' \<and> set items' \<subseteq> set items \<and>
     {#t \<in># mset items. live t#} = {#t \<in># mset items'. live t#} + mset d + mset s \<and>
     (\<forall>t \<in> set d. live t \<and> \<not> local t) \<and> (\<forall>x \<in> set d. \<forall>t \<in> set items'. prio x \<le> prio t)"

abbreviation stale_count :: "(transaction \<Rightarrow> bool) \<Rightarrow> transaction list \<Rightarrow> int" where
  "stale_count live items \<equiv> int (size {#t \<in># mset items. \<not> live t#})"

lemma split_heap_refl: "is_heap prio_less items \<Longrightarrow> split_heap live local items items [] []"
  by (simp add: split_heap_def)

lemma split_heap_stale:
  "split_heap live local items1 items' d s \<Longrightarrow> mset items = add_mset tx (mset items1) \<Longrightarrow> \<not> live tx \<Longrightarrow>
     split_heap live local items items' d s"
  using mset_eq_setD [of items "tx # items1"] by (auto simp: split_heap_def)

lemma split_heap_save:
  "split_heap live local items1 items' d s \<Longrightarrow> mset items = add_mset tx (mset items1) \<Longrightarrow> live tx \<Longrightarrow>
     split_heap live local items items' d (tx # s)"
  using mset_eq_setD [of items "tx # items1"] by (auto simp: split_heap_def)

lemma split_heap_drop:
  "split_heap live local items1 items' d s \<Longrightarrow> mset items = add_mset tx (mset items1) \<Longrightarrow> live tx \<Longrightarrow> \<not> local tx \<Longrightarrow>
     \<forall>t \<in> set items1. prio tx \<le> prio t \<Longrightarrow> split_heap live local items items' (tx # d) s"
  using mset_eq_setD [of items "tx # items1"] by (auto simp: split_heap_def)

lemma p_discard_loop_spec:
  assumes "is_heap prio_less items"
  shows "\<exists>items' stales' d s. p_discard_loop live local cnt items stales dr sv = Ok (items', stales', dr @ d, sv @ s) \<and>
    split_heap live local items items' d s \<and> (\<forall>t \<in> set s. live t \<and> local t) \<and>
    stales' - stale_count live items' = stales - stale_count live items \<and>
    int (length d) \<le> max 0 cnt \<and> (int (length d) = max 0 cnt \<or> items' = [])"
  using assms
proof (induction "length items" arbitrary: items cnt stales dr sv rule: less_induct)
  case less
  show ?case
  proof (cases "items \<noteq> [] \<and> cnt > 0")
    case False
    then show ?thesis
      using split_heap_refl [OF less.prems] by (subst p_discard_loop.simps) auto
  next
    case True
    then have "items \<noteq> []" by simp
    with less.prems obtain tx items1 where pop: "heap_Pop prio_less items = Ok (tx, items1)" "tx = items ! 0"
      "is_heap prio_less items1" "mset items = add_mset tx (mset items1)" "\<forall>t \<in> set items1. prio tx \<le> prio t"
      by (rule prio_pop)
    note IH = less.hyps [OF heap_Pop_shorter [OF pop(1)] pop(3)]
    have eq: "p_discard_loop live local cnt items stales dr sv =
        (if \<not> live tx then p_discard_loop live local cnt items1 (stales - 1) dr sv
         else if local tx then p_discard_loop live local cnt items1 stales dr (sv @ [tx])
         else p_discard_loop live local (cnt - 1) items1 stales (dr @ [tx]) sv)"
      using True by (subst p_discard_loop.simps) (simp add: pop(1))
    have st: "stale_count live items = (if live tx then 0 else 1) + stale_count live items1"
      by (simp add: pop(4))
    consider "\<not> live tx" | "live tx" "local tx" | "live tx" "\<not> local tx" by blast
    then show ?thesis
    proof cases
      case 1
      obtain items' stales' d s where
        r: "p_discard_loop live local cnt items1 (stales - 1) dr sv = Ok (items', stales', dr @ d, sv @ s)"
        "split_heap live local items1 items' d s" "\<forall>t \<in> set s. live t \<and> local t"
        "stales' - stale_count live items' = stales - 1 - stale_count live items1"
        "int (length d) \<le> max 0 cnt" "int (length d) = max 0 cnt \<or> items' = []"
        using IH [of cnt "stales - 1" dr sv] by blast
      show ?thesis
        using r split_heap_stale [OF r(2) pop(4) 1] eq st 1
        by (intro exI [of _ items'] exI [of _ stales'] exI [of _ d] exI [of _ s]) simp
    next
      case 2
      obtain items' stales' d s where
        r: "p_discard_loop live local cnt items1 stales dr (sv @ [tx]) = Ok (items', stales', dr @ d, (sv @ [tx]) @ s)"
        "split_heap live local items1 items' d s" "\<forall>t \<in> set s. live t \<and> local t"
        "stales' - stale_count live items' = stales - stale_count live items1"
        "int (length d) \<le> max 0 cnt" "int (length d) = max 0 cnt \<or> items' = []"
        using IH [of cnt stales dr "sv @ [tx]"] by blast
      show ?thesis
        using r split_heap_save [OF r(2) pop(4) 2(1)] eq st 2
        by (intro exI [of _ items'] exI [of _ stales'] exI [of _ d] exI [of _ "tx # s"]) simp
    next
      case 3
      obtain items' stales' d s where
        r: "p_discard_loop live local (cnt - 1) items1 stales (dr @ [tx]) sv = Ok (items', stales', (dr @ [tx]) @ d, sv @ s)"
        "split_heap live local items1 items' d s" "\<forall>t \<in> set s. live t \<and> local t"
        "stales' - stale_count live items' = stales - stale_count live items1"
        "int (length d) \<le> max 0 (cnt - 1)" "int (length d) = max 0 (cnt - 1) \<or> items' = []"
        using IH [of "cnt - 1" stales "dr @ [tx]" sv] by blast
      show ?thesis
        using r split_heap_drop [OF r(2) pop(4) 3 pop(5)] eq st 3 True
        by (intro exI [of _ items'] exI [of _ stales'] exI [of _ "tx # d"] exI [of _ s]) auto
    qed
  qed
qed


text \<open>Two remote transactions, one local, and one that the pool no longer has.\<close>

definition demo_hash :: "transaction \<Rightarrow> hash" where
  "demo_hash tx = [ucast (tx_Nonce tx)]"

definition demo_all :: tx_pool_all where
  "demo_all = map (\<lambda>t. (demo_hash t, t)) [demo_nonce_tx 1 10, demo_nonce_tx 2 20, demo_nonce_tx 3 5]"

definition demo_plist :: txPriorityList where
  "demo_plist = \<lparr>p_items = [demo_nonce_tx 4 1, demo_nonce_tx 1 10, demo_nonce_tx 3 5, demo_nonce_tx 2 20], p_stales = 1\<rparr>"

lemma demo_nonce_tx_inject [simp]: "demo_nonce_tx n p = demo_nonce_tx n' p' \<longleftrightarrow> n = n' \<and> p = p'"
  by (auto simp: demo_nonce_tx_def SetPriority_def newTransaction_def)

lemma demo_live: "live_in demo_hash demo_all (demo_nonce_tx n p) \<longleftrightarrow> (ucast n :: byte) \<in> {1, 2, 3}"
  by (auto simp: live_in_def demo_hash_def demo_all_def)

lemma demo_plist_inv: "p_inv (live_in demo_hash demo_all) demo_plist"
proof -
  have "is_heap prio_less (p_items demo_plist)"
    by (auto simp: demo_plist_def heap_from_def par_def less_Suc_eq prio_less_def big_Int64_def)
  then show ?thesis by (simp add: p_inv_def demo_plist_def demo_live)
qed


subsection \<open>Underpriority\<close>

lemma p_stale_loop_spec:
  assumes "is_heap prio_less items"
  shows "\<exists>items' stales'. p_stale_loop live items stales = Ok (items', stales') \<and> is_heap prio_less items' \<and>
    {#t \<in># mset items. live t#} = {#t \<in># mset items'. live t#} \<and>
    stales' - stale_count live items' = stales - stale_count live items \<and> (items' = [] \<or> live (items' ! 0))"
  using assms
proof (induction "length items" arbitrary: items stales rule: less_induct)
  case less
  show ?case
  proof (cases "items \<noteq> [] \<and> \<not> live (items ! 0)")
    case False
    then show ?thesis using less.prems by (subst p_stale_loop.simps) auto
  next
    case True
    then have "items \<noteq> []" by simp
    with less.prems obtain tx items1 where pop: "heap_Pop prio_less items = Ok (tx, items1)" "tx = items ! 0"
      "is_heap prio_less items1" "mset items = add_mset tx (mset items1)" "\<forall>t \<in> set items1. prio tx \<le> prio t"
      by (rule prio_pop)
    have "p_stale_loop live items stales = p_stale_loop live items1 (stales - 1)"
      using True by (subst p_stale_loop.simps) (simp add: pop(1))
    then show ?thesis
      using less.hyps [OF heap_Pop_shorter [OF pop(1)] pop(3), of "stales - 1"] True pop(2,4) by auto
  qed
qed

text \<open>
  C24. The pool's price check is exact: a transaction is underpriced if and only if it is remote, the pool holds a
  live transaction, and every live transaction has at least its priority; stale entries never decide it.
\<close>

theorem Underpriority_exact:
  assumes "p_inv (live_in H all) l"
  shows "\<exists>res l'. p_Underpriority H all l tx local = Ok (res, l') \<and> p_inv (live_in H all) l' \<and>
    {#t \<in># mset (p_items l). live_in H all t#} = {#t \<in># mset (p_items l'). live_in H all t#} \<and>
    (res \<longleftrightarrow> \<not> local tx \<and> (\<exists>t \<in> set (p_items l). live_in H all t) \<and>
      (\<forall>t \<in> set (p_items l). live_in H all t \<longrightarrow> prio tx \<le> prio t))"
proof (cases "local tx")
  case True
  then show ?thesis using assms by (auto simp: p_Underpriority_def)
next
  case False
  let ?live = "live_in H all"
  have h: "is_heap prio_less (p_items l)" and st: "p_stales l = stale_count ?live (p_items l)"
    using assms by (simp_all add: p_inv_def)
  obtain items stales where L: "p_stale_loop ?live (p_items l) (p_stales l) = Ok (items, stales)"
    and ih: "is_heap prio_less items" and lv: "{#t \<in># mset (p_items l). ?live t#} = {#t \<in># mset items. ?live t#}"
    and c: "stales = stale_count ?live items" and hd: "items = [] \<or> ?live (items ! 0)"
    using p_stale_loop_spec [OF h, of ?live "p_stales l"] st by auto
  have same: "?live t \<and> t \<in> set (p_items l) \<longleftrightarrow> ?live t \<and> t \<in> set items" for t
    using arg_cong [OF lv, of "\<lambda>M. t \<in># M"] by auto
  have least: "\<forall>t \<in> set items. prio (items ! 0) \<le> prio t"
    using prio_heap.is_heap_hd_least [OF ih] by (auto simp: prio_less_def not_less)
  let ?l = "\<lparr>p_items = items, p_stales = stales\<rparr>" and ?res = "items \<noteq> [] \<and> prio tx \<le> prio (items ! 0)"
  have "p_Underpriority H all l tx local = Ok (?res, ?l)"
    using False L by (auto simp: p_Underpriority_def Let_def)
  moreover have "p_inv ?live ?l" using ih c by (simp add: p_inv_def)
  moreover have "?res \<longleftrightarrow> (\<exists>t \<in> set (p_items l). ?live t) \<and> (\<forall>t \<in> set (p_items l). ?live t \<longrightarrow> prio tx \<le> prio t)"
  proof (cases "items = []")
    case True
    then show ?thesis using same by auto
  next
    case False
    then have "items ! 0 \<in> set items" "?live (items ! 0)" using hd by auto
    then show ?thesis using same least False by (meson order_trans)
  qed
  ultimately show ?thesis using lv False by auto
qed

theorem Underpriority_exact_witness:
  "\<exists>l'. p_Underpriority demo_hash demo_all demo_plist (demo_nonce_tx 9 4) (\<lambda>t. False) = Ok (True, l')"
proof -
  have "\<exists>t \<in> set (p_items demo_plist). live_in demo_hash demo_all t"
    "\<forall>t \<in> set (p_items demo_plist). live_in demo_hash demo_all t \<longrightarrow> prio (demo_nonce_tx 9 4) \<le> prio t"
    by (simp_all add: demo_plist_def demo_live big_Int64_def)
  then show ?thesis using Underpriority_exact [OF demo_plist_inv, of "demo_nonce_tx 9 4" "\<lambda>t. False"] by auto
qed

lemma p_Removed_inv:
  assumes "p_inv live l" and "stale_count live' (p_items l) = stale_count live (p_items l) + 1"
    and "\<forall>(k, t) \<in> set all. live' t"
  shows "p_inv live' (p_Removed all l)"
proof -
  have "filter_mset (\<lambda>t. \<not> live' t) (mset (map snd all)) = {#}"
    using assms(3) by (force simp: filter_mset_eq_conv)
  then show ?thesis
    using assms prio_heap.heap_Init_heap [of "map snd all"] by (auto simp: p_inv_def p_Removed_def Let_def)
qed

end
