(* ===== verification/TxOrder.thy ===== *)
theory TxOrder
  imports TxListProofs "HOL-Library.Sublist"
begin

text \<open>
  The order in which a block producer takes the pending transactions: the two transaction sets of
  \<^verbatim>\<open>core/transaction/transaction.go\<close> and the loop \<^verbatim>\<open>commitTransactions\<close> of \<^verbatim>\<open>blockproducer/producer.go\<close> that drains
  the second of them. The map from accounts to their transactions is an association list in iteration
  order; \<open>acc\<close> is the address that \<^verbatim>\<open>Sender\<close> returns for a transaction. The transactions in the priority heap
  have a priority. Executing one transaction on the state of the block is the argument \<open>exec\<close>.

  Shown: the loop ends, whatever the outcomes; each account's transactions enter the block in the order
  of its list and at most once; if none fails all of them enter.
\<close>

subsection \<open>In the order of the pool\<close>

record tx_set =
  ts_txs :: "(address \<times> transaction list) list"
  ts_heads :: "transaction list"

fun take_heads ::
  "(transaction \<Rightarrow> address) \<Rightarrow> address list \<Rightarrow> (address \<times> transaction list) list \<Rightarrow> transaction list \<Rightarrow> (unit, tx_set) result" where
  "take_heads acc [] txs heads = Ok \<lparr>ts_txs = txs, ts_heads = heads\<rparr>"
| "take_heads acc (a # as) txs heads =
     (case map_of txs a of
        Some (t # ts) \<Rightarrow> take_heads acc as (AList.update (acc t) ts txs) (heads @ [t])
      | _ \<Rightarrow> Panic)"

definition NewTransactionsForProducing ::
  "(transaction \<Rightarrow> address) \<Rightarrow> (address \<times> transaction list) list \<Rightarrow> (unit, tx_set) result" where
  "NewTransactionsForProducing acc txs = take_heads acc (map fst txs) txs []"

definition producing_Peek :: "tx_set \<Rightarrow> transaction option" where
  "producing_Peek t = (if ts_heads t = [] then None else Some (ts_heads t ! 0))"

definition producing_Pop :: "tx_set \<Rightarrow> tx_set" where
  "producing_Pop t = (if ts_heads t \<noteq> [] then t\<lparr>ts_heads := drop 1 (ts_heads t)\<rparr> else t)"

definition producing_Shift :: "(transaction \<Rightarrow> address) \<Rightarrow> tx_set \<Rightarrow> (unit, tx_set) result" where
  "producing_Shift acc t =
     (if ts_heads t = [] then Panic
      else let a = acc (ts_heads t ! 0) in
        case map_of (ts_txs t) a of
          Some (x # xs) \<Rightarrow> Ok \<lparr>ts_txs = AList.update a xs (ts_txs t), ts_heads = (ts_heads t)[0 := x]\<rparr>
        | _ \<Rightarrow> Ok (producing_Pop t))"

subsection \<open>By priority and nonce\<close>

definition raw_prio :: "transaction \<Rightarrow> int" where
  "raw_prio tx = (case Priority tx of None \<Rightarrow> 0 | Some p \<Rightarrow> p)"

definition TxByPriority_Less :: "transaction \<Rightarrow> transaction \<Rightarrow> bool" where
  "TxByPriority_Less a b \<longleftrightarrow> raw_prio a > raw_prio b"

definition NewTransactionsByPriorityAndNonce ::
  "(transaction \<Rightarrow> address) \<Rightarrow> (address \<times> transaction list) list \<Rightarrow> transaction \<Rightarrow> (unit, tx_set) result" where
  "NewTransactionsByPriorityAndNonce acc txs txReword =
     bind_result (take_heads acc (map fst txs) txs [txReword]) (\<lambda>t.
       Ok (t\<lparr>ts_heads := heap_Init TxByPriority_Less (ts_heads t)\<rparr>))"

definition ts_Peek :: "tx_set \<Rightarrow> transaction option" where
  "ts_Peek t = (if ts_heads t = [] then None else Some (ts_heads t ! 0))"

definition ts_Pop :: "tx_set \<Rightarrow> (unit, tx_set) result" where
  "ts_Pop t = bind_result (heap_Pop TxByPriority_Less (ts_heads t)) (\<lambda>(_, hs). Ok (t\<lparr>ts_heads := hs\<rparr>))"

definition ts_Shift :: "(transaction \<Rightarrow> address) \<Rightarrow> tx_set \<Rightarrow> (unit, tx_set) result" where
  "ts_Shift acc t =
     (if ts_heads t = [] then Panic
      else let a = acc (ts_heads t ! 0) in
        case map_of (ts_txs t) a of
          Some (x # xs) \<Rightarrow>
            Ok \<lparr>ts_txs = AList.update a xs (ts_txs t),
                ts_heads = heap_Fix TxByPriority_Less ((ts_heads t)[0 := x]) 0\<rparr>
        | _ \<Rightarrow> ts_Pop t)"

subsection \<open>The loop of the producer\<close>

datatype commit_err = ErrNonceTooLow | ErrNonceTooHigh | ErrOther

definition commitTransaction ::
  "('s \<Rightarrow> transaction \<Rightarrow> commit_err + 's) \<Rightarrow> 's \<Rightarrow> transaction list \<Rightarrow> transaction
   \<Rightarrow> commit_err option \<times> 's \<times> transaction list" where
  "commitTransaction exec state txs tx =
     (case exec state tx of
        Inr state' \<Rightarrow> (None, state', txs @ [tx])
      | Inl e \<Rightarrow> (Some e, state, txs))"

definition remaining :: "tx_set \<Rightarrow> nat" where
  "remaining t = length (ts_heads t) + sum_list (map (length \<circ> snd) (ts_txs t))"

interpretation producer_heap: heap_order TxByPriority_Less
  by unfold_locales (auto simp: TxByPriority_Less_def)

lemma heap_Fix_length: "0 < length xs \<Longrightarrow> length (heap_Fix TxByPriority_Less xs 0) = length xs"
  using producer_heap.down_from_elems [of "length xs" xs 0]
    producer_heap.up_elems [of 0 "fst (down_from TxByPriority_Less xs 0 (length xs))"]
  by (simp add: heap_Fix_def split_beta producer_heap.fst_down)

lemma sum_update:
  "map_of txs a = Some (x # xs) \<Longrightarrow>
     Suc (sum_list (map (length \<circ> snd) (AList.update a xs txs))) = sum_list (map (length \<circ> snd) txs)"
  by (induction txs) auto

lemma ts_Pop_remaining: "ts_Pop t = Ok t' \<Longrightarrow> remaining t' < remaining t"
  using heap_Pop_shorter [of TxByPriority_Less "ts_heads t"]
  by (auto simp: ts_Pop_def bind_result_Ok_iff remaining_def)

lemma ts_Shift_remaining: "ts_Shift acc t = Ok t' \<Longrightarrow> remaining t' < remaining t"
proof -
  assume S: "ts_Shift acc t = Ok t'"
  then have ne: "ts_heads t \<noteq> []" by (auto simp: ts_Shift_def)
  show ?thesis
  proof (cases "\<exists>x xs. map_of (ts_txs t) (acc (ts_heads t ! 0)) = Some (x # xs)")
    case True
    then obtain x xs where m: "map_of (ts_txs t) (acc (ts_heads t ! 0)) = Some (x # xs)" by blast
    show ?thesis
      using S ne m sum_update [OF m] heap_Fix_length [of "(ts_heads t)[0 := x]"]
      by (auto simp: ts_Shift_def remaining_def)
  next
    case False
    then have "ts_Shift acc t = ts_Pop t" using ne by (auto simp: ts_Shift_def Let_def split: option.split list.split)
    then show ?thesis using S ts_Pop_remaining by simp
  qed
qed

function commitTransactions ::
  "('s \<Rightarrow> transaction \<Rightarrow> commit_err + 's) \<Rightarrow> (transaction \<Rightarrow> address) \<Rightarrow> 's \<Rightarrow> transaction list \<Rightarrow> tx_set
   \<Rightarrow> (unit, 's \<times> transaction list) result" where
  "commitTransactions exec acc state txs t =
     (case ts_Peek t of
        None \<Rightarrow> Ok (state, txs)
      | Some tx \<Rightarrow>
          (case commitTransaction exec state txs tx of
             (err, state', txs') \<Rightarrow>
               bind_result (if err = Some ErrNonceTooHigh then ts_Pop t else ts_Shift acc t)
                 (\<lambda>t'. commitTransactions exec acc state' txs' t')))"
  by pat_completeness auto
termination
  by (relation "measure (\<lambda>(_, _, _, _, t). remaining t)")
    (auto simp: ts_Pop_remaining ts_Shift_remaining split: if_splits)

declare commitTransactions.simps [simp del]

subsection \<open>Queues of the accounts\<close>

definition pending_of :: "(address \<times> transaction list) list \<Rightarrow> address \<Rightarrow> transaction list" where
  "pending_of txs a = (case map_of txs a of None \<Rightarrow> [] | Some l \<Rightarrow> l)"

definition queue :: "(transaction \<Rightarrow> address) \<Rightarrow> tx_set \<Rightarrow> address \<Rightarrow> transaction list" where
  "queue acc t a = filter (\<lambda>x. acc x = a) (ts_heads t) @ pending_of (ts_txs t) a"

definition ts_inv :: "(transaction \<Rightarrow> address) \<Rightarrow> tx_set \<Rightarrow> bool" where
  "ts_inv acc t \<longleftrightarrow> is_heap TxByPriority_Less (ts_heads t) \<and>
     (\<forall>a. \<forall>x \<in> set (pending_of (ts_txs t) a). acc x = a) \<and> distinct (map acc (ts_heads t))"

lemma filter_distinct_key:
  assumes "distinct (map f xs)" and "mset ys = mset xs"
  shows "filter (\<lambda>x. f x = a) ys = filter (\<lambda>x. f x = a) xs"
proof -
  have d: "distinct (map f ys)" using assms by (metis mset_map mset_eq_imp_distinct_iff)
  have one: "distinct (map f zs) \<Longrightarrow> length (filter (\<lambda>x. f x = a) zs) \<le> 1" for zs
    by (induction zs) (auto simp: filter_empty_conv image_iff)
  have "mset (filter (\<lambda>x. f x = a) ys) = mset (filter (\<lambda>x. f x = a) xs)" using assms(2) by simp
  then show ?thesis using one [OF d] one [OF assms(1)]
    by (cases "filter (\<lambda>x. f x = a) ys"; cases "filter (\<lambda>x. f x = a) xs") auto
qed

lemma pending_of_update: "pending_of (AList.update a l txs) b = (if b = a then l else pending_of txs b)"
  by (simp add: pending_of_def update_conv')

lemma filter_tail_empty:
  assumes "distinct (map f (h # hs))"
  shows "filter (\<lambda>x. f x = f h) hs = []"
proof -
  have "f x \<noteq> f h" if "x \<in> set hs" for x using assms imageI [OF that, of f] by auto
  then show ?thesis by (simp add: filter_empty_conv)
qed

lemma queue_head:
  assumes "ts_inv acc t" and "ts_heads t \<noteq> []" and "h = ts_heads t ! 0"
  shows "queue acc t (acc h) = h # pending_of (ts_txs t) (acc h)"
proof -
  obtain hs where hs: "ts_heads t = h # hs" using assms(2,3) by (cases "ts_heads t") auto
  have "filter (\<lambda>x. acc x = acc h) hs = []"
    by (rule filter_tail_empty) (use assms(1) in \<open>simp add: ts_inv_def hs\<close>)
  then show ?thesis by (simp add: queue_def hs)
qed

lemma ts_Pop_queue:
  assumes "ts_inv acc t" and "ts_heads t \<noteq> []" and "h = ts_heads t ! 0"
  obtains t' where "ts_Pop t = Ok t'" and "ts_inv acc t'" and "ts_txs t' = ts_txs t"
    and "\<forall>b. queue acc t' b = (if b = acc h then pending_of (ts_txs t) b else queue acc t b)"
proof -
  have "is_heap TxByPriority_Less (ts_heads t)" using assms(1) by (simp add: ts_inv_def)
  then obtain rest where P: "heap_Pop TxByPriority_Less (ts_heads t) = Ok (h, rest)" "is_heap TxByPriority_Less rest"
    "mset (ts_heads t) = add_mset h (mset rest)"
    using assms(2) unfolding assms(3) by (rule producer_heap.heap_Pop_heap)
  have m: "mset (h # rest) = mset (ts_heads t)" using P(3) by simp
  have d: "distinct (map acc (h # rest))"
    using assms(1) m by (metis ts_inv_def mset_map mset_eq_imp_distinct_iff)
  let ?t = "t\<lparr>ts_heads := rest\<rparr>"
  have "queue acc ?t b = (if b = acc h then pending_of (ts_txs t) b else queue acc t b)" for b
  proof -
    have "filter (\<lambda>x. acc x = b) (ts_heads t) = filter (\<lambda>x. acc x = b) (h # rest)"
      using filter_distinct_key [OF d] m by metis
    moreover have "filter (\<lambda>x. acc x = acc h) rest = []" by (rule filter_tail_empty [OF d])
    ultimately show ?thesis by (auto simp: queue_def)
  qed
  moreover have "ts_inv acc ?t" using assms(1) P(2) d by (simp add: ts_inv_def)
  ultimately show thesis using that [of ?t] P(1) by (simp add: ts_Pop_def)
qed

text \<open>Every account with pending transactions has a head.\<close>

definition headed :: "(transaction \<Rightarrow> address) \<Rightarrow> tx_set \<Rightarrow> bool" where
  "headed acc t \<longleftrightarrow> (\<forall>a. pending_of (ts_txs t) a \<noteq> [] \<longrightarrow> filter (\<lambda>x. acc x = a) (ts_heads t) \<noteq> [])"

lemma ts_Shift_queue:
  assumes "ts_inv acc t" and "ts_heads t \<noteq> []" and "h = ts_heads t ! 0"
  obtains t' where "ts_Shift acc t = Ok t'" and "ts_inv acc t'"
    and "queue acc t (acc h) = h # queue acc t' (acc h)" and "\<forall>b. b \<noteq> acc h \<longrightarrow> queue acc t' b = queue acc t b"
    and "headed acc t \<longrightarrow> headed acc t'"
proof (cases "pending_of (ts_txs t) (acc h)")
  case Nil
  obtain t' where P: "ts_Pop t = Ok t'" "ts_inv acc t'" "ts_txs t' = ts_txs t"
    "\<forall>b. queue acc t' b = (if b = acc h then pending_of (ts_txs t) b else queue acc t b)"
    by (rule ts_Pop_queue [OF assms])
  moreover have "ts_Shift acc t = ts_Pop t"
    using Nil assms(2,3) by (auto simp: ts_Shift_def pending_of_def Let_def split: option.splits list.split)
  moreover have "headed acc t \<longrightarrow> headed acc t'"
    using P(3,4) Nil by (simp add: headed_def queue_def split: if_splits) metis
  ultimately show thesis using that [of t'] queue_head [OF assms] by simp
next
  case (Cons x xs)
  let ?hs = "heap_Fix TxByPriority_Less ((ts_heads t)[0 := x]) 0"
  let ?t = "\<lparr>ts_txs = AList.update (acc h) xs (ts_txs t), ts_heads = ?hs\<rparr>"
  obtain hs where hs: "ts_heads t = h # hs" using assms(2,3) by (cases "ts_heads t") auto
  have m: "map_of (ts_txs t) (acc h) = Some (x # xs)" using Cons by (auto simp: pending_of_def split: option.splits)
  have ax: "acc x = acc h" using assms(1) Cons by (force simp: ts_inv_def)
  have fx: "is_heap TxByPriority_Less ?hs" "mset ?hs = mset (x # hs)"
    using producer_heap.heap_Fix_heap [of "ts_heads t" 0 x] assms(1) by (simp_all add: ts_inv_def hs)
  have d: "distinct (map acc (x # hs))" using assms(1) ax by (simp add: ts_inv_def hs)
  have q: "filter (\<lambda>y. acc y = b) ?hs = filter (\<lambda>y. acc y = b) (x # hs)" for b
    by (rule filter_distinct_key [OF d fx(2)])
  have "distinct (map acc ?hs)" using d fx(2) by (metis mset_map mset_eq_imp_distinct_iff)
  then have "ts_inv acc ?t" using assms(1) fx(1) Cons by (auto simp: ts_inv_def pending_of_update)
  moreover have "queue acc t (acc h) = h # queue acc ?t (acc h)"
    using queue_head [OF assms] filter_tail_empty [OF d] ax q Cons by (simp add: queue_def pending_of_update)
  moreover have "queue acc ?t b = queue acc t b" if "b \<noteq> acc h" for b
    using that q ax by (simp add: queue_def pending_of_update hs)
  moreover have "ts_Shift acc t = Ok ?t" using m assms(2,3) by (simp add: ts_Shift_def)
  moreover have "headed acc t \<longrightarrow> headed acc ?t"
    using q ax by (auto simp: headed_def pending_of_update hs)
  ultimately show thesis using that [of ?t] by blast
qed

lemma subseq_queue_step:
  assumes "\<forall>b. subseq (filter (\<lambda>x. acc x = b) new) (queue acc t' b)"
    and "queue acc t (acc h) = h # q" and "subseq (queue acc t' (acc h)) q"
    and "\<forall>b. b \<noteq> acc h \<longrightarrow> queue acc t' b = queue acc t b"
  shows "subseq (filter (\<lambda>x. acc x = b) (if inc then h # new else new)) (queue acc t b)"
proof (cases "b = acc h")
  case True
  have "subseq (filter (\<lambda>x. acc x = acc h) new) q" using assms(1,3) subseq_order.trans by blast
  then show ?thesis using True assms(2) by auto
next
  case False
  have "subseq (filter (\<lambda>x. acc x = b) new) (queue acc t b)" using assms(1,4) False by metis
  then show ?thesis using False by simp
qed

lemma commitTransactions_order:
  assumes "ts_inv acc t"
  shows "\<exists>state' new. commitTransactions exec acc state txs t = Ok (state', txs @ new) \<and>
    (\<forall>b. subseq (filter (\<lambda>x. acc x = b) new) (queue acc t b))"
  using assms
proof (induction "remaining t" arbitrary: state txs t rule: less_induct)
  case less
  show ?case
  proof (cases "ts_heads t = []")
    case True
    then show ?thesis by (subst commitTransactions.simps) (simp add: ts_Peek_def)
  next
    case False
    define h where "h = ts_heads t ! 0"
    define inc where "inc = (\<exists>s. exec state h = Inr s)"
    obtain err state1 where C: "commitTransaction exec state txs h = (err, state1, txs @ (if inc then [h] else []))"
      by (cases "exec state h") (auto simp: commitTransaction_def inc_def)
    have eq: "commitTransactions exec acc state txs t =
        bind_result (if err = Some ErrNonceTooHigh then ts_Pop t else ts_Shift acc t)
          (commitTransactions exec acc state1 (txs @ (if inc then [h] else [])))"
      using False by (subst commitTransactions.simps) (simp add: ts_Peek_def C flip: h_def)
    obtain t' where t': "(if err = Some ErrNonceTooHigh then ts_Pop t else ts_Shift acc t) = Ok t'" "ts_inv acc t'"
      and q: "subseq (queue acc t' (acc h)) (pending_of (ts_txs t) (acc h))"
        "\<forall>b. b \<noteq> acc h \<longrightarrow> queue acc t' b = queue acc t b"
    proof (cases "err = Some ErrNonceTooHigh")
      case True
      obtain t' where "ts_Pop t = Ok t'" "ts_inv acc t'" "ts_txs t' = ts_txs t"
        "\<forall>b. queue acc t' b = (if b = acc h then pending_of (ts_txs t) b else queue acc t b)"
        by (rule ts_Pop_queue [OF less.prems False h_def])
      then show ?thesis using that [of t'] True by simp
    next
      case no: False
      obtain t' where "ts_Shift acc t = Ok t'" "ts_inv acc t'" "queue acc t (acc h) = h # queue acc t' (acc h)"
        "\<forall>b. b \<noteq> acc h \<longrightarrow> queue acc t' b = queue acc t b" "headed acc t \<longrightarrow> headed acc t'"
        by (rule ts_Shift_queue [OF less.prems False h_def])
      then show ?thesis using that [of t'] no queue_head [OF less.prems False h_def] by simp
    qed
    have rem: "remaining t' < remaining t"
      using t'(1) by (auto simp: ts_Pop_remaining ts_Shift_remaining split: if_splits)
    obtain state' new where N: "commitTransactions exec acc state1 (txs @ (if inc then [h] else [])) t' =
        Ok (state', (txs @ (if inc then [h] else [])) @ new)"
      and sub: "\<forall>b. subseq (filter (\<lambda>x. acc x = b) new) (queue acc t' b)"
      using less.hyps [OF rem t'(2)] by blast
    have "subseq (filter (\<lambda>x. acc x = b) (if inc then h # new else new)) (queue acc t b)" for b
      by (rule subseq_queue_step [OF sub queue_head [OF less.prems False h_def] q])
    then show ?thesis
      using eq t'(1) N by (intro exI [of _ state'] exI [of _ "if inc then h # new else new"]) auto
  qed
qed

lemma commitTransactions_complete:
  assumes "ts_inv acc t" and "headed acc t" and "\<And>s x. \<exists>s'. exec s x = Inr s'"
  shows "\<exists>state' new. commitTransactions exec acc state txs t = Ok (state', txs @ new) \<and>
    (\<forall>b. filter (\<lambda>x. acc x = b) new = queue acc t b)"
  using assms(1,2)
proof (induction "remaining t" arbitrary: state txs t rule: less_induct)
  case less
  show ?case
  proof (cases "ts_heads t = []")
    case True
    then show ?thesis using less.prems(2)
      by (subst commitTransactions.simps) (auto simp: ts_Peek_def queue_def headed_def)
  next
    case False
    define h where "h = ts_heads t ! 0"
    obtain state1 where A: "exec state h = Inr state1" using assms(3) by blast
    obtain t' where t': "ts_Shift acc t = Ok t'" "ts_inv acc t'" "queue acc t (acc h) = h # queue acc t' (acc h)"
      "\<forall>b. b \<noteq> acc h \<longrightarrow> queue acc t' b = queue acc t b" "headed acc t \<longrightarrow> headed acc t'"
      by (rule ts_Shift_queue [OF less.prems(1) False h_def])
    have eq: "commitTransactions exec acc state txs t = commitTransactions exec acc state1 (txs @ [h]) t'"
      using False by (subst commitTransactions.simps) (simp add: ts_Peek_def commitTransaction_def A t'(1) flip: h_def)
    obtain state' new where "commitTransactions exec acc state1 (txs @ [h]) t' = Ok (state', (txs @ [h]) @ new)"
      "\<forall>b. filter (\<lambda>x. acc x = b) new = queue acc t' b"
      using less.hyps [OF ts_Shift_remaining [OF t'(1)] t'(2)] t'(5) less.prems(2) by blast
    then show ?thesis using eq t'(3,4) by (intro exI [of _ state'] exI [of _ "h # new"]) auto
  qed
qed

subsection \<open>The whole block\<close>

lemma take_heads_Ok:
  assumes "distinct as" and "\<forall>a \<in> set as. pending_of txs a \<noteq> []"
    and "\<forall>a. \<forall>x \<in> set (pending_of txs a). acc x = a" and "distinct (map acc heads @ as)"
  shows "\<exists>txs' hs. take_heads acc as txs heads = Ok \<lparr>ts_txs = txs', ts_heads = heads @ hs\<rparr> \<and> map acc hs = as \<and>
    (\<forall>a. pending_of txs a = (if a \<in> set as then filter (\<lambda>x. acc x = a) hs else []) @ pending_of txs' a)"
  using assms
proof (induction as arbitrary: txs heads)
  case (Cons a as)
  obtain x xs where m: "map_of txs a = Some (x # xs)"
    using Cons.prems(2) by (auto simp: pending_of_def neq_Nil_conv split: option.splits)
  then have p: "pending_of txs a = x # xs" by (simp add: pending_of_def)
  then have ax: "acc x = a" using Cons.prems(3) by force
  let ?txs = "AList.update a xs txs"
  have "\<forall>b. \<forall>y \<in> set (pending_of ?txs b). acc y = b" using Cons.prems(3) p by (auto simp: pending_of_update)
  moreover have "\<forall>b \<in> set as. pending_of ?txs b \<noteq> []" using Cons.prems(1,2) by (auto simp: pending_of_update)
  ultimately obtain txs' hs where IH: "take_heads acc as ?txs (heads @ [x]) = Ok \<lparr>ts_txs = txs', ts_heads = (heads @ [x]) @ hs\<rparr>"
    "map acc hs = as" "\<forall>b. pending_of ?txs b = (if b \<in> set as then filter (\<lambda>x. acc x = b) hs else []) @ pending_of txs' b"
    using Cons.IH [of ?txs "heads @ [x]"] Cons.prems(1,4) ax by auto
  have "pending_of txs b = (if b \<in> set (a # as) then filter (\<lambda>x. acc x = b) (x # hs) else []) @ pending_of txs' b" for b
    using IH(3) [rule_format, of b] IH(2) p ax Cons.prems(1) filter_tail_empty [of acc x hs]
    by (auto simp: pending_of_update split: if_splits)
  then show ?case using IH(1,2) m ax by (intro exI [of _ txs'] exI [of _ "x # hs"]) auto
qed simp

lemma new_set_inv:
  assumes "distinct (map fst txs)" and "\<forall>(a, l) \<in> set txs. l \<noteq> [] \<and> (\<forall>x \<in> set l. acc x = a)"
    and "acc reward \<notin> fst ` set txs"
  obtains t where "NewTransactionsByPriorityAndNonce acc txs reward = Ok t" and "ts_inv acc t" and "headed acc t"
    and "\<forall>a. queue acc t a = (if a = acc reward then [reward] else pending_of txs a)"
proof -
  have pn: "pending_of txs a = []" if "a \<notin> fst ` set txs" for a
    using that map_of_eq_None_iff [of txs a] by (simp add: pending_of_def)
  have pk: "pending_of txs a \<noteq> []" if k: "a \<in> fst ` set txs" for a
  proof -
    obtain l where l: "(a, l) \<in> set txs" using k by auto
    then have "l \<noteq> []" using assms(2) by auto
    then show ?thesis using l assms(1) by (simp add: pending_of_def)
  qed
  have po: "acc x = a" if k: "x \<in> set (pending_of txs a)" for x a
  proof -
    obtain l where "map_of txs a = Some l" "x \<in> set l" using k by (cases "map_of txs a") (auto simp: pending_of_def)
    then show ?thesis using assms(2) by (auto dest!: map_of_SomeD)
  qed
  have "\<exists>txs' hs. take_heads acc (map fst txs) txs [reward] = Ok \<lparr>ts_txs = txs', ts_heads = [reward] @ hs\<rparr> \<and>
      map acc hs = map fst txs \<and>
      (\<forall>a. pending_of txs a = (if a \<in> set (map fst txs) then filter (\<lambda>x. acc x = a) hs else []) @ pending_of txs' a)"
  proof (rule take_heads_Ok)
    show "\<forall>a \<in> set (map fst txs). pending_of txs a \<noteq> []" "\<forall>a. \<forall>x \<in> set (pending_of txs a). acc x = a"
      using pk po by auto
  qed (use assms in auto)
  then obtain txs' hs where T: "take_heads acc (map fst txs) txs [reward] = Ok \<lparr>ts_txs = txs', ts_heads = reward # hs\<rparr>"
    and hs: "map acc hs = map fst txs"
    and q: "\<And>a. pending_of txs a = (if a \<in> fst ` set txs then filter (\<lambda>x. acc x = a) hs else []) @ pending_of txs' a"
    by auto
  let ?heads = "heap_Init TxByPriority_Less (reward # hs)"
  let ?t = "\<lparr>ts_txs = txs', ts_heads = ?heads\<rparr>"
  note init = producer_heap.heap_Init_heap [of "reward # hs"]
  have d: "distinct (map acc (reward # hs))" using assms(1,3) hs by (simp flip: image_set)
  have f: "filter (\<lambda>x. acc x = a) ?heads = filter (\<lambda>x. acc x = a) (reward # hs)" for a
    by (rule filter_distinct_key [OF d]) (use init in simp)
  have none: "filter (\<lambda>x. acc x = a) hs = []" if "a \<notin> fst ` set txs" for a
    using that arg_cong [OF hs, of set] by (auto simp: filter_empty_conv)
  have some: "filter (\<lambda>x. acc x = a) hs \<noteq> []" if "a \<in> fst ` set txs" for a
    using that hs by (metis (mono_tags) filter_empty_conv image_iff set_map)
  have queue: "queue acc ?t a = (if a = acc reward then [reward] else pending_of txs a)" for a
    using q [of a] none [of a] assms(3) pn [of a] by (auto simp: queue_def f)
  have "distinct (map acc ?heads)" using d init by (metis mset_map mset_eq_imp_distinct_iff)
  moreover have "acc x = a" if "x \<in> set (pending_of txs' a)" for x a
    using that q [of a] po [of x a] by auto
  ultimately have "ts_inv acc ?t" using init by (simp add: ts_inv_def)
  moreover have "headed acc ?t"
    unfolding headed_def
  proof (intro allI impI)
    fix a assume "pending_of (ts_txs ?t) a \<noteq> []"
    then have "a \<in> fst ` set txs" using q [of a] pn [of a] by auto
    then show "filter (\<lambda>x. acc x = a) (ts_heads ?t) \<noteq> []" using some [of a] f [of a] by simp
  qed
  ultimately show thesis using that [of ?t] T queue by (simp add: NewTransactionsByPriorityAndNonce_def)
qed


definition demo_acc :: "transaction \<Rightarrow> address" where
  "demo_acc tx = replicate 20 (of_int (raw_prio tx mod 2))"


end
