(* ===== verification/StateDB.thy ===== *)
theory StateDB
  imports HexTypes "HOL-Library.AList"
begin

text \<open>
  The world state: \<^verbatim>\<open>core/state/statedb.go\<close>, \<^verbatim>\<open>state_object.go\<close>, \<^verbatim>\<open>journal.go\<close> and \<^verbatim>\<open>managed_state.go\<close>.

  The state is a record that every operation returns updated. A Go map is an association list in
  iteration order, a set of addresses a list. State objects are held in the map by value: all access
  goes through \<^verbatim>\<open>getStateObject\<close>, and the setters write the object back under its address. The callback
  \<^verbatim>\<open>onDirty\<close> of an object is either nil or \<^verbatim>\<open>MarkStateObjectDirty\<close> of its state, a boolean. The account trie, the
  storage tries, the code database, Keccak and the msgpack coding are the functions of an \<open>sdb_env\<close>; reading a
  trie does not change it (the nodes it may load are not observable).
\<close>

subsection \<open>Data\<close>

record account_data =
  acc_Nonce :: u64
  acc_Root :: hash
  acc_CodeHash :: "bytes option"

record 't sdb_env =
  OpenTrie :: "hash \<Rightarrow> string + 't"
  OpenStorageTrie :: "hash \<Rightarrow> hash \<Rightarrow> string + 't"
  EmptyStorageTrie :: "'t"
  CopyTrie :: "'t \<Rightarrow> 't"
  ContractCode :: "hash \<Rightarrow> hash \<Rightarrow> bytes option \<times> string option"
  ContractCodeSize :: "hash \<Rightarrow> hash \<Rightarrow> nat \<times> string option"
  t_get :: "'t \<Rightarrow> bytes \<Rightarrow> bytes \<times> string option"
  t_update :: "'t \<Rightarrow> bytes \<Rightarrow> bytes \<Rightarrow> 't \<times> string option"
  t_delete :: "'t \<Rightarrow> bytes \<Rightarrow> 't \<times> string option"
  t_hash :: "'t \<Rightarrow> hash"
  keccak :: "bytes \<Rightarrow> bytes"
  dec_account :: "bytes \<Rightarrow> account_data option"
  enc_account :: "account_data \<Rightarrow> bytes option"
  dec_hash :: "bytes \<Rightarrow> hash"
  enc_hash :: "hash \<Rightarrow> bytes"

type_synonym storage = "(hash \<times> hash) list"

record 't state_object =
  so_address :: address
  so_addrHash :: hash
  so_data :: account_data
  so_dbErr :: "string option"
  so_trie :: "'t option"
  so_code :: "bytes option"
  so_cachedStorage :: storage
  so_dirtyStorage :: storage
  so_dirtyCode :: bool
  so_suicided :: bool
  so_touched :: bool
  so_deleted :: bool
  so_onDirty :: bool

datatype 't journal_entry =
    CreateObjectChange address
  | ResetObjectChange "'t state_object"
  | SuicideChange address bool
  | NonceChange address u64
  | StorageChange address hash hash
  | CodeChange address "bytes option" bytes
  | RefundChange u64
  | AddLogChange hash
  | AddPreimageChange hash
  | TouchChange address bool bool

record tx_log =
  log_Address :: address
  log_Topics :: "hash list"
  log_Data :: "bytes list"
  log_BlockNumber :: u64
  log_TxHash :: hash
  log_TxIndex :: u64
  log_BlockHash :: hash
  log_Index :: u64
  log_Removed :: bool

record 't statedb =
  sdb_trie :: 't
  sdb_objects :: "(address \<times> 't state_object) list"
  sdb_dirty :: "address list"
  sdb_dbErr :: "string option"
  sdb_refund :: u64
  sdb_thash :: hash
  sdb_bhash :: hash
  sdb_txIndex :: u64
  sdb_logs :: "(hash \<times> tx_log list) list"
  sdb_logSize :: u64
  sdb_preimages :: "(hash \<times> bytes) list"
  sdb_journal :: "'t journal_entry list"
  sdb_validRevisions :: "(nat \<times> nat) list"
  sdb_nextRevisionId :: nat

abbreviation zero_hash :: hash where
  "zero_hash \<equiv> replicate HashLength 0"

subsection \<open>State objects\<close>

definition emptyCodeHash :: "'t sdb_env \<Rightarrow> bytes" where
  "emptyCodeHash E = keccak E []"

definition CodeHash_bytes :: "'t state_object \<Rightarrow> bytes" where
  "CodeHash_bytes so = (case acc_CodeHash (so_data so) of None \<Rightarrow> [] | Some h \<Rightarrow> h)"

definition so_empty :: "'t sdb_env \<Rightarrow> 't state_object \<Rightarrow> bool" where
  "so_empty E so \<longleftrightarrow> acc_Nonce (so_data so) = 0 \<and> CodeHash_bytes so = emptyCodeHash E"

definition newObject :: "'t sdb_env \<Rightarrow> address \<Rightarrow> account_data \<Rightarrow> bool \<Rightarrow> 't state_object" where
  "newObject E addr d onDirty =
     \<lparr>so_address = addr, so_addrHash = BytesToHash (keccak E addr),
      so_data = (if acc_CodeHash d = None then d\<lparr>acc_CodeHash := Some (emptyCodeHash E)\<rparr> else d),
      so_dbErr = None, so_trie = None, so_code = None, so_cachedStorage = [], so_dirtyStorage = [],
      so_dirtyCode = False, so_suicided = False, so_touched = False, so_deleted = False, so_onDirty = onDirty\<rparr>"

definition so_setError :: "string option \<Rightarrow> 't state_object \<Rightarrow> 't state_object" where
  "so_setError err so = (if so_dbErr so = None then so\<lparr>so_dbErr := err\<rparr> else so)"

text \<open>\<^verbatim>\<open>MarkStateObjectDirty\<close>, and the call of the callback that every setter ends with.\<close>

definition MarkStateObjectDirty :: "address \<Rightarrow> 't statedb \<Rightarrow> 't statedb" where
  "MarkStateObjectDirty addr s = s\<lparr>sdb_dirty := List.insert addr (sdb_dirty s)\<rparr>"

definition setStateObject :: "'t state_object \<Rightarrow> 't statedb \<Rightarrow> 't statedb" where
  "setStateObject so s = s\<lparr>sdb_objects := AList.update (so_address so) so (sdb_objects s)\<rparr>"

definition write_dirty :: "'t state_object \<Rightarrow> 't statedb \<Rightarrow> 't statedb" where
  "write_dirty so s =
     setStateObject (so\<lparr>so_onDirty := False\<rparr>) (if so_onDirty so then MarkStateObjectDirty (so_address so) s else s)"

definition add_journal :: "'t journal_entry \<Rightarrow> 't statedb \<Rightarrow> 't statedb" where
  "add_journal e s = s\<lparr>sdb_journal := sdb_journal s @ [e]\<rparr>"

definition markSuicided :: "'t state_object \<Rightarrow> 't statedb \<Rightarrow> 't statedb" where
  "markSuicided so s = write_dirty (so\<lparr>so_suicided := True\<rparr>) s"

definition so_touch :: "'t state_object \<Rightarrow> 't statedb \<Rightarrow> 't statedb" where
  "so_touch so s =
     write_dirty (so\<lparr>so_touched := True\<rparr>)
       (add_journal (TouchChange (so_address so) (so_touched so) (\<not> so_onDirty so)) s)"

definition getTrie :: "'t sdb_env \<Rightarrow> 't state_object \<Rightarrow> 't \<times> 't state_object" where
  "getTrie E so =
     (case so_trie so of
        Some t \<Rightarrow> (t, so)
      | None \<Rightarrow>
          (case OpenStorageTrie E (so_addrHash so) (acc_Root (so_data so)) of
             Inr t \<Rightarrow> (t, so\<lparr>so_trie := Some t\<rparr>)
           | Inl err \<Rightarrow>
               (EmptyStorageTrie E,
                so_setError (Some (''can't create storage trie: '' @ err)) (so\<lparr>so_trie := Some (EmptyStorageTrie E)\<rparr>))))"

definition so_GetState :: "'t sdb_env \<Rightarrow> 't state_object \<Rightarrow> hash \<Rightarrow> hash \<times> 't state_object" where
  "so_GetState E so key =
     (case map_of (so_cachedStorage so) key of
        Some v \<Rightarrow> (v, so)
      | None \<Rightarrow>
          (let (t, so1) = getTrie E so; (enc, err) = t_get E t key in
           case err of
             Some e \<Rightarrow> (zero_hash, so_setError (Some e) so1)
           | None \<Rightarrow>
               (let v = dec_hash E enc in
                (v, if v \<noteq> zero_hash
                    then so1\<lparr>so_cachedStorage := AList.update key v (so_cachedStorage so1)\<rparr> else so1))))"

definition so_setState :: "hash \<Rightarrow> hash \<Rightarrow> 't state_object \<Rightarrow> 't statedb \<Rightarrow> 't statedb" where
  "so_setState key v so s =
     write_dirty
       (so\<lparr>so_cachedStorage := AList.update key v (so_cachedStorage so),
           so_dirtyStorage := AList.update key v (so_dirtyStorage so)\<rparr>) s"

definition so_SetState :: "'t sdb_env \<Rightarrow> hash \<Rightarrow> hash \<Rightarrow> 't state_object \<Rightarrow> 't statedb \<Rightarrow> 't statedb" where
  "so_SetState E key v so s =
     (let (prev, so1) = so_GetState E so key in
      so_setState key v so1 (add_journal (StorageChange (so_address so) key prev) s))"

fun update_storage :: "'t sdb_env \<Rightarrow> storage \<Rightarrow> 't \<Rightarrow> 't state_object \<Rightarrow> 't \<times> 't state_object" where
  "update_storage E [] t so = (t, so)"
| "update_storage E ((key, v) # rest) t so =
     (let (t', err) = (if v = zero_hash then t_delete E t key else t_update E t key (enc_hash E v))
      in update_storage E rest t' (so_setError err so))"

definition updateTrie :: "'t sdb_env \<Rightarrow> 't state_object \<Rightarrow> 't state_object" where
  "updateTrie E so =
     (let (t, so1) = getTrie E so;
          (t', so2) = update_storage E (so_dirtyStorage so1) t so1
      in so2\<lparr>so_trie := Some t', so_dirtyStorage := []\<rparr>)"

definition updateRoot :: "'t sdb_env \<Rightarrow> 't state_object \<Rightarrow> 't state_object" where
  "updateRoot E so =
     (let so1 = updateTrie E so in
      case so_trie so1 of
        None \<Rightarrow> so1
      | Some t \<Rightarrow> so1\<lparr>so_data := (so_data so1)\<lparr>acc_Root := t_hash E t\<rparr>\<rparr>)"

definition deepCopy :: "'t sdb_env \<Rightarrow> 't state_object \<Rightarrow> bool \<Rightarrow> 't state_object" where
  "deepCopy E so onDirty =
     (newObject E (so_address so) (so_data so) onDirty)
       \<lparr>so_trie := map_option (CopyTrie E) (so_trie so), so_code := so_code so,
        so_dirtyStorage := so_dirtyStorage so, so_cachedStorage := so_dirtyStorage so,
        so_suicided := so_suicided so, so_dirtyCode := so_dirtyCode so, so_deleted := so_deleted so\<rparr>"

definition so_Code :: "'t sdb_env \<Rightarrow> 't state_object \<Rightarrow> bytes option \<times> 't state_object" where
  "so_Code E so =
     (case so_code so of
        Some c \<Rightarrow> (Some c, so)
      | None \<Rightarrow>
          if CodeHash_bytes so = emptyCodeHash E then (None, so)
          else let (c, err) = ContractCode E (so_addrHash so) (BytesToHash (CodeHash_bytes so));
                   so1 = (case err of None \<Rightarrow> so
                          | Some e \<Rightarrow> so_setError (Some (''can't load code hash '' @ e)) so)
               in (c, so1\<lparr>so_code := c\<rparr>))"

definition so_setCode :: "hash \<Rightarrow> bytes option \<Rightarrow> 't state_object \<Rightarrow> 't statedb \<Rightarrow> 't statedb" where
  "so_setCode codeHash c so s =
     write_dirty
       (so\<lparr>so_code := c, so_data := (so_data so)\<lparr>acc_CodeHash := Some codeHash\<rparr>, so_dirtyCode := True\<rparr>) s"

definition so_SetCode :: "'t sdb_env \<Rightarrow> hash \<Rightarrow> bytes option \<Rightarrow> 't state_object \<Rightarrow> 't statedb \<Rightarrow> 't statedb" where
  "so_SetCode E codeHash c so s =
     (let (prevcode, so1) = so_Code E so in
      so_setCode codeHash c so1 (add_journal (CodeChange (so_address so) prevcode (CodeHash_bytes so1)) s))"

definition so_setNonce :: "u64 \<Rightarrow> 't state_object \<Rightarrow> 't statedb \<Rightarrow> 't statedb" where
  "so_setNonce nonce so s = write_dirty (so\<lparr>so_data := (so_data so)\<lparr>acc_Nonce := nonce\<rparr>\<rparr>) s"

definition so_SetNonce :: "u64 \<Rightarrow> 't state_object \<Rightarrow> 't statedb \<Rightarrow> 't statedb" where
  "so_SetNonce nonce so s =
     so_setNonce nonce so (add_journal (NonceChange (so_address so) (acc_Nonce (so_data so))) s)"

subsection \<open>The state\<close>

definition New_statedb :: "'t sdb_env \<Rightarrow> hash \<Rightarrow> string + 't statedb" where
  "New_statedb E root =
     (case OpenTrie E root of
        Inl e \<Rightarrow> Inl e
      | Inr t \<Rightarrow> Inr \<lparr>sdb_trie = t, sdb_objects = [], sdb_dirty = [], sdb_dbErr = None, sdb_refund = 0,
          sdb_thash = zero_hash, sdb_bhash = zero_hash, sdb_txIndex = 0, sdb_logs = [], sdb_logSize = 0,
          sdb_preimages = [], sdb_journal = [], sdb_validRevisions = [], sdb_nextRevisionId = 0\<rparr>)"

definition sdb_setError :: "string option \<Rightarrow> 't statedb \<Rightarrow> 't statedb" where
  "sdb_setError err s = (if sdb_dbErr s = None then s\<lparr>sdb_dbErr := err\<rparr> else s)"

definition clearJournalAndRefund :: "'t statedb \<Rightarrow> 't statedb" where
  "clearJournalAndRefund s = s\<lparr>sdb_journal := [], sdb_validRevisions := [], sdb_refund := 0\<rparr>"

definition sdb_Reset :: "'t sdb_env \<Rightarrow> hash \<Rightarrow> 't statedb \<Rightarrow> string option \<times> 't statedb" where
  "sdb_Reset E root s =
     (case OpenTrie E root of
        Inl e \<Rightarrow> (Some e, s)
      | Inr t \<Rightarrow>
          (None, clearJournalAndRefund (s\<lparr>sdb_trie := t, sdb_objects := [], sdb_dirty := [],
             sdb_thash := zero_hash, sdb_bhash := zero_hash, sdb_txIndex := 0, sdb_logs := [],
             sdb_logSize := 0, sdb_preimages := []\<rparr>)))"

definition logs_of :: "'t statedb \<Rightarrow> hash \<Rightarrow> tx_log list" where
  "logs_of s h = (case map_of (sdb_logs s) h of None \<Rightarrow> [] | Some l \<Rightarrow> l)"

definition AddLog :: "tx_log \<Rightarrow> 't statedb \<Rightarrow> 't statedb" where
  "AddLog lg s =
     (let s1 = add_journal (AddLogChange (sdb_thash s)) s;
          lg' = lg\<lparr>log_TxHash := sdb_thash s, log_BlockHash := sdb_bhash s, log_TxIndex := sdb_txIndex s,
                   log_Index := sdb_logSize s\<rparr>
      in s1\<lparr>sdb_logs := AList.update (sdb_thash s) (logs_of s (sdb_thash s) @ [lg']) (sdb_logs s),
            sdb_logSize := sdb_logSize s + 1\<rparr>)"

definition GetLogs :: "hash \<Rightarrow> 't statedb \<Rightarrow> tx_log list" where
  "GetLogs h s = logs_of s h"

definition sdb_Logs :: "'t statedb \<Rightarrow> tx_log list" where
  "sdb_Logs s = concat (map snd (sdb_logs s))"

definition AddPreimage :: "hash \<Rightarrow> bytes \<Rightarrow> 't statedb \<Rightarrow> 't statedb" where
  "AddPreimage h preimage s =
     (if map_of (sdb_preimages s) h = None
      then (add_journal (AddPreimageChange h) s)\<lparr>sdb_preimages := AList.update h preimage (sdb_preimages s)\<rparr>
      else s)"

definition AddRefund :: "u64 \<Rightarrow> 't statedb \<Rightarrow> 't statedb" where
  "AddRefund v s = (add_journal (RefundChange (sdb_refund s)) s)\<lparr>sdb_refund := sdb_refund s + v\<rparr>"

definition getStateObject :: "'t sdb_env \<Rightarrow> address \<Rightarrow> 't statedb \<Rightarrow> 't state_object option \<times> 't statedb" where
  "getStateObject E addr s =
     (case map_of (sdb_objects s) addr of
        Some obj \<Rightarrow> (if so_deleted obj then None else Some obj, s)
      | None \<Rightarrow>
          (let (enc, err) = t_get E (sdb_trie s) addr in
           if length enc = 0 then (None, sdb_setError err s)
           else case dec_account E enc of
                  None \<Rightarrow> (None, s)
                | Some d \<Rightarrow> (let obj = newObject E addr d True in (Some obj, setStateObject obj s))))"

text \<open>A read through an object: the object, with what the read cached in it, stays in the map.\<close>

definition with_object ::
  "'t sdb_env \<Rightarrow> address \<Rightarrow> 'a \<Rightarrow> ('t state_object \<Rightarrow> 'a \<times> 't state_object) \<Rightarrow> 't statedb \<Rightarrow> 'a \<times> 't statedb" where
  "with_object E addr dflt f s =
     (case getStateObject E addr s of
        (None, s1) \<Rightarrow> (dflt, s1)
      | (Some so, s1) \<Rightarrow> (let (a, so1) = f so in (a, setStateObject so1 s1)))"

definition Exist :: "'t sdb_env \<Rightarrow> address \<Rightarrow> 't statedb \<Rightarrow> bool \<times> 't statedb" where
  "Exist E addr s = (let (so, s1) = getStateObject E addr s in (so \<noteq> None, s1))"

definition sdb_Empty :: "'t sdb_env \<Rightarrow> address \<Rightarrow> 't statedb \<Rightarrow> bool \<times> 't statedb" where
  "sdb_Empty E addr s = with_object E addr True (\<lambda>so. (so_empty E so, so)) s"

definition GetNonce :: "'t sdb_env \<Rightarrow> address \<Rightarrow> 't statedb \<Rightarrow> u64 \<times> 't statedb" where
  "GetNonce E addr s = with_object E addr 0 (\<lambda>so. (acc_Nonce (so_data so), so)) s"

definition GetCode :: "'t sdb_env \<Rightarrow> address \<Rightarrow> 't statedb \<Rightarrow> bytes option \<times> 't statedb" where
  "GetCode E addr s = with_object E addr None (so_Code E) s"

definition GetCodeSize :: "'t sdb_env \<Rightarrow> address \<Rightarrow> 't statedb \<Rightarrow> nat \<times> 't statedb" where
  "GetCodeSize E addr s =
     (case getStateObject E addr s of
        (None, s1) \<Rightarrow> (0, s1)
      | (Some so, s1) \<Rightarrow>
          (case so_code so of
             Some c \<Rightarrow> (length c, s1)
           | None \<Rightarrow>
               (let (n, err) = ContractCodeSize E (so_addrHash so) (BytesToHash (CodeHash_bytes so))
                in (n, if err = None then s1 else sdb_setError err s1))))"

definition GetCodeHash :: "'t sdb_env \<Rightarrow> address \<Rightarrow> 't statedb \<Rightarrow> hash \<times> 't statedb" where
  "GetCodeHash E addr s = with_object E addr zero_hash (\<lambda>so. (BytesToHash (CodeHash_bytes so), so)) s"

definition sdb_GetState :: "'t sdb_env \<Rightarrow> address \<Rightarrow> hash \<Rightarrow> 't statedb \<Rightarrow> hash \<times> 't statedb" where
  "sdb_GetState E addr key s = with_object E addr zero_hash (\<lambda>so. so_GetState E so key) s"

definition StorageTrie :: "'t sdb_env \<Rightarrow> address \<Rightarrow> 't statedb \<Rightarrow> 't option \<times> 't statedb" where
  "StorageTrie E addr s = with_object E addr None (\<lambda>so. (so_trie (updateTrie E (deepCopy E so False)), so)) s"

definition HasSuicided :: "'t sdb_env \<Rightarrow> address \<Rightarrow> 't statedb \<Rightarrow> bool \<times> 't statedb" where
  "HasSuicided E addr s = with_object E addr False (\<lambda>so. (so_suicided so, so)) s"

definition createObject :: "'t sdb_env \<Rightarrow> address \<Rightarrow> 't statedb \<Rightarrow> 't state_object \<times> 't statedb" where
  "createObject E addr s =
     (let (prev, s1) = getStateObject E addr s;
          newobj = (newObject E addr \<lparr>acc_Nonce = 0, acc_Root = zero_hash, acc_CodeHash = None\<rparr> True)
                     \<lparr>so_onDirty := False\<rparr>;
          s2 = MarkStateObjectDirty addr s1;
          s3 = add_journal (case prev of None \<Rightarrow> CreateObjectChange addr | Some p \<Rightarrow> ResetObjectChange p) s2
      in (newobj, setStateObject newobj s3))"

definition CreateAccount :: "'t sdb_env \<Rightarrow> address \<Rightarrow> 't statedb \<Rightarrow> 't statedb" where
  "CreateAccount E addr s = snd (createObject E addr s)"

definition GetOrNewStateObject :: "'t sdb_env \<Rightarrow> address \<Rightarrow> 't statedb \<Rightarrow> 't state_object \<times> 't statedb" where
  "GetOrNewStateObject E addr s =
     (case getStateObject E addr s of
        (Some so, s1) \<Rightarrow> if so_deleted so then createObject E addr s1 else (so, s1)
      | (None, s1) \<Rightarrow> createObject E addr s1)"

definition sdb_SetNonce :: "'t sdb_env \<Rightarrow> address \<Rightarrow> u64 \<Rightarrow> 't statedb \<Rightarrow> 't statedb" where
  "sdb_SetNonce E addr nonce s = (let (so, s1) = GetOrNewStateObject E addr s in so_SetNonce nonce so s1)"

definition sdb_SetCode :: "'t sdb_env \<Rightarrow> address \<Rightarrow> bytes option \<Rightarrow> 't statedb \<Rightarrow> 't statedb" where
  "sdb_SetCode E addr c s =
     (let (so, s1) = GetOrNewStateObject E addr s in
      so_SetCode E (BytesToHash (keccak E (case c of None \<Rightarrow> [] | Some b \<Rightarrow> b))) c so s1)"

definition sdb_SetState :: "'t sdb_env \<Rightarrow> address \<Rightarrow> hash \<Rightarrow> hash \<Rightarrow> 't statedb \<Rightarrow> 't statedb" where
  "sdb_SetState E addr key v s = (let (so, s1) = GetOrNewStateObject E addr s in so_SetState E key v so s1)"

definition Suicide :: "'t sdb_env \<Rightarrow> address \<Rightarrow> 't statedb \<Rightarrow> bool \<times> 't statedb" where
  "Suicide E addr s =
     (case getStateObject E addr s of
        (None, s1) \<Rightarrow> (False, s1)
      | (Some so, s1) \<Rightarrow> (True, markSuicided so (add_journal (SuicideChange addr (so_suicided so)) s1)))"

definition updateStateObject :: "'t sdb_env \<Rightarrow> 't state_object \<Rightarrow> 't statedb \<Rightarrow> (unit, 't statedb) result" where
  "updateStateObject E so s =
     (case enc_account E (so_data so) of
        None \<Rightarrow> Panic
      | Some enc \<Rightarrow>
          (let (t, err) = t_update E (sdb_trie s) (so_address so) enc in Ok (sdb_setError err (s\<lparr>sdb_trie := t\<rparr>))))"

definition deleteStateObject :: "'t sdb_env \<Rightarrow> 't state_object \<Rightarrow> 't statedb \<Rightarrow> 't statedb" where
  "deleteStateObject E so s =
     (let s1 = setStateObject (so\<lparr>so_deleted := True\<rparr>) s; (t, err) = t_delete E (sdb_trie s1) (so_address so)
      in sdb_setError err (s1\<lparr>sdb_trie := t\<rparr>))"

subsection \<open>Snapshots\<close>

definition Snapshot :: "'t statedb \<Rightarrow> nat \<times> 't statedb" where
  "Snapshot s =
     (let i = sdb_nextRevisionId s in
      (i, s\<lparr>sdb_nextRevisionId := i + 1,
            sdb_validRevisions := sdb_validRevisions s @ [(i, length (sdb_journal s))]\<rparr>))"

definition on_object ::
  "'t sdb_env \<Rightarrow> address \<Rightarrow> ('t state_object \<Rightarrow> 't statedb \<Rightarrow> 't statedb) \<Rightarrow> 't statedb \<Rightarrow> (unit, 't statedb) result" where
  "on_object E addr f s =
     (case getStateObject E addr s of (None, s1) \<Rightarrow> Panic | (Some so, s1) \<Rightarrow> Ok (f so s1))"

definition ripemd :: address where
  "ripemd = replicate 19 0 @ [3]"

fun undo :: "'t sdb_env \<Rightarrow> 't journal_entry \<Rightarrow> 't statedb \<Rightarrow> (unit, 't statedb) result" where
  "undo E (CreateObjectChange a) s =
     Ok (s\<lparr>sdb_objects := AList.delete a (sdb_objects s), sdb_dirty := removeAll a (sdb_dirty s)\<rparr>)"
| "undo E (ResetObjectChange prev) s = Ok (setStateObject prev s)"
| "undo E (SuicideChange a prev) s =
     (case getStateObject E a s of
        (None, s1) \<Rightarrow> Ok s1
      | (Some so, s1) \<Rightarrow> Ok (setStateObject (so\<lparr>so_suicided := prev\<rparr>) s1))"
| "undo E (TouchChange a prev prevDirty) s =
     (if \<not> prev \<and> a \<noteq> ripemd
      then on_object E a (\<lambda>so s1.
             let s2 = setStateObject (so\<lparr>so_touched := prev\<rparr>) s1
             in if \<not> prevDirty then s2\<lparr>sdb_dirty := removeAll a (sdb_dirty s2)\<rparr> else s2) s
      else Ok s)"
| "undo E (NonceChange a prev) s = on_object E a (so_setNonce prev) s"
| "undo E (CodeChange a prevcode prevhash) s = on_object E a (so_setCode (BytesToHash prevhash) prevcode) s"
| "undo E (StorageChange a key prev) s = on_object E a (so_setState key prev) s"
| "undo E (RefundChange prev) s = Ok (s\<lparr>sdb_refund := prev\<rparr>)"
| "undo E (AddLogChange h) s =
     (let l = logs_of s h in
      if length l = 0 then Panic
      else Ok (s\<lparr>sdb_logs := (if length l = 1 then AList.delete h (sdb_logs s)
                              else AList.update h (take (length l - 1) l) (sdb_logs s)),
                 sdb_logSize := sdb_logSize s - 1\<rparr>))"
| "undo E (AddPreimageChange h) s = Ok (s\<lparr>sdb_preimages := AList.delete h (sdb_preimages s)\<rparr>)"

text \<open>Undoing a list of entries, the first of the list first.\<close>

fun undo_all :: "'t sdb_env \<Rightarrow> 't journal_entry list \<Rightarrow> 't statedb \<Rightarrow> (unit, 't statedb) result" where
  "undo_all E [] s = Ok s"
| "undo_all E (e # es) s = bind_result (undo E e s) (undo_all E es)"

text \<open>\<^verbatim>\<open>sort.Search\<close>: binary search for the first index that satisfies a predicate.\<close>

function sort_Search :: "(nat \<Rightarrow> bool) \<Rightarrow> nat \<Rightarrow> nat \<Rightarrow> nat" where
  "sort_Search f i j =
     (if i < j then let h = (i + j) div 2 in if \<not> f h then sort_Search f (h + 1) j else sort_Search f i h else i)"
  by pat_completeness auto
termination by (relation "measure (\<lambda>(_, i, j). j - i)") auto

declare sort_Search.simps [simp del]

definition RevertToSnapshot :: "'t sdb_env \<Rightarrow> nat \<Rightarrow> 't statedb \<Rightarrow> (unit, 't statedb) result" where
  "RevertToSnapshot E revid s =
     (let revs = sdb_validRevisions s;
          idx = sort_Search (\<lambda>i. fst (revs ! i) \<ge> revid) 0 (length revs)
      in if idx = length revs \<or> fst (revs ! idx) \<noteq> revid then Panic
         else let snapshot = snd (revs ! idx) in
           bind_result (undo_all E (rev (drop snapshot (sdb_journal s))) s) (\<lambda>s'.
             Ok (s'\<lparr>sdb_journal := take snapshot (sdb_journal s'), sdb_validRevisions := take idx revs\<rparr>)))"

subsection \<open>Finalising and committing\<close>

definition finalise_object :: "'t sdb_env \<Rightarrow> bool \<Rightarrow> address \<Rightarrow> 't statedb \<Rightarrow> (unit, 't statedb) result" where
  "finalise_object E deleteEmpty addr s =
     (case map_of (sdb_objects s) addr of
        None \<Rightarrow> Panic
      | Some so \<Rightarrow>
          if so_suicided so \<or> (deleteEmpty \<and> so_empty E so) then Ok (deleteStateObject E so s)
          else let so1 = updateRoot E so in updateStateObject E so1 (setStateObject so1 s))"

fun finalise_loop :: "'t sdb_env \<Rightarrow> bool \<Rightarrow> address list \<Rightarrow> 't statedb \<Rightarrow> (unit, 't statedb) result" where
  "finalise_loop E deleteEmpty [] s = Ok s"
| "finalise_loop E deleteEmpty (a # as) s = bind_result (finalise_object E deleteEmpty a s) (finalise_loop E deleteEmpty as)"

definition Finalise :: "'t sdb_env \<Rightarrow> bool \<Rightarrow> 't statedb \<Rightarrow> (unit, 't statedb) result" where
  "Finalise E deleteEmpty s =
     bind_result (finalise_loop E deleteEmpty (sdb_dirty s) s) (\<lambda>s'. Ok (clearJournalAndRefund s'))"

definition IntermediateRoot :: "'t sdb_env \<Rightarrow> 't statedb \<Rightarrow> (unit, hash \<times> 't statedb) result" where
  "IntermediateRoot E s = bind_result (Finalise E True s) (\<lambda>s'. Ok (t_hash E (sdb_trie s'), s'))"

definition sdb_Prepare :: "hash \<Rightarrow> hash \<Rightarrow> u64 \<Rightarrow> 't statedb \<Rightarrow> 't statedb" where
  "sdb_Prepare thash bhash ti s = s\<lparr>sdb_thash := thash, sdb_bhash := bhash, sdb_txIndex := ti\<rparr>"

fun delete_suicides_loop :: "address list \<Rightarrow> 't statedb \<Rightarrow> (unit, 't statedb) result" where
  "delete_suicides_loop [] s = Ok s"
| "delete_suicides_loop (a # as) s =
     (case map_of (sdb_objects s) a of
        None \<Rightarrow> Panic
      | Some so \<Rightarrow>
          let s1 = (if so_suicided so then setStateObject (so\<lparr>so_deleted := True\<rparr>) s else s)
          in delete_suicides_loop as (s1\<lparr>sdb_dirty := removeAll a (sdb_dirty s1)\<rparr>))"

definition DeleteSuicides :: "'t statedb \<Rightarrow> (unit, 't statedb) result" where
  "DeleteSuicides s = delete_suicides_loop (sdb_dirty s) (clearJournalAndRefund s)"

text \<open>The database writer: \<^verbatim>\<open>Put\<close>, and \<^verbatim>\<open>CommitTo\<close> of a trie.\<close>

record ('t, 'w) commit_env =
  w_put :: "bytes \<Rightarrow> bytes \<Rightarrow> 'w \<Rightarrow> string option \<times> 'w"
  t_commit :: "'t \<Rightarrow> 'w \<Rightarrow> (string + hash) \<times> 't \<times> 'w"

definition CommitTrie ::
  "'t sdb_env \<Rightarrow> ('t, 'w) commit_env \<Rightarrow> 't state_object \<Rightarrow> 'w \<Rightarrow> string option \<times> 't state_object \<times> 'w" where
  "CommitTrie E W so w =
     (let so1 = updateTrie E so in
      case so_dbErr so1 of
        Some e \<Rightarrow> (Some e, so1, w)
      | None \<Rightarrow>
          (case so_trie so1 of
             None \<Rightarrow> (None, so1, w)
           | Some t \<Rightarrow>
               (case t_commit W t w of
                  (Inl e, t', w') \<Rightarrow> (Some e, so1\<lparr>so_trie := Some t'\<rparr>, w')
                | (Inr root, t', w') \<Rightarrow>
                    (None, so1\<lparr>so_trie := Some t', so_data := (so_data so1)\<lparr>acc_Root := root\<rparr>\<rparr>, w'))))"

definition write_code :: "('t, 'w) commit_env \<Rightarrow> 't state_object \<Rightarrow> 'w \<Rightarrow> string option \<times> 't state_object \<times> 'w" where
  "write_code W so w =
     (case so_code so of
        Some c \<Rightarrow>
          if so_dirtyCode so
          then (case w_put W (CodeHash_bytes so) c w of
                  (Some e, w') \<Rightarrow> (Some e, so, w')
                | (None, w') \<Rightarrow> (None, so\<lparr>so_dirtyCode := False\<rparr>, w'))
          else (None, so, w)
      | None \<Rightarrow> (None, so, w))"

text \<open>One round of the loop of \<^verbatim>\<open>CommitTo\<close>; the error is that of an early return.\<close>

definition commit_object ::
  "'t sdb_env \<Rightarrow> ('t, 'w) commit_env \<Rightarrow> bool \<Rightarrow> address \<times> 't state_object \<Rightarrow> 't statedb \<times> 'w
   \<Rightarrow> (unit, string option \<times> 't statedb \<times> 'w) result" where
  "commit_object E W deleteEmpty = (\<lambda>(addr, so) (s, w).
     let isDirty = (addr \<in> set (sdb_dirty s));
         undirty = (\<lambda>s. s\<lparr>sdb_dirty := removeAll addr (sdb_dirty s)\<rparr>)
     in if so_suicided so \<or> (isDirty \<and> deleteEmpty \<and> so_empty E so)
        then Ok (None, undirty (deleteStateObject E so s), w)
        else if isDirty
        then (case write_code W so w of
                (Some e, so1, w1) \<Rightarrow> Ok (Some e, setStateObject so1 s, w1)
              | (None, so1, w1) \<Rightarrow>
                  (case CommitTrie E W so1 w1 of
                     (Some e, so2, w2) \<Rightarrow> Ok (Some e, setStateObject so2 s, w2)
                   | (None, so2, w2) \<Rightarrow>
                       bind_result (updateStateObject E so2 (setStateObject so2 s)) (\<lambda>s'. Ok (None, undirty s', w2))))
        else Ok (None, undirty s, w))"

fun commit_loop ::
  "'t sdb_env \<Rightarrow> ('t, 'w) commit_env \<Rightarrow> bool \<Rightarrow> (address \<times> 't state_object) list \<Rightarrow> 't statedb \<times> 'w
   \<Rightarrow> (unit, string option \<times> 't statedb \<times> 'w) result" where
  "commit_loop E W deleteEmpty [] sw = Ok (None, sw)"
| "commit_loop E W deleteEmpty (o' # os) sw =
     bind_result (commit_object E W deleteEmpty o' sw) (\<lambda>(err, sw').
       case err of Some e \<Rightarrow> Ok (Some e, sw') | None \<Rightarrow> commit_loop E W deleteEmpty os sw')"

definition sdb_CommitTo ::
  "'t sdb_env \<Rightarrow> ('t, 'w) commit_env \<Rightarrow> bool \<Rightarrow> 't statedb \<Rightarrow> 'w \<Rightarrow> (unit, (string + hash) \<times> 't statedb \<times> 'w) result" where
  "sdb_CommitTo E W deleteEmpty s w =
     bind_result (commit_loop E W deleteEmpty (sdb_objects s) (s, w)) (\<lambda>(err, s1, w1).
       case err of
         Some e \<Rightarrow> Ok (Inl e, clearJournalAndRefund s1, w1)
       | None \<Rightarrow>
           (case t_commit W (sdb_trie s1) w1 of
              (r, t, w2) \<Rightarrow> Ok (r, clearJournalAndRefund (s1\<lparr>sdb_trie := t\<rparr>), w2)))"

subsection \<open>Copies\<close>

fun copy_loop ::
  "'t sdb_env \<Rightarrow> address list \<Rightarrow> (address \<times> 't state_object) list \<Rightarrow> 't statedb \<Rightarrow> (unit, 't statedb) result" where
  "copy_loop E [] objs c = Ok c"
| "copy_loop E (a # as) objs c =
     (case map_of objs a of
        None \<Rightarrow> Panic
      | Some so \<Rightarrow>
          copy_loop E as objs
            (c\<lparr>sdb_objects := AList.update a (deepCopy E so True) (sdb_objects c), sdb_dirty := List.insert a (sdb_dirty c)\<rparr>))"

definition sdb_Copy :: "'t sdb_env \<Rightarrow> 't statedb \<Rightarrow> (unit, 't statedb) result" where
  "sdb_Copy E s =
     copy_loop E (sdb_dirty s) (sdb_objects s)
       \<lparr>sdb_trie = CopyTrie E (sdb_trie s), sdb_objects = [], sdb_dirty = [], sdb_dbErr = None,
        sdb_refund = sdb_refund s, sdb_thash = zero_hash, sdb_bhash = zero_hash, sdb_txIndex = 0,
        sdb_logs = sdb_logs s, sdb_logSize = sdb_logSize s, sdb_preimages = sdb_preimages s,
        sdb_journal = [], sdb_validRevisions = [], sdb_nextRevisionId = 0\<rparr>"

subsection \<open>Managed nonces\<close>

text \<open>The pointer of an account to its state object is never read and is left out.\<close>

record managed_account =
  ma_nstart :: u64
  ma_nonces :: "bool list"

record 't managed_state =
  ms_state :: "'t statedb"
  ms_accounts :: "(address \<times> managed_account) list"

definition newAccount :: "'t state_object \<Rightarrow> managed_account" where
  "newAccount so = \<lparr>ma_nstart = acc_Nonce (so_data so), ma_nonces = []\<rparr>"

definition ManageState :: "'t sdb_env \<Rightarrow> 't statedb \<Rightarrow> (unit, 't managed_state) result" where
  "ManageState E s = bind_result (sdb_Copy E s) (\<lambda>c. Ok \<lparr>ms_state = c, ms_accounts = []\<rparr>)"

definition ms_SetState :: "'t statedb \<Rightarrow> 't managed_state \<Rightarrow> 't managed_state" where
  "ms_SetState s ms = ms\<lparr>ms_state := s\<rparr>"

definition hasAccount :: "address \<Rightarrow> 't managed_state \<Rightarrow> bool" where
  "hasAccount addr ms \<longleftrightarrow> map_of (ms_accounts ms) addr \<noteq> None"

definition put_account :: "address \<Rightarrow> managed_account \<Rightarrow> 't managed_state \<Rightarrow> 't managed_state" where
  "put_account addr a ms = ms\<lparr>ms_accounts := AList.update addr a (ms_accounts ms)\<rparr>"

definition next_nonce :: "managed_account \<Rightarrow> u64" where
  "next_nonce a = of_nat (length (ma_nonces a)) + ma_nstart a"

definition getAccount :: "'t sdb_env \<Rightarrow> address \<Rightarrow> 't managed_state \<Rightarrow> managed_account \<times> 't managed_state" where
  "getAccount E addr ms =
     (case map_of (ms_accounts ms) addr of
        None \<Rightarrow>
          (let (so, s1) = GetOrNewStateObject E addr (ms_state ms); a = newAccount so
           in (a, put_account addr a (ms\<lparr>ms_state := s1\<rparr>)))
      | Some a \<Rightarrow>
          (case getStateObject E addr (ms_state ms) of
             (Some so, s1) \<Rightarrow>
               if next_nonce a < acc_Nonce (so_data so)
               then (newAccount so, put_account addr (newAccount so) (ms\<lparr>ms_state := s1\<rparr>))
               else (a, ms\<lparr>ms_state := s1\<rparr>)
           | (None, s1) \<Rightarrow> (a, ms\<lparr>ms_state := s1\<rparr>)))"

definition ms_RemoveNonce :: "'t sdb_env \<Rightarrow> address \<Rightarrow> u64 \<Rightarrow> 't managed_state \<Rightarrow> 't managed_state" where
  "ms_RemoveNonce E addr n ms =
     (if hasAccount addr ms
      then let (a, ms1) = getAccount E addr ms in
        if n - ma_nstart a \<le> of_nat (length (ma_nonces a))
        then put_account addr (a\<lparr>ma_nonces := take (unat (n - ma_nstart a)) (ma_nonces a)\<rparr>) ms1 else ms1
      else ms)"

fun first_free :: "nat \<Rightarrow> bool list \<Rightarrow> nat option" where
  "first_free i [] = None"
| "first_free i (b # bs) = (if \<not> b then Some i else first_free (Suc i) bs)"

definition ms_NewNonce :: "'t sdb_env \<Rightarrow> address \<Rightarrow> 't managed_state \<Rightarrow> u64 \<times> 't managed_state" where
  "ms_NewNonce E addr ms =
     (let (a, ms1) = getAccount E addr ms in
      case first_free 0 (ma_nonces a) of
        Some i \<Rightarrow> (ma_nstart a + of_nat i, ms1)
      | None \<Rightarrow>
          (let a' = a\<lparr>ma_nonces := ma_nonces a @ [True]\<rparr>
           in (of_nat (length (ma_nonces a') - 1) + ma_nstart a', put_account addr a' ms1)))"

definition ms_GetNonce :: "'t sdb_env \<Rightarrow> address \<Rightarrow> 't managed_state \<Rightarrow> u64 \<times> 't managed_state" where
  "ms_GetNonce E addr ms =
     (if hasAccount addr ms
      then let (a, ms1) = getAccount E addr ms in (next_nonce a, ms1)
      else let (n, s1) = GetNonce E addr (ms_state ms) in (n, ms\<lparr>ms_state := s1\<rparr>))"

definition ms_SetNonce :: "'t sdb_env \<Rightarrow> address \<Rightarrow> u64 \<Rightarrow> 't managed_state \<Rightarrow> 't managed_state" where
  "ms_SetNonce E addr nonce ms =
     (let (so, s1) = GetOrNewStateObject E addr (ms_state ms)
      in put_account addr \<lparr>ma_nstart = nonce, ma_nonces = []\<rparr> (ms\<lparr>ms_state := so_SetNonce nonce so s1\<rparr>))"

end
