(* ===== verification/StateRevert.thy ===== *)
theory StateRevert
  imports StateDB
begin

text \<open>
  Reverting to a snapshot restores everything that can be observed of the state: existence, nonce, code, code
  hash, storage and the suicide mark of every account, the refund counter, the logs and the preimages. The proof
  is a relation \<open>same_view\<close> between states that every undo step respects, and for every operation that the
  undo of the entries it wrote leads back to a related state.
\<close>

subsection \<open>What can be observed\<close>

definition load_object :: "'t sdb_env \<Rightarrow> 't \<Rightarrow> address \<Rightarrow> 't state_object option" where
  "load_object E t a =
     (if length (fst (t_get E t a)) = 0 then None
      else map_option (\<lambda>d. newObject E a d True) (dec_account E (fst (t_get E t a))))"

definition obj_at :: "'t sdb_env \<Rightarrow> 't statedb \<Rightarrow> address \<Rightarrow> 't state_object option" where
  "obj_at E s a =
     (case map_of (sdb_objects s) a of
        Some so \<Rightarrow> if so_deleted so then None else Some so
      | None \<Rightarrow> load_object E (sdb_trie s) a)"

abbreviation storage_at :: "'t sdb_env \<Rightarrow> 't state_object \<Rightarrow> hash \<Rightarrow> hash" where
  "storage_at E so k \<equiv> fst (so_GetState E so k)"

abbreviation code_at :: "'t sdb_env \<Rightarrow> 't state_object \<Rightarrow> bytes option" where
  "code_at E so \<equiv> fst (so_Code E so)"

definition same_obj :: "'t sdb_env \<Rightarrow> 't state_object \<Rightarrow> 't state_object \<Rightarrow> bool" where
  "same_obj E x y \<longleftrightarrow> so_addrHash x = so_addrHash y \<and> acc_Nonce (so_data x) = acc_Nonce (so_data y) \<and>
     CodeHash_bytes x = CodeHash_bytes y \<and> code_at E x = code_at E y \<and> so_suicided x = so_suicided y \<and>
     (\<forall>k. storage_at E x k = storage_at E y k)"

definition same_view :: "'t sdb_env \<Rightarrow> 't statedb \<Rightarrow> 't statedb \<Rightarrow> bool" where
  "same_view E s s' \<longleftrightarrow>
     (\<forall>a. rel_option (same_obj E) (obj_at E s a) (obj_at E s' a)) \<and> sdb_trie s = sdb_trie s' \<and>
     sdb_refund s = sdb_refund s' \<and> (\<forall>h. logs_of s h = logs_of s' h) \<and> sdb_logSize s = sdb_logSize s' \<and>
     (\<forall>h. map_of (sdb_preimages s) h = map_of (sdb_preimages s') h)"

lemma same_obj_refl [simp]: "same_obj E x x"
  by (simp add: same_obj_def)

lemma same_obj_sym: "same_obj E x y \<Longrightarrow> same_obj E y x"
  by (simp add: same_obj_def)

lemma same_obj_trans: "same_obj E x y \<Longrightarrow> same_obj E y z \<Longrightarrow> same_obj E x z"
  by (simp add: same_obj_def)

lemma same_view_refl [simp]: "same_view E s s"
  by (auto simp: same_view_def intro: option.rel_refl)

lemma rel_same_refl [simp]: "rel_option (same_obj E) x x"
  by (cases x) auto

lemma rel_same_sym: "rel_option (same_obj E) x y \<Longrightarrow> rel_option (same_obj E) y x"
  by (cases x; cases y) (auto dest: same_obj_sym)

lemma rel_same_trans:
  "rel_option (same_obj E) x y \<Longrightarrow> rel_option (same_obj E) y z \<Longrightarrow> rel_option (same_obj E) x z"
  by (cases x; cases y; cases z) (auto dest: same_obj_trans)

lemma same_view_sym: "same_view E s s' \<Longrightarrow> same_view E s' s"
  unfolding same_view_def using rel_same_sym by metis

lemma same_view_trans: "same_view E s s' \<Longrightarrow> same_view E s' s'' \<Longrightarrow> same_view E s s''"
  unfolding same_view_def using rel_same_trans by metis

lemma same_viewD: "same_view E s s' \<Longrightarrow> rel_option (same_obj E) (obj_at E s a) (obj_at E s' a)"
  by (simp add: same_view_def)

subsection \<open>Reads\<close>

lemma so_setError_sel [simp]:
  "so_address (so_setError e so) = so_address so" "so_addrHash (so_setError e so) = so_addrHash so"
  "so_data (so_setError e so) = so_data so" "so_trie (so_setError e so) = so_trie so"
  "so_code (so_setError e so) = so_code so" "so_cachedStorage (so_setError e so) = so_cachedStorage so"
  "so_dirtyStorage (so_setError e so) = so_dirtyStorage so" "so_suicided (so_setError e so) = so_suicided so"
  "so_deleted (so_setError e so) = so_deleted so" "so_onDirty (so_setError e so) = so_onDirty so"
  by (simp_all add: so_setError_def)

lemma CodeHash_bytes_cong [simp]:
  "CodeHash_bytes (so_setError e so) = CodeHash_bytes so"
  "CodeHash_bytes (so\<lparr>so_trie := t\<rparr>) = CodeHash_bytes so" "CodeHash_bytes (so\<lparr>so_code := c\<rparr>) = CodeHash_bytes so"
  "CodeHash_bytes (so\<lparr>so_cachedStorage := cs\<rparr>) = CodeHash_bytes so"
  "CodeHash_bytes (so\<lparr>so_dirtyStorage := ds\<rparr>) = CodeHash_bytes so"
  "CodeHash_bytes (so\<lparr>so_onDirty := b\<rparr>) = CodeHash_bytes so" "CodeHash_bytes (so\<lparr>so_suicided := b\<rparr>) = CodeHash_bytes so"
  "CodeHash_bytes (so\<lparr>so_touched := b\<rparr>) = CodeHash_bytes so" "CodeHash_bytes (so\<lparr>so_dirtyCode := b\<rparr>) = CodeHash_bytes so"
  "CodeHash_bytes (so\<lparr>so_data := (so_data so)\<lparr>acc_Nonce := n\<rparr>\<rparr>) = CodeHash_bytes so"
  "CodeHash_bytes (so\<lparr>so_data := (so_data so)\<lparr>acc_CodeHash := Some h\<rparr>\<rparr>) = h"
  by (simp_all add: CodeHash_bytes_def)

text \<open>The storage of an object as a function of its cache and its trie.\<close>

definition object_trie :: "'t sdb_env \<Rightarrow> 't state_object \<Rightarrow> 't" where
  "object_trie E so = fst (getTrie E so)"

definition stor_of :: "'t sdb_env \<Rightarrow> hash option \<Rightarrow> 't \<Rightarrow> hash \<Rightarrow> hash" where
  "stor_of E cached t k =
     (case cached of
        Some v \<Rightarrow> v
      | None \<Rightarrow> (case t_get E t k of (enc, None) \<Rightarrow> dec_hash E enc | (enc, Some e) \<Rightarrow> zero_hash))"

definition trie_of :: "'t sdb_env \<Rightarrow> 't option \<Rightarrow> hash \<Rightarrow> hash \<Rightarrow> 't" where
  "trie_of E t addrHash root =
     (case t of
        Some t \<Rightarrow> t
      | None \<Rightarrow> (case OpenStorageTrie E addrHash root of Inr t \<Rightarrow> t | Inl e \<Rightarrow> EmptyStorageTrie E))"

definition code_of :: "'t sdb_env \<Rightarrow> bytes option \<Rightarrow> bytes \<Rightarrow> hash \<Rightarrow> bytes option" where
  "code_of E c ch addrHash =
     (case c of
        Some c \<Rightarrow> Some c
      | None \<Rightarrow> if ch = emptyCodeHash E then None else fst (ContractCode E addrHash (BytesToHash ch)))"

lemma storage_at_eq: "storage_at E so k = stor_of E (map_of (so_cachedStorage so) k) (object_trie E so) k"
  by (auto simp: so_GetState_def object_trie_def stor_of_def Let_def split: option.split prod.split)

lemma object_trie_eq: "object_trie E so = trie_of E (so_trie so) (so_addrHash so) (acc_Root (so_data so))"
  by (auto simp: object_trie_def getTrie_def trie_of_def split: option.split sum.split)

lemma code_at_eq: "code_at E so = code_of E (so_code so) (CodeHash_bytes so) (so_addrHash so)"
  by (auto simp: so_Code_def code_of_def split: option.split prod.split)

lemmas object_eqs = storage_at_eq object_trie_eq code_at_eq

lemma getTrie_obj:
  "snd (getTrie E so) = so\<lparr>so_trie := Some (object_trie E so), so_dbErr := so_dbErr (snd (getTrie E so))\<rparr>"
  by (auto simp: getTrie_def object_trie_def so_setError_def split: option.split sum.split)

lemma so_GetState_same:
  "same_obj E (snd (so_GetState E so k)) so \<and> so_address (snd (so_GetState E so k)) = so_address so \<and>
   so_deleted (snd (so_GetState E so k)) = so_deleted so \<and> so_onDirty (snd (so_GetState E so k)) = so_onDirty so"
proof (cases "map_of (so_cachedStorage so) k")
  case (Some v)
  then show ?thesis by (simp add: so_GetState_def)
next
  case None
  define so1 where "so1 = snd (getTrie E so)"
  obtain enc err where g: "t_get E (object_trie E so) k = (enc, err)" by fastforce
  have so1: "so1 = so\<lparr>so_trie := Some (object_trie E so), so_dbErr := so_dbErr so1\<rparr>"
    unfolding so1_def by (rule getTrie_obj)
  then have sel: "so_address so1 = so_address so" "so_deleted so1 = so_deleted so" "so_onDirty so1 = so_onDirty so"
    "so_addrHash so1 = so_addrHash so" "so_data so1 = so_data so" "so_code so1 = so_code so" "so_suicided so1 = so_suicided so"
    "so_cachedStorage so1 = so_cachedStorage so" "so_trie so1 = Some (object_trie E so)"
    by (metis state_object.select_convs state_object.update_convs state_object.surjective)+
  have G: "snd (so_GetState E so k) = (case err of Some e \<Rightarrow> so_setError (Some e) so1
      | None \<Rightarrow> if dec_hash E enc \<noteq> zero_hash
                then so1\<lparr>so_cachedStorage := AList.update k (dec_hash E enc) (so_cachedStorage so1)\<rparr> else so1)"
    using None g by (auto simp: so_GetState_def object_trie_def so1_def Let_def split: prod.splits option.split)
  show ?thesis
    unfolding G same_obj_def using None g sel
    by (auto simp: object_eqs trie_of_def stor_of_def CodeHash_bytes_def update_conv' split: option.splits prod.splits)
qed

lemma so_Code_same:
  "same_obj E (snd (so_Code E so)) so \<and> so_address (snd (so_Code E so)) = so_address so \<and>
   so_deleted (snd (so_Code E so)) = so_deleted so \<and> so_onDirty (snd (so_Code E so)) = so_onDirty so"
  by (auto simp: so_Code_def same_obj_def object_eqs code_of_def Let_def split: option.splits prod.splits)

subsection \<open>Writing an object\<close>

text \<open>Everything of the state but the objects, the dirty set and the memoised error.\<close>

definition rest_of ::
  "'t statedb \<Rightarrow> 't \<times> u64 \<times> hash \<times> hash \<times> u64 \<times> (hash \<times> tx_log list) list \<times> u64 \<times> (hash \<times> bytes) list
   \<times> 't journal_entry list \<times> (nat \<times> nat) list \<times> nat" where
  "rest_of s = (sdb_trie s, sdb_refund s, sdb_thash s, sdb_bhash s, sdb_txIndex s, sdb_logs s, sdb_logSize s,
     sdb_preimages s, sdb_journal s, sdb_validRevisions s, sdb_nextRevisionId s)"

lemma rest_ofD:
  assumes "rest_of s = rest_of s'"
  shows "sdb_trie s = sdb_trie s'" "sdb_refund s = sdb_refund s'" "sdb_logs s = sdb_logs s'" "sdb_logSize s = sdb_logSize s'"
    "sdb_preimages s = sdb_preimages s'" "sdb_journal s = sdb_journal s'"
    "sdb_validRevisions s = sdb_validRevisions s'" "sdb_nextRevisionId s = sdb_nextRevisionId s'"
  using assms by (simp_all add: rest_of_def)

lemma rest_of_ops [simp]:
  "rest_of (sdb_setError e s) = rest_of s" "rest_of (setStateObject so s) = rest_of s"
  "rest_of (MarkStateObjectDirty a s) = rest_of s" "rest_of (write_dirty so s) = rest_of s"
  by (simp_all add: rest_of_def sdb_setError_def setStateObject_def MarkStateObjectDirty_def write_dirty_def)

lemmas write_sel [simp] = rest_ofD [OF rest_of_ops(1)] rest_ofD [OF rest_of_ops(2)] rest_ofD [OF rest_of_ops(3)]
  rest_ofD [OF rest_of_ops(4)]

lemma logs_of_write [simp]:
  "logs_of (sdb_setError e s) = logs_of s" "logs_of (setStateObject so s) = logs_of s"
  "logs_of (MarkStateObjectDirty a s) = logs_of s" "logs_of (write_dirty so s) = logs_of s"
  "logs_of (add_journal j s) = logs_of s"
  by (auto simp: fun_eq_iff logs_of_def add_journal_def)

lemma obj_at_setStateObject:
  "obj_at E (setStateObject so s) b =
     (if b = so_address so then (if so_deleted so then None else Some so) else obj_at E s b)"
  by (auto simp: obj_at_def setStateObject_def update_conv' split: option.split)

lemma obj_at_other [simp]:
  "obj_at E (sdb_setError e s) = obj_at E s" "obj_at E (MarkStateObjectDirty a s) = obj_at E s"
  "obj_at E (add_journal j s) = obj_at E s"
  by (auto simp: obj_at_def sdb_setError_def MarkStateObjectDirty_def add_journal_def fun_eq_iff split: option.split)

lemma obj_at_write_dirty:
  "obj_at E (write_dirty so s) b =
     (if b = so_address so then (if so_deleted so then None else Some (so\<lparr>so_onDirty := False\<rparr>)) else obj_at E s b)"
  by (simp add: write_dirty_def obj_at_setStateObject)

lemma same_obj_fields:
  assumes "so_addrHash x = so_addrHash y" "so_data x = so_data y" "so_trie x = so_trie y" "so_code x = so_code y"
    "so_cachedStorage x = so_cachedStorage y" "so_suicided x = so_suicided y"
  shows "same_obj E x y"
  using assms by (simp add: same_obj_def object_eqs CodeHash_bytes_def)

lemma same_obj_onDirty [simp]:
  "same_obj E (so\<lparr>so_onDirty := b\<rparr>) so" "same_obj E so (so\<lparr>so_onDirty := b\<rparr>)"
  by (rule same_obj_fields; simp)+

lemma load_object_sel:
  "load_object E t a = Some so \<Longrightarrow> so_address so = a \<and> \<not> so_deleted so"
  by (auto simp: load_object_def newObject_def split: if_splits)

text \<open>\<^verbatim>\<open>getStateObject\<close> returns the object that can be observed, and loading it changes nothing that can be.\<close>

lemma getStateObject_eq:
  "\<exists>s1. getStateObject E a s = (obj_at E s a, s1) \<and> obj_at E s1 = obj_at E s \<and> rest_of s1 = rest_of s \<and>
     (s1 = sdb_setError (snd (t_get E (sdb_trie s) a)) s \<or> s1 = s \<or>
      map_of (sdb_objects s) a = None \<and> (\<exists>so. load_object E (sdb_trie s) a = Some so \<and> s1 = setStateObject so s))"
proof (cases "map_of (sdb_objects s) a")
  case (Some so)
  then show ?thesis by (simp add: getStateObject_def obj_at_def)
next
  case None
  obtain enc err where g: "t_get E (sdb_trie s) a = (enc, err)" by fastforce
  show ?thesis
  proof (cases "length enc = 0 \<or> dec_account E enc = None")
    case True
    then show ?thesis using None g by (auto simp: getStateObject_def obj_at_def load_object_def)
  next
    case False
    then obtain d where d: "dec_account E enc = Some d" by auto
    let ?so = "newObject E a d True"
    have l: "load_object E (sdb_trie s) a = Some ?so" using False g d by (simp add: load_object_def)
    have "obj_at E (setStateObject ?so s) = obj_at E s"
      using l None load_object_sel [OF l] by (auto simp: fun_eq_iff obj_at_setStateObject) (simp_all add: obj_at_def)
    then show ?thesis
      using None g d False l by (simp add: getStateObject_def obj_at_def Let_def)
  qed
qed

lemma same_viewI:
  assumes "\<And>a. rel_option (same_obj E) (obj_at E s a) (obj_at E s' a)" and "rest_of s = rest_of s'"
  shows "same_view E s s'"
  using assms(1) rest_ofD [OF assms(2)] by (simp add: same_view_def logs_of_def)

definition addr_ok :: "'t statedb \<Rightarrow> bool" where
  "addr_ok s \<longleftrightarrow> (\<forall>a so. map_of (sdb_objects s) a = Some so \<longrightarrow> so_address so = a)"

lemma addr_ok_ops [simp]:
  "addr_ok s \<Longrightarrow> addr_ok (sdb_setError e s)" "addr_ok s \<Longrightarrow> addr_ok (setStateObject so s)"
  "addr_ok s \<Longrightarrow> addr_ok (MarkStateObjectDirty a s)" "addr_ok s \<Longrightarrow> addr_ok (write_dirty so s)"
  "addr_ok s \<Longrightarrow> addr_ok (add_journal j s)"
  by (auto simp: addr_ok_def sdb_setError_def setStateObject_def MarkStateObjectDirty_def write_dirty_def
      add_journal_def update_conv')

lemma obj_at_address: "addr_ok s \<Longrightarrow> obj_at E s a = Some so \<Longrightarrow> so_address so = a \<and> \<not> so_deleted so"
  using load_object_sel [of E "sdb_trie s" a so] by (auto simp: obj_at_def addr_ok_def split: option.splits if_splits)

lemma getStateObject_cases:
  assumes "addr_ok s"
  obtains s1 where "getStateObject E a s = (obj_at E s a, s1)" "obj_at E s1 = obj_at E s" "rest_of s1 = rest_of s" "addr_ok s1"
  using getStateObject_eq [of E a s] assms by (metis addr_ok_ops(1,2))

lemma write_object_view:
  assumes "same_view E s s'" and "same_obj E x y" and "so_address x = so_address y"
    and "\<not> so_deleted x" "\<not> so_deleted y"
  shows "same_view E (write_dirty x s) (write_dirty y s')"
proof -
  have "same_obj E (x\<lparr>so_onDirty := False\<rparr>) (y\<lparr>so_onDirty := False\<rparr>)"
    by (rule same_obj_trans [OF same_obj_onDirty(1) same_obj_trans [OF assms(2) same_obj_onDirty(2)]])
  then show ?thesis using assms
    by (auto simp: same_view_def obj_at_write_dirty)
qed

subsection \<open>Undo respects the view\<close>

lemma same_obj_setNonce: "same_obj E x y \<Longrightarrow>
  same_obj E (x\<lparr>so_data := (so_data x)\<lparr>acc_Nonce := n\<rparr>\<rparr>) (y\<lparr>so_data := (so_data y)\<lparr>acc_Nonce := n\<rparr>\<rparr>)"
  by (auto simp: same_obj_def object_eqs)

lemma same_obj_setCode: "same_obj E x y \<Longrightarrow>
  same_obj E (x\<lparr>so_code := c, so_data := (so_data x)\<lparr>acc_CodeHash := Some h\<rparr>, so_dirtyCode := True\<rparr>)
    (y\<lparr>so_code := c, so_data := (so_data y)\<lparr>acc_CodeHash := Some h\<rparr>, so_dirtyCode := True\<rparr>)"
  by (auto simp: same_obj_def object_eqs CodeHash_bytes_def)

lemma storage_at_set:
  "storage_at E (x\<lparr>so_cachedStorage := AList.update k v (so_cachedStorage x),
      so_dirtyStorage := AList.update k v (so_dirtyStorage x)\<rparr>) k' = (if k' = k then v else storage_at E x k')"
  by (simp add: object_eqs update_conv' stor_of_def)

lemma same_obj_setState: "same_obj E x y \<Longrightarrow>
  same_obj E (x\<lparr>so_cachedStorage := AList.update k v (so_cachedStorage x), so_dirtyStorage := AList.update k v (so_dirtyStorage x)\<rparr>)
    (y\<lparr>so_cachedStorage := AList.update k v (so_cachedStorage y), so_dirtyStorage := AList.update k v (so_dirtyStorage y)\<rparr>)"
  by (auto simp: same_obj_def storage_at_set) (auto simp: object_eqs CodeHash_bytes_def)

lemma same_view_rest:
  assumes "same_view E s s'" and "obj_at E t = obj_at E s" "rest_of t = rest_of s"
    and "obj_at E t' = obj_at E s'" "rest_of t' = rest_of s'"
  shows "same_view E t t'"
  using assms(1,2,4) rest_ofD [OF assms(3)] rest_ofD [OF assms(5)] by (simp add: same_view_def logs_of_def)

lemma set_object_view:
  assumes "same_view E s s'" and "same_obj E x y" and "so_address x = so_address y" "so_deleted x = so_deleted y"
  shows "same_view E (setStateObject x s) (setStateObject y s')"
  using assms by (auto simp: same_view_def obj_at_setStateObject)

lemma same_obj_suicided: "same_obj E x y \<Longrightarrow> same_obj E (x\<lparr>so_suicided := b\<rparr>) (y\<lparr>so_suicided := b\<rparr>)"
  by (auto simp: same_obj_def object_eqs)

lemma same_obj_touched [simp]: "same_obj E (x\<lparr>so_touched := b\<rparr>) x" "same_obj E x (x\<lparr>so_touched := b\<rparr>)"
  by (rule same_obj_fields; simp)+

lemma obj_at_delete:
  "obj_at E (s\<lparr>sdb_objects := AList.delete a (sdb_objects s)\<rparr>) b =
     (if b = a then load_object E (sdb_trie s) a else obj_at E s b)"
  by (auto simp: obj_at_def delete_conv' split: option.split)

lemma logs_of_updates [simp]:
  "logs_of (s\<lparr>sdb_logs := AList.update h l (sdb_logs s)\<rparr>) k = (if k = h then l else logs_of s k)"
  "logs_of (s\<lparr>sdb_logs := AList.delete h (sdb_logs s)\<rparr>) k = (if k = h then [] else logs_of s k)"
  "logs_of (s\<lparr>sdb_logSize := n\<rparr>) k = logs_of s k" "logs_of (s\<lparr>sdb_refund := r\<rparr>) k = logs_of s k"
  "logs_of (s\<lparr>sdb_preimages := q\<rparr>) k = logs_of s k" "logs_of (s\<lparr>sdb_journal := j\<rparr>) k = logs_of s k"
  "logs_of (s\<lparr>sdb_validRevisions := v\<rparr>) k = logs_of s k" "logs_of (s\<lparr>sdb_nextRevisionId := i\<rparr>) k = logs_of s k"
  "logs_of (s\<lparr>sdb_objects := ob\<rparr>) k = logs_of s k" "logs_of (s\<lparr>sdb_dirty := d\<rparr>) k = logs_of s k"
  by (auto simp: logs_of_def update_conv' delete_conv')

lemma obj_at_updates [simp]:
  "obj_at E (s\<lparr>sdb_logs := l\<rparr>) = obj_at E s" "obj_at E (s\<lparr>sdb_logSize := n\<rparr>) = obj_at E s"
  "obj_at E (s\<lparr>sdb_refund := r\<rparr>) = obj_at E s" "obj_at E (s\<lparr>sdb_preimages := q\<rparr>) = obj_at E s"
  "obj_at E (s\<lparr>sdb_journal := j\<rparr>) = obj_at E s" "obj_at E (s\<lparr>sdb_validRevisions := v\<rparr>) = obj_at E s"
  "obj_at E (s\<lparr>sdb_nextRevisionId := i\<rparr>) = obj_at E s" "obj_at E (s\<lparr>sdb_dirty := d\<rparr>) = obj_at E s"
  by (auto simp: obj_at_def fun_eq_iff split: option.split)

lemma addr_ok_updates [simp]:
  "addr_ok (s\<lparr>sdb_logs := l\<rparr>) = addr_ok s" "addr_ok (s\<lparr>sdb_logSize := n\<rparr>) = addr_ok s"
  "addr_ok (s\<lparr>sdb_refund := r\<rparr>) = addr_ok s" "addr_ok (s\<lparr>sdb_preimages := q\<rparr>) = addr_ok s"
  "addr_ok (s\<lparr>sdb_journal := j\<rparr>) = addr_ok s" "addr_ok (s\<lparr>sdb_validRevisions := v\<rparr>) = addr_ok s"
  "addr_ok (s\<lparr>sdb_nextRevisionId := i\<rparr>) = addr_ok s" "addr_ok (s\<lparr>sdb_dirty := d\<rparr>) = addr_ok s"
  "addr_ok s \<Longrightarrow> addr_ok (s\<lparr>sdb_objects := AList.delete a (sdb_objects s)\<rparr>)"
  by (auto simp: addr_ok_def delete_conv' split: if_splits)

definition linked :: "'t sdb_env \<Rightarrow> 't statedb \<Rightarrow> 't statedb \<Rightarrow> bool" where
  "linked E s s' \<longleftrightarrow> same_view E s s' \<and> addr_ok s \<and> addr_ok s'"

lemma object_pair:
  assumes "linked E s s'"
  obtains (none) s1 s1' where "getStateObject E a s = (None, s1)" "getStateObject E a s' = (None, s1')" "linked E s1 s1'"
  | (some) x y s1 s1' where "getStateObject E a s = (Some x, s1)" "getStateObject E a s' = (Some y, s1')"
      "same_obj E x y" "so_address x = a" "so_address y = a" "\<not> so_deleted x" "\<not> so_deleted y" "linked E s1 s1'"
proof -
  have v: "same_view E s s'" and ok: "addr_ok s" "addr_ok s'" using assms by (auto simp: linked_def)
  obtain s1 where g: "getStateObject E a s = (obj_at E s a, s1)" "obj_at E s1 = obj_at E s" "rest_of s1 = rest_of s" "addr_ok s1"
    by (rule getStateObject_cases [OF ok(1)])
  obtain s1' where g': "getStateObject E a s' = (obj_at E s' a, s1')" "obj_at E s1' = obj_at E s'" "rest_of s1' = rest_of s'" "addr_ok s1'"
    by (rule getStateObject_cases [OF ok(2)])
  have l: "linked E s1 s1'" using same_view_rest [OF v g(2,3) g'(2,3)] g(4) g'(4) by (simp add: linked_def)
  show thesis
  proof (cases "obj_at E s a")
    case None
    then show ?thesis using none g(1) g'(1) l same_viewD [OF v, of a] by simp
  next
    case (Some x)
    then obtain y where "obj_at E s' a = Some y" "same_obj E x y"
      using same_viewD [OF v, of a] by (auto simp: option_rel_Some1)
    then show ?thesis
      using some [of x s1 y s1'] Some g(1) g'(1) l obj_at_address [OF ok(1)] obj_at_address [OF ok(2)] by simp
  qed
qed

lemma linked_write_dirty:
  "linked E s s' \<Longrightarrow> same_obj E x y \<Longrightarrow> so_address x = so_address y \<Longrightarrow> \<not> so_deleted x \<Longrightarrow> \<not> so_deleted y \<Longrightarrow>
     linked E (write_dirty x s) (write_dirty y s')"
  by (simp add: linked_def write_object_view)

lemma linked_set:
  "linked E s s' \<Longrightarrow> same_obj E x y \<Longrightarrow> so_address x = so_address y \<Longrightarrow> so_deleted x = so_deleted y \<Longrightarrow>
     linked E (setStateObject x s) (setStateObject y s')"
  by (simp add: linked_def set_object_view)

lemma linked_dirty [simp]: "linked E (s\<lparr>sdb_dirty := d\<rparr>) s' \<longleftrightarrow> linked E s s'" "linked E s (s'\<lparr>sdb_dirty := d\<rparr>) \<longleftrightarrow> linked E s s'"
  by (simp_all add: linked_def same_view_def)

lemma undo_cong:
  assumes "linked E s s'" and "undo E e s = Ok u"
  shows "\<exists>u'. undo E e s' = Ok u' \<and> linked E u u'"
proof (cases e)
  case (NonceChange a n)
  show ?thesis
    using assms(2) unfolding NonceChange
    by (cases rule: object_pair [OF assms(1), of a])
      (auto simp: on_object_def so_setNonce_def intro!: linked_write_dirty same_obj_setNonce)
next
  case (StorageChange a k w)
  show ?thesis
    using assms(2) unfolding StorageChange
    by (cases rule: object_pair [OF assms(1), of a])
      (auto simp: on_object_def so_setState_def intro!: linked_write_dirty same_obj_setState)
next
  case (CodeChange a c h)
  show ?thesis
    using assms(2) unfolding CodeChange
    by (cases rule: object_pair [OF assms(1), of a])
      (auto simp: on_object_def so_setCode_def intro!: linked_write_dirty same_obj_setCode)
next
  case (SuicideChange a b)
  show ?thesis
    using assms(2) unfolding SuicideChange
    by (cases rule: object_pair [OF assms(1), of a]) (auto intro!: linked_set same_obj_suicided)
next
  case (TouchChange a b d)
  show ?thesis
    using assms unfolding TouchChange
    by (cases rule: object_pair [OF assms(1), of a])
      (auto simp: on_object_def Let_def split: if_splits
        intro!: linked_set same_obj_trans [OF same_obj_touched(1) same_obj_trans [OF _ same_obj_touched(2)]])
qed (use assms in
    \<open>auto simp: linked_def same_view_def obj_at_delete obj_at_setStateObject delete_conv' Let_def
      split: if_splits\<close>)

lemma undo_all_cong:
  "linked E s s' \<Longrightarrow> undo_all E es s = Ok u \<Longrightarrow> \<exists>u'. undo_all E es s' = Ok u' \<and> linked E u u'"
proof (induction es arbitrary: s s')
  case (Cons e es)
  obtain s1 where s1: "undo E e s = Ok s1" "undo_all E es s1 = Ok u"
    using Cons.prems(2) by (auto simp: bind_result_Ok_iff)
  obtain s1' where "undo E e s' = Ok s1'" "linked E s1 s1'" using undo_cong [OF Cons.prems(1) s1(1)] by blast
  then show ?case using Cons.IH [OF _ s1(2)] by auto
qed auto

lemma undo_all_append: "undo_all E (es @ fs) s = bind_result (undo_all E es s) (undo_all E fs)"
proof (induction es arbitrary: s)
  case (Cons e es)
  then show ?case by (cases "undo E e s") auto
qed simp

subsection \<open>Operations and their undo\<close>

definition env_ok :: "'t sdb_env \<Rightarrow> bool" where
  "env_ok E \<longleftrightarrow> length (keccak E []) = HashLength \<and>
     (\<forall>b d h. dec_account E b = Some d \<longrightarrow> acc_CodeHash d = Some h \<longrightarrow> length h = HashLength)"

definition code_ok :: "'t state_object \<Rightarrow> bool" where
  "code_ok so \<longleftrightarrow> length (CodeHash_bytes so) = HashLength"

text \<open>
  Objects are filed under their address, code hashes have 32 bytes, an object that is marked deleted is
  no longer in the trie, and an object the journal would put back is not deleted.
\<close>

definition sdb_ok :: "'t sdb_env \<Rightarrow> 't statedb \<Rightarrow> bool" where
  "sdb_ok E s \<longleftrightarrow> addr_ok s \<and>
     (\<forall>a so. map_of (sdb_objects s) a = Some so \<longrightarrow> code_ok so \<and> (so_deleted so \<longrightarrow> load_object E (sdb_trie s) a = None)) \<and>
     (\<forall>p. ResetObjectChange p \<in> set (sdb_journal s) \<longrightarrow> code_ok p \<and> \<not> so_deleted p)"

definition undoes :: "'t sdb_env \<Rightarrow> 't statedb \<Rightarrow> 't statedb \<Rightarrow> bool" where
  "undoes E s s' \<longleftrightarrow>
     (\<exists>es u. sdb_journal s' = sdb_journal s @ es \<and> undo_all E (rev es) s' = Ok u \<and> linked E u s) \<and>
     sdb_validRevisions s' = sdb_validRevisions s \<and> sdb_nextRevisionId s' = sdb_nextRevisionId s"

lemma linked_refl: "addr_ok s \<Longrightarrow> linked E s s"
  by (simp add: linked_def)

lemma linked_sym: "linked E s s' \<Longrightarrow> linked E s' s"
  by (auto simp: linked_def intro: same_view_sym)

lemma linked_trans: "linked E s s' \<Longrightarrow> linked E s' s'' \<Longrightarrow> linked E s s''"
  by (auto simp: linked_def intro: same_view_trans)

lemma undoes_trans:
  assumes "undoes E s s1" and "undoes E s1 s2"
  shows "undoes E s s2"
proof -
  obtain es u where 1: "sdb_journal s1 = sdb_journal s @ es" "undo_all E (rev es) s1 = Ok u" "linked E u s"
    using assms(1) by (auto simp: undoes_def)
  obtain fs w where 2: "sdb_journal s2 = sdb_journal s1 @ fs" "undo_all E (rev fs) s2 = Ok w" "linked E w s1"
    using assms(2) by (auto simp: undoes_def)
  obtain u' where u': "undo_all E (rev es) w = Ok u'" "linked E u u'"
    using undo_all_cong [OF linked_sym [OF 2(3)] 1(2)] by blast
  have "undo_all E (rev (es @ fs)) s2 = Ok u'" using 2(2) u'(1) by (simp add: undo_all_append)
  moreover have "linked E u' s" using linked_trans [OF linked_sym [OF u'(2)] 1(3)] .
  ultimately show ?thesis using 1(1) 2(1) assms by (auto simp: undoes_def)
qed

lemma undoes_same:
  assumes "linked E s' s" and "rest_of s' = rest_of s"
  shows "undoes E s s'"
proof -
  have "sdb_journal s' = sdb_journal s @ []" "undo_all E (rev []) s' = Ok s'" using rest_ofD [OF assms(2)] by simp_all
  then show ?thesis using assms(1) rest_ofD [OF assms(2)] unfolding undoes_def by blast
qed

lemma undoes_entry:
  assumes "sdb_journal s' = sdb_journal s @ [e]" and "undo E e s' = Ok u" and "linked E u s"
    and "sdb_validRevisions s' = sdb_validRevisions s" "sdb_nextRevisionId s' = sdb_nextRevisionId s"
  shows "undoes E s s'"
proof -
  have "undo_all E (rev [e]) s' = Ok u" using assms(2) by simp
  then show ?thesis using assms unfolding undoes_def by blast
qed

lemma sdb_ok_addr: "sdb_ok E s \<Longrightarrow> addr_ok s"
  by (simp add: sdb_ok_def)

lemma newObject_code_ok: "env_ok E \<Longrightarrow> (\<And>h. acc_CodeHash d = Some h \<Longrightarrow> length h = HashLength) \<Longrightarrow> code_ok (newObject E a d b)"
  by (auto simp: code_ok_def CodeHash_bytes_def newObject_def env_ok_def emptyCodeHash_def split: option.split)

lemma load_object_code_ok: "env_ok E \<Longrightarrow> load_object E t a = Some so \<Longrightarrow> code_ok so"
  by (auto simp: load_object_def env_ok_def intro!: newObject_code_ok split: if_splits)

lemma obj_at_code_ok: "env_ok E \<Longrightarrow> sdb_ok E s \<Longrightarrow> obj_at E s a = Some so \<Longrightarrow> code_ok so"
  by (auto simp: obj_at_def sdb_ok_def load_object_code_ok split: option.splits if_splits)

lemma sdb_ok_set: "sdb_ok E s \<Longrightarrow> code_ok so \<Longrightarrow> \<not> so_deleted so \<Longrightarrow> sdb_ok E (setStateObject so s)"
  by (auto simp: sdb_ok_def) (auto simp: setStateObject_def update_conv' split: if_splits)

lemma sdb_ok_cong: "sdb_objects s' = sdb_objects s \<Longrightarrow> sdb_trie s' = sdb_trie s \<Longrightarrow> sdb_journal s' = sdb_journal s \<Longrightarrow>
  sdb_ok E s \<Longrightarrow> sdb_ok E s'"
  by (simp add: sdb_ok_def addr_ok_def)

lemma sdb_ok_mark: "sdb_ok E s \<Longrightarrow> sdb_ok E (MarkStateObjectDirty a s)" "sdb_ok E s \<Longrightarrow> sdb_ok E (sdb_setError e s)"
  by (auto simp: sdb_ok_def addr_ok_def MarkStateObjectDirty_def sdb_setError_def)

lemma sdb_ok_write: "sdb_ok E s \<Longrightarrow> code_ok so \<Longrightarrow> \<not> so_deleted so \<Longrightarrow> sdb_ok E (write_dirty so s)"
  unfolding write_dirty_def using sdb_ok_mark(1) by (auto intro!: sdb_ok_set simp: code_ok_def)

lemma sdb_ok_journal:
  "sdb_ok E s \<Longrightarrow> (\<And>p. e = ResetObjectChange p \<Longrightarrow> code_ok p \<and> \<not> so_deleted p) \<Longrightarrow> sdb_ok E (add_journal e s)"
  by (auto simp: sdb_ok_def add_journal_def addr_ok_def)

text \<open>Getting an object and creating one.\<close>

lemma getStateObject_step:
  assumes "env_ok E" and "sdb_ok E s"
  obtains s1 where "getStateObject E a s = (obj_at E s a, s1)" "obj_at E s1 = obj_at E s" "sdb_ok E s1" "undoes E s s1"
    "rest_of s1 = rest_of s"
proof -
  obtain s1 where g: "getStateObject E a s = (obj_at E s a, s1)" "obj_at E s1 = obj_at E s" "rest_of s1 = rest_of s"
    and c: "s1 = sdb_setError (snd (t_get E (sdb_trie s) a)) s \<or> s1 = s \<or>
      (\<exists>so. load_object E (sdb_trie s) a = Some so \<and> s1 = setStateObject so s)"
    using getStateObject_eq [of E a s] by blast
  have ok: "sdb_ok E s1"
    using c assms sdb_ok_mark(2) by (auto intro!: sdb_ok_set dest: load_object_sel load_object_code_ok)
  then have "linked E s1 s"
    using sdb_ok_addr [OF assms(2)] sdb_ok_addr [OF ok] same_viewI [of E s1 s] g(2,3) by (simp add: linked_def)
  then show thesis using that g ok undoes_same [of E s1 s] by blast
qed

definition fresh_object :: "'t sdb_env \<Rightarrow> address \<Rightarrow> 't state_object" where
  "fresh_object E a =
     (newObject E a \<lparr>acc_Nonce = 0, acc_Root = zero_hash, acc_CodeHash = None\<rparr> True)\<lparr>so_onDirty := False\<rparr>"

lemma fresh_object_sel: "so_address (fresh_object E a) = a" "\<not> so_deleted (fresh_object E a)"
  "env_ok E \<Longrightarrow> code_ok (fresh_object E a)"
  using newObject_code_ok [of E "\<lparr>acc_Nonce = 0, acc_Root = zero_hash, acc_CodeHash = None\<rparr>" a True]
  by (simp_all add: fresh_object_def newObject_def code_ok_def CodeHash_bytes_def)

lemma createObject_step:
  assumes "env_ok E" and "sdb_ok E s"
  obtains s' where "createObject E a s = (fresh_object E a, s')" "obj_at E s' a = Some (fresh_object E a)"
    "sdb_ok E s'" "undoes E s s'"
proof -
  obtain s1 where g: "getStateObject E a s = (obj_at E s a, s1)" "obj_at E s1 = obj_at E s" "sdb_ok E s1" "undoes E s s1"
    "rest_of s1 = rest_of s"
    by (rule getStateObject_step [OF assms])
  define e where "e = (case obj_at E s a of None \<Rightarrow> CreateObjectChange a | Some p \<Rightarrow> ResetObjectChange p)"
  define s' where "s' = setStateObject (fresh_object E a) (add_journal e (MarkStateObjectDirty a s1))"
  have C: "createObject E a s = (fresh_object E a, s')"
    using g(1) by (simp add: createObject_def s'_def e_def fresh_object_def Let_def)
  have prev: "so_address p = a \<and> \<not> so_deleted p \<and> code_ok p" if "obj_at E s a = Some p" for p
    using obj_at_address [OF sdb_ok_addr [OF assms(2)] that] obj_at_code_ok [OF assms that] by blast
  have ok: "sdb_ok E s'"
    unfolding s'_def using prev fresh_object_sel(3) [OF assms(1)]
    by (intro sdb_ok_set sdb_ok_journal sdb_ok_mark g(3)) (auto simp: e_def fresh_object_sel split: option.splits)
  have at: "obj_at E s' b = (if b = a then Some (fresh_object E a) else obj_at E s b)" for b
    by (simp add: s'_def obj_at_setStateObject fresh_object_sel g(2))
  have "undoes E s1 s'"
  proof (rule undoes_entry)
    show "sdb_journal s' = sdb_journal s1 @ [e]" "sdb_validRevisions s' = sdb_validRevisions s1"
      "sdb_nextRevisionId s' = sdb_nextRevisionId s1"
      by (simp_all add: s'_def add_journal_def)
    let ?u = "case obj_at E s a of
        None \<Rightarrow> s'\<lparr>sdb_objects := AList.delete a (sdb_objects s'), sdb_dirty := removeAll a (sdb_dirty s')\<rparr>
      | Some p \<Rightarrow> setStateObject p s'"
    show "undo E e s' = Ok ?u" by (simp add: e_def split: option.split)
    have tr: "sdb_trie s' = sdb_trie s1" by (simp add: s'_def add_journal_def)
    have gone: "load_object E (sdb_trie s1) a = None" if "obj_at E s a = None"
      using that g(2,3) by (auto simp: obj_at_def sdb_ok_def split: option.splits if_splits dest!: fun_cong [of _ _ a])
    have "obj_at E ?u = obj_at E s1"
      using gone prev by (auto simp: fun_eq_iff obj_at_delete obj_at_setStateObject at g(2) tr split: option.split)
    moreover have "logs_of ?u h = logs_of s1 h" "sdb_trie ?u = sdb_trie s1" "sdb_refund ?u = sdb_refund s1"
      "sdb_logSize ?u = sdb_logSize s1" "sdb_preimages ?u = sdb_preimages s1" "addr_ok ?u" for h
      using sdb_ok_addr [OF ok] by (auto simp: s'_def add_journal_def logs_of_def split: option.split)
    ultimately show "linked E ?u s1"
      using sdb_ok_addr [OF g(3)] by (simp add: linked_def same_view_def)
  qed
  then show thesis using that [OF C] at ok undoes_trans [OF g(4)] by simp
qed

lemma GetOrNewStateObject_step:
  assumes "env_ok E" and "sdb_ok E s"
  obtains so s' where "GetOrNewStateObject E a s = (so, s')" "obj_at E s' a = Some so" "so_address so = a"
    "\<not> so_deleted so" "code_ok so" "sdb_ok E s'" "undoes E s s'"
proof -
  obtain s1 where g: "getStateObject E a s = (obj_at E s a, s1)" "obj_at E s1 = obj_at E s" "sdb_ok E s1" "undoes E s s1"
    "rest_of s1 = rest_of s"
    by (rule getStateObject_step [OF assms])
  show thesis
  proof (cases "obj_at E s a")
    case None
    obtain s' where "createObject E a s1 = (fresh_object E a, s')" "obj_at E s' a = Some (fresh_object E a)"
      "sdb_ok E s'" "undoes E s1 s'"
      by (rule createObject_step [OF assms(1) g(3)])
    then show ?thesis
      using that [of "fresh_object E a" s'] None g fresh_object_sel [of E a] assms(1) undoes_trans [OF g(4)]
      by (simp add: GetOrNewStateObject_def)
  next
    case (Some so)
    then show ?thesis
      using that [of so s1] g obj_at_address [OF sdb_ok_addr [OF assms(2)] Some] obj_at_code_ok [OF assms Some]
      by (simp add: GetOrNewStateObject_def)
  qed
qed

text \<open>A setter writes one entry and one object; the undo of the entry puts the observables of the object back.\<close>

lemma set_step:
  assumes "sdb_ok E s" and "obj_at E s a = Some so" and x: "so_address x = a" "\<not> so_deleted x" "code_ok x"
    and e: "\<And>p. e \<noteq> ResetObjectChange p"
    and U: "\<And>t. undo E e t = on_object E a (\<lambda>y. write_dirty (f y)) t"
    and f: "\<And>y. so_address (f y) = so_address y" "\<And>y. so_deleted (f y) = so_deleted y"
    and same: "same_obj E (f (x\<lparr>so_onDirty := False\<rparr>)) so"
  shows "sdb_ok E (write_dirty x (add_journal e s)) \<and> undoes E s (write_dirty x (add_journal e s))"
proof -
  let ?s = "write_dirty x (add_journal e s)"
  have ok: "sdb_ok E ?s" using e by (intro sdb_ok_write sdb_ok_journal assms(1) x) auto
  have at: "obj_at E ?s b = (if b = a then Some (x\<lparr>so_onDirty := False\<rparr>) else obj_at E s b)" for b
    by (simp add: obj_at_write_dirty x)
  obtain s1 where g: "getStateObject E a ?s = (obj_at E ?s a, s1)" "obj_at E s1 = obj_at E ?s" "rest_of s1 = rest_of ?s" "addr_ok s1"
    by (rule getStateObject_cases [OF sdb_ok_addr [OF ok]])
  let ?u = "write_dirty (f (x\<lparr>so_onDirty := False\<rparr>)) s1"
  have "undoes E s ?s"
  proof (rule undoes_entry)
    show "sdb_journal ?s = sdb_journal s @ [e]" "sdb_validRevisions ?s = sdb_validRevisions s"
      "sdb_nextRevisionId ?s = sdb_nextRevisionId s"
      by (simp_all add: add_journal_def)
    show "undo E e ?s = Ok ?u" using g(1) at by (simp add: U on_object_def)
    have "same_obj E (f (x\<lparr>so_onDirty := False\<rparr>)\<lparr>so_onDirty := False\<rparr>) so"
      by (rule same_obj_trans [OF same_obj_onDirty(1) same])
    then have "same_view E ?u s"
      using assms(2) rest_ofD [OF g(3)] f x
      by (auto simp: same_view_def obj_at_write_dirty g(2) at logs_of_def add_journal_def)
    then show "linked E ?u s" using g(4) sdb_ok_addr [OF assms(1)] by (simp add: linked_def)
  qed
  then show ?thesis using ok by blast
qed

lemma object_onDirty [simp]:
  "storage_at E (so\<lparr>so_onDirty := b\<rparr>) k = storage_at E so k" "code_at E (so\<lparr>so_onDirty := b\<rparr>) = code_at E so"
  by (simp_all add: object_eqs)

lemma BytesToHash_id [simp]: "length h = HashLength \<Longrightarrow> BytesToHash h = h"
  by (simp add: BytesToHash_def Hash_SetBytes_def go_copy_def)

lemma length_BytesToHash [simp]: "length (BytesToHash h) = HashLength"
  by (simp add: BytesToHash_def Hash_SetBytes_def go_copy_def HashLength_def)

lemma SetNonce_step:
  assumes "env_ok E" and "sdb_ok E s"
  shows "sdb_ok E (sdb_SetNonce E a n s) \<and> undoes E s (sdb_SetNonce E a n s)"
proof -
  obtain so s1 where g: "GetOrNewStateObject E a s = (so, s1)" "obj_at E s1 a = Some so" "so_address so = a"
    "\<not> so_deleted so" "code_ok so" "sdb_ok E s1" "undoes E s s1"
    by (rule GetOrNewStateObject_step [OF assms])
  let ?f = "\<lambda>n y. y\<lparr>so_data := (so_data y)\<lparr>acc_Nonce := n\<rparr>\<rparr>" and ?e = "NonceChange a (acc_Nonce (so_data so))"
  have "sdb_ok E (write_dirty (?f n so) (add_journal ?e s1)) \<and> undoes E s1 (write_dirty (?f n so) (add_journal ?e s1))"
  proof (rule set_step [OF g(6,2), where f = "?f (acc_Nonce (so_data so))"])
    show "code_ok (?f n so)" using g(5) by (simp add: code_ok_def)
    show "same_obj E (?f (acc_Nonce (so_data so)) (?f n so\<lparr>so_onDirty := False\<rparr>)) so"
      by (rule same_obj_fields) simp_all
  qed (simp_all add: g so_setNonce_def [abs_def])
  then show ?thesis
    using undoes_trans [OF g(7)] g(1,3) by (simp add: sdb_SetNonce_def so_SetNonce_def so_setNonce_def)
qed

lemma SetState_step:
  assumes "env_ok E" and "sdb_ok E s"
  shows "sdb_ok E (sdb_SetState E a k v s) \<and> undoes E s (sdb_SetState E a k v s)"
proof -
  obtain so s1 where g: "GetOrNewStateObject E a s = (so, s1)" "obj_at E s1 a = Some so" "so_address so = a"
    "\<not> so_deleted so" "code_ok so" "sdb_ok E s1" "undoes E s s1"
    by (rule GetOrNewStateObject_step [OF assms])
  obtain p so1 where G: "so_GetState E so k = (p, so1)" by fastforce
  then have p: "p = storage_at E so k" by simp
  have so1: "same_obj E so1 so" "so_address so1 = a" "\<not> so_deleted so1"
    using so_GetState_same [of E so k] G g(3,4) by auto
  let ?f = "\<lambda>v y. y\<lparr>so_cachedStorage := AList.update k v (so_cachedStorage y), so_dirtyStorage := AList.update k v (so_dirtyStorage y)\<rparr>"
  have "sdb_ok E (write_dirty (?f v so1) (add_journal (StorageChange a k p) s1)) \<and>
    undoes E s1 (write_dirty (?f v so1) (add_journal (StorageChange a k p) s1))"
  proof (rule set_step [OF g(6,2), where f = "?f p"])
    show "code_ok (?f v so1)" using so1(1) g(5) by (simp add: same_obj_def code_ok_def)
    have "storage_at E (?f p (?f v so1\<lparr>so_onDirty := False\<rparr>)) j = storage_at E so j" for j
      unfolding storage_at_set object_onDirty using so1(1) by (simp add: p same_obj_def)
    moreover have "code_at E (?f p (?f v so1\<lparr>so_onDirty := False\<rparr>)) = code_at E so1"
      by (simp add: code_at_eq)
    ultimately show "same_obj E (?f p (?f v so1\<lparr>so_onDirty := False\<rparr>)) so" using so1(1) by (simp add: same_obj_def)
  qed (simp_all add: so1 so_setState_def [abs_def])
  then show ?thesis
    using undoes_trans [OF g(7)] g(1,3) G by (simp add: sdb_SetState_def so_SetState_def so_setState_def)
qed

lemma SetCode_step:
  assumes "env_ok E" and "sdb_ok E s"
  shows "sdb_ok E (sdb_SetCode E a c s) \<and> undoes E s (sdb_SetCode E a c s)"
proof -
  obtain so s1 where g: "GetOrNewStateObject E a s = (so, s1)" "obj_at E s1 a = Some so" "so_address so = a"
    "\<not> so_deleted so" "code_ok so" "sdb_ok E s1" "undoes E s s1"
    by (rule GetOrNewStateObject_step [OF assms])
  obtain p so1 where G: "so_Code E so = (p, so1)" by fastforce
  then have p: "p = code_at E so" by simp
  have so1: "same_obj E so1 so" "so_address so1 = a" "\<not> so_deleted so1"
    using so_Code_same [of E so] G g(3,4) by auto
  have ch: "CodeHash_bytes so1 = CodeHash_bytes so" "length (CodeHash_bytes so) = HashLength"
    using so1(1) g(5) by (simp_all add: same_obj_def code_ok_def)
  let ?h = "BytesToHash (keccak E (case c of None \<Rightarrow> [] | Some b \<Rightarrow> b))"
  let ?f = "\<lambda>c h y. y\<lparr>so_code := c, so_data := (so_data y)\<lparr>acc_CodeHash := Some h\<rparr>, so_dirtyCode := True\<rparr>"
  let ?e = "CodeChange a p (CodeHash_bytes so)"
  have "sdb_ok E (write_dirty (?f c ?h so1) (add_journal ?e s1)) \<and> undoes E s1 (write_dirty (?f c ?h so1) (add_journal ?e s1))"
  proof (rule set_step [OF g(6,2), where f = "?f p (CodeHash_bytes so)"])
    show "code_ok (?f c ?h so1)" by (simp add: code_ok_def CodeHash_bytes_def)
    show "undo E ?e t = on_object E a (\<lambda>y. write_dirty (?f p (CodeHash_bytes so) y)) t" for t
      using ch(2) by (simp add: so_setCode_def [abs_def])
    let ?y = "?f p (CodeHash_bytes so) (?f c ?h so1\<lparr>so_onDirty := False\<rparr>)"
    have "code_at E ?y = code_of E p (CodeHash_bytes so) (so_addrHash so1)" by (simp add: code_at_eq CodeHash_bytes_def)
    also have "\<dots> = p"
      using so1(1) by (auto simp: p code_at_eq code_of_def same_obj_def split: option.split)
    finally have "code_at E ?y = code_at E so" by (simp add: p)
    moreover have "storage_at E ?y j = storage_at E so1 j" for j by (simp add: storage_at_eq object_trie_eq)
    moreover have "CodeHash_bytes ?y = CodeHash_bytes so" by (simp add: CodeHash_bytes_def)
    ultimately show "same_obj E ?y so" using so1(1) by (simp add: same_obj_def)
  qed (simp_all add: so1)
  then show ?thesis
    using undoes_trans [OF g(7)] g(1,3) G ch(1) by (simp add: sdb_SetCode_def so_SetCode_def so_setCode_def)
qed

lemma Suicide_step:
  assumes "env_ok E" and "sdb_ok E s"
  shows "sdb_ok E (snd (Suicide E a s)) \<and> undoes E s (snd (Suicide E a s))"
proof -
  obtain s1 where g: "getStateObject E a s = (obj_at E s a, s1)" "obj_at E s1 = obj_at E s" "sdb_ok E s1" "undoes E s s1"
    "rest_of s1 = rest_of s"
    by (rule getStateObject_step [OF assms])
  show ?thesis
  proof (cases "obj_at E s a")
    case None
    then show ?thesis using g by (simp add: Suicide_def)
  next
    case (Some so)
    have so: "so_address so = a" "\<not> so_deleted so" "code_ok so"
      using obj_at_address [OF sdb_ok_addr [OF assms(2)] Some] obj_at_code_ok [OF assms Some] by auto
    let ?e = "SuicideChange a (so_suicided so)"
    let ?s = "write_dirty (so\<lparr>so_suicided := True\<rparr>) (add_journal ?e s1)"
    have ok: "sdb_ok E ?s" using so by (intro sdb_ok_write sdb_ok_journal g(3)) (auto simp: code_ok_def)
    have at: "obj_at E ?s b = (if b = a then Some (so\<lparr>so_suicided := True, so_onDirty := False\<rparr>) else obj_at E s b)" for b
      by (simp add: obj_at_write_dirty so g(2))
    obtain s2 where g2: "getStateObject E a ?s = (obj_at E ?s a, s2)" "obj_at E s2 = obj_at E ?s" "rest_of s2 = rest_of ?s" "addr_ok s2"
      by (rule getStateObject_cases [OF sdb_ok_addr [OF ok]])
    let ?u = "setStateObject (so\<lparr>so_suicided := so_suicided so, so_onDirty := False\<rparr>) s2"
    have "undoes E s1 ?s"
    proof (rule undoes_entry)
      show "sdb_journal ?s = sdb_journal s1 @ [?e]" "sdb_validRevisions ?s = sdb_validRevisions s1"
        "sdb_nextRevisionId ?s = sdb_nextRevisionId s1"
        by (simp_all add: add_journal_def)
      show "undo E ?e ?s = Ok ?u" using g2(1) at by simp
      have "same_obj E (so\<lparr>so_suicided := so_suicided so, so_onDirty := False\<rparr>) so" by (rule same_obj_fields) simp_all
      then have "same_view E ?u s1"
        using Some rest_ofD [OF g2(3)] so
        by (auto simp: same_view_def obj_at_setStateObject obj_at_write_dirty g2(2) at g(2) logs_of_def add_journal_def)
      then show "linked E ?u s1" using g2(4) sdb_ok_addr [OF g(3)] by (simp add: linked_def)
    qed
    then show ?thesis using ok undoes_trans [OF g(4)] Some g(1) by (simp add: Suicide_def markSuicided_def)
  qed
qed

lemma plain_step:
  assumes "sdb_ok E s" and "sdb_objects s' = sdb_objects s" "sdb_trie s' = sdb_trie s" "sdb_journal s' = sdb_journal s @ [e]"
    and "\<And>p. e \<noteq> ResetObjectChange p" and "undo E e s' = Ok u" and "sdb_objects u = sdb_objects s" "sdb_trie u = sdb_trie s"
    and "sdb_refund u = sdb_refund s" "\<And>h. logs_of u h = logs_of s h" "sdb_logSize u = sdb_logSize s"
    and "\<And>h. map_of (sdb_preimages u) h = map_of (sdb_preimages s) h"
    and "sdb_validRevisions s' = sdb_validRevisions s" "sdb_nextRevisionId s' = sdb_nextRevisionId s"
  shows "sdb_ok E s' \<and> undoes E s s'"
proof
  show "sdb_ok E s'" using assms(1-5) by (auto simp: sdb_ok_def addr_ok_def)
  have "obj_at E u = obj_at E s" unfolding obj_at_def fun_eq_iff assms(7,8) by simp
  moreover have "addr_ok u" using assms(1,7) by (simp add: sdb_ok_def addr_ok_def)
  ultimately have "linked E u s" using assms by (simp add: linked_def same_view_def sdb_ok_def)
  then show "undoes E s s'" by (rule undoes_entry [OF assms(4,6) _ assms(13,14)])
qed

lemma AddRefund_step: "sdb_ok E s \<Longrightarrow> sdb_ok E (AddRefund v s) \<and> undoes E s (AddRefund v s)"
  by (rule plain_step [where e = "RefundChange (sdb_refund s)" and u = "(AddRefund v s)\<lparr>sdb_refund := sdb_refund s\<rparr>"])
    (simp_all add: AddRefund_def add_journal_def logs_of_def)

lemma AddPreimage_step:
  assumes "sdb_ok E s"
  shows "sdb_ok E (AddPreimage h b s) \<and> undoes E s (AddPreimage h b s)"
proof (cases "map_of (sdb_preimages s) h = None")
  case True
  show ?thesis
    by (rule plain_step [OF assms, where e = "AddPreimageChange h" and
          u = "(AddPreimage h b s)\<lparr>sdb_preimages := AList.delete h (sdb_preimages (AddPreimage h b s))\<rparr>"])
      (simp_all add: AddPreimage_def True add_journal_def logs_of_def delete_conv' update_conv')
next
  case False
  then have "AddPreimage h b s = s" by (auto simp: AddPreimage_def)
  then show ?thesis using assms undoes_same [of E s s] linked_refl [of s E] sdb_ok_addr [OF assms] by simp
qed

lemma AddLog_step:
  assumes "sdb_ok E s"
  shows "sdb_ok E (AddLog l s) \<and> undoes E s (AddLog l s)"
proof -
  let ?h = "sdb_thash s" and ?s = "AddLog l s"
  have at: "logs_of ?s k = (if k = ?h then logs_of s ?h @ [last (logs_of ?s ?h)] else logs_of s k)" for k
    by (simp add: AddLog_def add_journal_def Let_def logs_of_def update_conv')
  then have n: "length (logs_of ?s ?h) = Suc (length (logs_of s ?h))" by (metis length_append_singleton)
  let ?u = "?s\<lparr>sdb_logs := (if length (logs_of ?s ?h) = 1 then AList.delete ?h (sdb_logs ?s)
        else AList.update ?h (take (length (logs_of ?s ?h) - 1) (logs_of ?s ?h)) (sdb_logs ?s)), sdb_logSize := sdb_logSize ?s - 1\<rparr>"
  show ?thesis
  proof (rule plain_step [OF assms, where e = "AddLogChange ?h" and u = ?u])
    show "undo E (AddLogChange ?h) ?s = Ok ?u" using n by (auto simp: Let_def)
    have tk: "take (length (logs_of ?s ?h) - 1) (logs_of ?s ?h) = logs_of s ?h"
      by (subst (2) at) (simp add: n)
    show "logs_of ?u k = logs_of s k" for k
      using at [of k] tk n by (cases "logs_of s ?h = []") (auto simp: update_conv' delete_conv')
  qed (simp_all add: AddLog_def add_journal_def Let_def)
qed

lemma with_object_step:
  assumes "env_ok E" and "sdb_ok E s"
    and f: "\<And>so. same_obj E (snd (f so)) so \<and> so_address (snd (f so)) = so_address so \<and> so_deleted (snd (f so)) = so_deleted so"
  shows "sdb_ok E (snd (with_object E a d f s)) \<and> undoes E s (snd (with_object E a d f s))"
proof -
  obtain s1 where g: "getStateObject E a s = (obj_at E s a, s1)" "obj_at E s1 = obj_at E s" "sdb_ok E s1" "undoes E s s1"
    "rest_of s1 = rest_of s"
    by (rule getStateObject_step [OF assms(1,2)])
  show ?thesis
  proof (cases "obj_at E s a")
    case None
    then show ?thesis using g by (simp add: with_object_def)
  next
    case (Some so)
    have so: "so_address so = a" "\<not> so_deleted so" "code_ok so"
      using obj_at_address [OF sdb_ok_addr [OF assms(2)] Some] obj_at_code_ok [OF assms(1,2) Some] by auto
    let ?s = "setStateObject (snd (f so)) s1"
    have ok: "sdb_ok E ?s" using f [of so] so by (intro sdb_ok_set g(3)) (auto simp: code_ok_def same_obj_def)
    have "same_view E ?s s1"
      using f [of so] so Some by (intro same_viewI) (auto simp: obj_at_setStateObject g(2))
    then have "undoes E s1 ?s"
      using sdb_ok_addr [OF ok] sdb_ok_addr [OF g(3)] by (intro undoes_same) (simp_all add: linked_def)
    then show ?thesis
      using ok undoes_trans [OF g(4)] Some g(1) by (simp add: with_object_def split_beta)
  qed
qed

lemma GetNonce_step:
  assumes "env_ok E" and "sdb_ok E s"
  shows "sdb_ok E (snd (GetNonce E a s)) \<and> undoes E s (snd (GetNonce E a s))"
  unfolding GetNonce_def by (rule with_object_step [OF assms]) simp

lemma GetCode_step:
  assumes "env_ok E" and "sdb_ok E s"
  shows "sdb_ok E (snd (GetCode E a s)) \<and> undoes E s (snd (GetCode E a s))"
  unfolding GetCode_def by (rule with_object_step [OF assms]) (simp add: so_Code_same)

lemma GetState_step:
  assumes "env_ok E" and "sdb_ok E s"
  shows "sdb_ok E (snd (sdb_GetState E a k s)) \<and> undoes E s (snd (sdb_GetState E a k s))"
  unfolding sdb_GetState_def by (rule with_object_step [OF assms]) (simp add: so_GetState_same)

end
