(* ===== verification/StateRuns.thy ===== *)
theory StateRuns
imports StateRevert
begin

text \<open>
  Runs of the state: sequences of the operations of statedb.go, with nested snapshots and reverts, and what
  reverting to a snapshot restores after such a sequence.
\<close>

subsection \<open>Sequences of operations\<close>

datatype sdb_op =
    OpSetNonce address u64 | OpSetCode address "bytes option" | OpSetState address hash hash
  | OpCreateAccount address | OpSuicide address | OpAddLog tx_log | OpAddPreimage hash bytes | OpAddRefund u64
  | OpGetNonce address | OpGetCode address | OpGetState address hash | OpPrepare hash hash u64
  | OpSnapshot | OpRevert nat

fun sdb_step :: "'t sdb_env \<Rightarrow> sdb_op \<Rightarrow> 't statedb \<Rightarrow> (unit, 't statedb) result" where
  "sdb_step E (OpSetNonce a n) s = Ok (sdb_SetNonce E a n s)"
| "sdb_step E (OpSetCode a c) s = Ok (sdb_SetCode E a c s)"
| "sdb_step E (OpSetState a k v) s = Ok (sdb_SetState E a k v s)"
| "sdb_step E (OpCreateAccount a) s = Ok (CreateAccount E a s)"
| "sdb_step E (OpSuicide a) s = Ok (snd (Suicide E a s))"
| "sdb_step E (OpAddLog l) s = Ok (AddLog l s)"
| "sdb_step E (OpAddPreimage h b) s = Ok (AddPreimage h b s)"
| "sdb_step E (OpAddRefund v) s = Ok (AddRefund v s)"
| "sdb_step E (OpGetNonce a) s = Ok (snd (GetNonce E a s))"
| "sdb_step E (OpGetCode a) s = Ok (snd (GetCode E a s))"
| "sdb_step E (OpGetState a k) s = Ok (snd (sdb_GetState E a k s))"
| "sdb_step E (OpPrepare h b i) s = Ok (sdb_Prepare h b i s)"
| "sdb_step E OpSnapshot s = Ok (snd (Snapshot s))"
| "sdb_step E (OpRevert i) s = RevertToSnapshot E i s"

fun sdb_run :: "'t sdb_env \<Rightarrow> sdb_op list \<Rightarrow> 't statedb \<Rightarrow> (unit, 't statedb) result" where
  "sdb_run E [] s = Ok s"
| "sdb_run E (op # ops) s = bind_result (sdb_step E op s) (sdb_run E ops)"

fun keeps_revision :: "nat \<Rightarrow> sdb_op \<Rightarrow> bool" where
  "keeps_revision i (OpRevert j) \<longleftrightarrow> i < j"
| "keeps_revision i _ \<longleftrightarrow> True"

lemma mutator_step:
  assumes "env_ok E" and "sdb_ok E s" and "sdb_step E op s = Ok s'" and "op \<noteq> OpSnapshot" and "\<And>i. op \<noteq> OpRevert i"
  shows "sdb_ok E s' \<and> undoes E s s'"
proof (cases op)
  case (OpCreateAccount a)
  obtain t where "createObject E a s = (fresh_object E a, t)" "obj_at E t a = Some (fresh_object E a)" "sdb_ok E t" "undoes E s t"
    by (rule createObject_step [OF assms(1,2)])
  then show ?thesis using assms(3) OpCreateAccount by (simp add: CreateAccount_def)
next
  case (OpPrepare h b i)
  then have s': "s' = sdb_Prepare h b i s" using assms(3) by simp
  have "sdb_ok E s'" using assms(2) by (simp add: s' sdb_Prepare_def sdb_ok_def addr_ok_def)
  moreover have "obj_at E s' = obj_at E s" by (auto simp: s' sdb_Prepare_def obj_at_def fun_eq_iff split: option.splits)
  then have "linked E s' s"
    using calculation sdb_ok_addr [OF assms(2)] sdb_ok_addr [of E s'] by (simp add: linked_def same_view_def s' sdb_Prepare_def logs_of_def)
  then have "undoes E s s'" by (auto simp: undoes_def s' sdb_Prepare_def intro!: exI [of _ "[]"])
  ultimately show ?thesis by blast
qed (use assms SetNonce_step [OF assms(1,2)] SetCode_step [OF assms(1,2)] SetState_step [OF assms(1,2)]
    Suicide_step [OF assms(1,2)] AddLog_step [OF assms(2)] AddPreimage_step [OF assms(2)] AddRefund_step [OF assms(2)]
    GetNonce_step [OF assms(1,2)] GetCode_step [OF assms(1,2)] GetState_step [OF assms(1,2)] in auto)

lemma sort_Search_spec:
  assumes "i \<le> j" and "\<And>k l. i \<le> k \<Longrightarrow> k \<le> l \<Longrightarrow> l < j \<Longrightarrow> f k \<Longrightarrow> f l"
  shows "i \<le> sort_Search f i j \<and> sort_Search f i j \<le> j \<and> (\<forall>k. i \<le> k \<longrightarrow> k < sort_Search f i j \<longrightarrow> \<not> f k) \<and>
    (sort_Search f i j < j \<longrightarrow> f (sort_Search f i j))"
  using assms
proof (induction f i j rule: sort_Search.induct)
  case (1 f i j)
  show ?case
  proof (cases "i < j")
    case False
    then have "sort_Search f i j = i" by (subst sort_Search.simps) simp
    then show ?thesis using False "1.prems"(1) by simp
  next
    case True
    define h where "h = (i + j) div 2"
    have h: "i \<le> h" "h < j" using True by (auto simp: h_def)
    have mono: "f l" if "f k" "Suc h \<le> k" "k \<le> l" "l < j" for k l using "1.prems"(2) [of k l] that h by simp
    have eq: "sort_Search f i j = (if \<not> f h then sort_Search f (h + 1) j else sort_Search f i h)"
      using True by (subst sort_Search.simps) (simp add: h_def)
    show ?thesis
    proof (cases "f h")
      case True
      have "sort_Search f i j = sort_Search f i h" using eq True by simp
      moreover have IH: "i \<le> sort_Search f i h \<and> sort_Search f i h \<le> h \<and> (\<forall>k. i \<le> k \<longrightarrow> k < sort_Search f i h \<longrightarrow> \<not> f k) \<and>
          (sort_Search f i h < h \<longrightarrow> f (sort_Search f i h))"
        by (rule "1.IH"(2) [OF \<open>i < j\<close> h_def]) (use True h in \<open>auto intro: "1.prems"(2)\<close>)
      ultimately show ?thesis using True h by (cases "sort_Search f i h = h") auto
    next
      case no: False
      have "sort_Search f i j = sort_Search f (h + 1) j" using eq no by simp
      moreover have "h + 1 \<le> sort_Search f (h + 1) j \<and> sort_Search f (h + 1) j \<le> j \<and>
          (\<forall>k. h + 1 \<le> k \<longrightarrow> k < sort_Search f (h + 1) j \<longrightarrow> \<not> f k) \<and> (sort_Search f (h + 1) j < j \<longrightarrow> f (sort_Search f (h + 1) j))"
        by (rule "1.IH"(1) [OF \<open>i < j\<close> h_def]) (use no h in \<open>auto intro: mono\<close>)
      moreover have "\<not> f k" if "i \<le> k" "k \<le> h" for k using "1.prems"(2) [of k h] that h no by blast
      then have "\<not> f k" if "i \<le> k" "k < sort_Search f (h + 1) j" for k
        using that calculation(2) by (cases "k \<le> h") auto
      ultimately show ?thesis using h by auto
    qed
  qed
qed

text \<open>A step that keeps the well-formedness, the journal and the revisions.\<close>

definition keeps :: "'t sdb_env \<Rightarrow> 't statedb \<Rightarrow> 't statedb \<Rightarrow> bool" where
  "keeps E s u \<longleftrightarrow> sdb_ok E u \<and> sdb_journal u = sdb_journal s \<and> sdb_validRevisions u = sdb_validRevisions s \<and>
     sdb_nextRevisionId u = sdb_nextRevisionId s"

lemma keeps_set: "sdb_ok E s \<Longrightarrow> code_ok so \<Longrightarrow> \<not> so_deleted so \<Longrightarrow> keeps E s (setStateObject so s)"
  using sdb_ok_set [of E s so] by (simp add: keeps_def setStateObject_def)

lemma keeps_write: "sdb_ok E s \<Longrightarrow> code_ok so \<Longrightarrow> \<not> so_deleted so \<Longrightarrow> keeps E s (write_dirty so s)"
  using sdb_ok_write [of E s so] by (simp add: keeps_def write_dirty_def setStateObject_def MarkStateObjectDirty_def)

lemma keeps_dirty: "keeps E s u \<Longrightarrow> keeps E s (u\<lparr>sdb_dirty := d\<rparr>)"
  by (simp add: keeps_def sdb_ok_def addr_ok_def)

lemma keeps_object:
  assumes "env_ok E" and "sdb_ok E s" and "getStateObject E a s = (x, s1)"
  shows "keeps E s s1 \<and> (\<forall>so. x = Some so \<longrightarrow> code_ok so \<and> \<not> so_deleted so)"
proof -
  obtain s2 where g: "getStateObject E a s = (obj_at E s a, s2)" "obj_at E s2 = obj_at E s" "sdb_ok E s2" "undoes E s s2"
    "rest_of s2 = rest_of s"
    by (rule getStateObject_step [OF assms(1,2)])
  then show ?thesis
    using assms(3) obj_at_code_ok [OF assms(1,2)] obj_at_address [OF sdb_ok_addr [OF assms(2)]]
    by (auto simp: keeps_def rest_of_def)
qed

lemma keeps_trans: "keeps E s t \<Longrightarrow> keeps E t u \<Longrightarrow> keeps E s u"
  by (simp add: keeps_def)

lemma keeps_on_object:
  assumes "env_ok E" and "sdb_ok E s" and "on_object E a f s = Ok u"
    and f: "\<And>so t. sdb_ok E t \<Longrightarrow> code_ok so \<Longrightarrow> \<not> so_deleted so \<Longrightarrow> keeps E t (f so t)"
  shows "keeps E s u"
proof (cases "getStateObject E a s")
  case (Pair x s1)
  then obtain so where so: "x = Some so" "u = f so s1" using assms(3) by (cases x) (auto simp: on_object_def)
  have k: "keeps E s s1" "code_ok so" "\<not> so_deleted so" using keeps_object [OF assms(1,2) Pair] so by auto
  then have "keeps E s1 (f so s1)" using f by (simp add: keeps_def)
  then show ?thesis using keeps_trans [OF k(1)] so by simp
qed

lemma undo_keeps:
  assumes "env_ok E" and "sdb_ok E s" and "undo E e s = Ok u"
    and "\<And>p. e = ResetObjectChange p \<Longrightarrow> code_ok p \<and> \<not> so_deleted p"
  shows "keeps E s u"
proof (cases e)
  case (CreateObjectChange a)
  then have u: "u = s\<lparr>sdb_objects := AList.delete a (sdb_objects s), sdb_dirty := removeAll a (sdb_dirty s)\<rparr>"
    using assms(3) by simp
  show ?thesis using assms(2) by (auto simp: u keeps_def sdb_ok_def addr_ok_def delete_conv' split: if_splits)
next
  case (ResetObjectChange p)
  then show ?thesis using assms(3,4) keeps_set [OF assms(2)] by auto
next
  case (SuicideChange a prev)
  show ?thesis
  proof (cases "getStateObject E a s")
    case (Pair x s1)
    note k = keeps_object [OF assms(1,2) Pair]
    then have "keeps E s1 (setStateObject (so\<lparr>so_suicided := prev\<rparr>) s1)" if "x = Some so" for so
      using that by (intro keeps_set) (auto simp: keeps_def code_ok_def)
    then show ?thesis using assms(3) SuicideChange Pair k by (cases x) (auto intro: keeps_trans)
  qed
next
  case (TouchChange a prev d)
  show ?thesis
  proof (cases "\<not> prev \<and> a \<noteq> ripemd")
    case True
    then have "on_object E a (\<lambda>so s1. let s2 = setStateObject (so\<lparr>so_touched := prev\<rparr>) s1
        in if \<not> d then s2\<lparr>sdb_dirty := removeAll a (sdb_dirty s2)\<rparr> else s2) s = Ok u"
      using assms(3) TouchChange by simp
    then show ?thesis
      by (rule keeps_on_object [OF assms(1,2)]) (auto simp: Let_def code_ok_def intro!: keeps_set keeps_dirty)
  next
    case False
    then show ?thesis using assms(2,3) TouchChange by (auto simp: keeps_def)
  qed
next
  case (NonceChange a n)
  then have "on_object E a (so_setNonce n) s = Ok u" using assms(3) by simp
  then show ?thesis
    by (rule keeps_on_object [OF assms(1,2)]) (auto simp: so_setNonce_def code_ok_def intro!: keeps_write)
next
  case (CodeChange a c h)
  then have "on_object E a (so_setCode (BytesToHash h) c) s = Ok u" using assms(3) by simp
  then show ?thesis
    by (rule keeps_on_object [OF assms(1,2)]) (auto simp: so_setCode_def code_ok_def CodeHash_bytes_def intro!: keeps_write)
next
  case (StorageChange a k v)
  then have "on_object E a (so_setState k v) s = Ok u" using assms(3) by simp
  then show ?thesis
    by (rule keeps_on_object [OF assms(1,2)]) (auto simp: so_setState_def code_ok_def intro!: keeps_write)
qed (use assms(2,3) in \<open>auto simp: keeps_def sdb_ok_def addr_ok_def Let_def split: if_splits\<close>)

lemma undo_all_keeps:
  assumes "env_ok E" and "sdb_ok E s" and "undo_all E es s = Ok u" and "set es \<subseteq> set (sdb_journal s)"
  shows "keeps E s u"
  using assms(2-4)
proof (induction es arbitrary: s)
  case (Cons e es)
  obtain t where t: "undo E e s = Ok t" "undo_all E es t = Ok u" using Cons.prems(2) by (auto simp: bind_result_Ok_iff)
  have "keeps E s t"
    using Cons.prems(1,3) by (intro undo_keeps [OF assms(1) Cons.prems(1) t(1)]) (auto simp: sdb_ok_def)
  then show ?case using Cons.IH [OF _ t(2)] Cons.prems(3) keeps_trans [of E s t u] by (auto simp: keeps_def)
qed (simp add: keeps_def)

subsection \<open>Snapshots as layers\<close>

text \<open>
  The journal of \<^verbatim>\<open>t\<close> extends that of \<^verbatim>\<open>s\<close> by entries whose undoing leads back to the
  observable state of \<^verbatim>\<open>s\<close>. The valid revisions of a state each stand for such an earlier state.
\<close>

definition extends :: "'t sdb_env \<Rightarrow> 't statedb \<Rightarrow> 't statedb \<Rightarrow> bool" where
  "extends E s t \<longleftrightarrow> (\<exists>es u. sdb_journal t = sdb_journal s @ es \<and> undo_all E (rev es) t = Ok u \<and> linked E u s)"

definition revision_of :: "nat \<times> 't statedb \<Rightarrow> nat \<times> nat" where
  "revision_of x = (fst x, length (sdb_journal (snd x)))"

lemma fst_revision_of [simp]: "fst (revision_of x) = fst x" "fst \<circ> revision_of = fst"
  by (simp_all add: revision_of_def fun_eq_iff)

definition layers :: "'t sdb_env \<Rightarrow> (nat \<times> nat) list \<Rightarrow> (nat \<times> 't statedb) list \<Rightarrow> 't statedb \<Rightarrow> bool" where
  "layers E R bs t \<longleftrightarrow>
     sdb_ok E t \<and> sdb_validRevisions t = R @ map revision_of bs \<and>
     sorted_wrt (<) (map fst R @ map fst bs @ [sdb_nextRevisionId t]) \<and>
     sorted_wrt (\<lambda>x y. extends E (snd x) (snd y)) (bs @ [(0, t)])"

lemma undoes_extends: "undoes E s t \<Longrightarrow> extends E s t"
  by (auto simp: undoes_def extends_def)

lemma extends_linked: "extends E s b \<Longrightarrow> linked E t b \<Longrightarrow> sdb_journal t = sdb_journal b \<Longrightarrow> extends E s t"
proof -
  assume a: "extends E s b" "linked E t b" "sdb_journal t = sdb_journal b"
  obtain es u where 1: "sdb_journal b = sdb_journal s @ es" "undo_all E (rev es) b = Ok u" "linked E u s"
    using a(1) by (auto simp: extends_def)
  obtain u' where "undo_all E (rev es) t = Ok u'" "linked E u u'"
    using undo_all_cong [OF linked_sym [OF a(2)] 1(2)] by blast
  then show "extends E s t" unfolding extends_def
    using a(3) 1(1) linked_trans [OF linked_sym [of E u u'] 1(3)] by auto
qed

lemma extends_trans:
  assumes "extends E s t" and "extends E t w"
  shows "extends E s w"
proof -
  obtain es u where 1: "sdb_journal t = sdb_journal s @ es" "undo_all E (rev es) t = Ok u" "linked E u s"
    using assms(1) by (auto simp: extends_def)
  obtain fs v where 2: "sdb_journal w = sdb_journal t @ fs" "undo_all E (rev fs) w = Ok v" "linked E v t"
    using assms(2) by (auto simp: extends_def)
  obtain u' where "undo_all E (rev es) v = Ok u'" "linked E u u'"
    using undo_all_cong [OF linked_sym [OF 2(3)] 1(2)] by blast
  then show ?thesis unfolding extends_def
    using 1(1) 2(1,2) linked_trans [OF linked_sym [of E u u'] 1(3)]
    by (auto simp: undo_all_append intro!: exI [of _ "es @ fs"])
qed

lemma layers_step:
  assumes "layers E R bs t" and "sdb_ok E t'" and "undoes E t t'"
  shows "layers E R bs t'"
proof -
  have "\<forall>x \<in> set bs. extends E (snd x) t'"
    using assms(1) extends_trans [OF _ undoes_extends [OF assms(3)]] unfolding layers_def sorted_wrt_append by simp
  moreover have "sdb_validRevisions t' = sdb_validRevisions t" "sdb_nextRevisionId t' = sdb_nextRevisionId t"
    using assms(3) by (auto simp: undoes_def)
  ultimately show ?thesis using assms(1,2) by (simp add: layers_def sorted_wrt_append)
qed

lemma layers_Snapshot:
  assumes "layers E R bs t"
  shows "layers E R (bs @ [(fst (Snapshot t), t)]) (snd (Snapshot t))"
proof -
  let ?t = "snd (Snapshot t)"
  have ok: "sdb_ok E t" using assms by (simp add: layers_def)
  have u: "linked E ?t t" "sdb_journal ?t = sdb_journal t"
    using sdb_ok_addr [OF ok] by (auto simp: Snapshot_def Let_def linked_def same_view_def logs_of_def option.rel_refl)
  then have e: "extends E t ?t" by (auto simp: extends_def intro!: exI [of _ "[]"])
  then have "\<forall>x \<in> set bs. extends E (snd x) ?t" using assms extends_trans [of E _ t ?t] by (auto simp: layers_def sorted_wrt_append)
  moreover have "sdb_ok E ?t" using ok by (simp add: Snapshot_def Let_def sdb_ok_def addr_ok_def)
  moreover have "fst (Snapshot t) = sdb_nextRevisionId t" "sdb_nextRevisionId ?t = Suc (sdb_nextRevisionId t)"
    "sdb_validRevisions ?t = sdb_validRevisions t @ [revision_of (sdb_nextRevisionId t, t)]"
    by (simp_all add: Snapshot_def Let_def revision_of_def)
  ultimately show ?thesis
    using assms e by (auto simp: layers_def sorted_wrt_append)
qed

lemma search_revision:
  fixes revs :: "(nat \<times> nat) list"
  assumes "sorted_wrt (<) (map fst revs)" and "j < length revs"
  shows "sort_Search (\<lambda>k. fst (revs ! k) \<ge> fst (revs ! j)) 0 (length revs) = j"
proof -
  let ?f = "\<lambda>k. fst (revs ! k) \<ge> fst (revs ! j)" and ?i = "sort_Search (\<lambda>k. fst (revs ! k) \<ge> fst (revs ! j)) 0 (length revs)"
  have lt: "fst (revs ! k) < fst (revs ! l)" if "k < l" "l < length revs" for k l
    using sorted_wrt_nth_less [OF assms(1), of k l] that by simp
  have s: "0 \<le> ?i \<and> ?i \<le> length revs \<and> (\<forall>k. 0 \<le> k \<longrightarrow> k < ?i \<longrightarrow> \<not> ?f k) \<and> (?i < length revs \<longrightarrow> ?f ?i)"
  proof (rule sort_Search_spec)
    fix k l assume "k \<le> l" "l < length revs" "?f k"
    then show "?f l" using lt [of k l] by (cases "k = l") auto
  qed simp
  then have "?i \<le> j" using assms(2) by (meson le_refl not_le zero_le)
  moreover have "\<not> ?i < j" using s lt [of ?i j] assms(2) by auto
  ultimately show ?thesis by simp
qed

lemma sorted_wrt_take_mid: "sorted_wrt P (xs @ ys @ [z]) \<Longrightarrow> sorted_wrt P (xs @ take j ys @ [z])"
  by (auto simp: sorted_wrt_append sorted_wrt_take dest: in_set_takeD)

lemma RevertToSnapshot_layer:
  assumes "env_ok E" and L: "layers E R bs t" and j: "j < length bs" and b: "bs ! j = (i, b)"
  shows "\<exists>t'. RevertToSnapshot E i t = Ok t' \<and> layers E R (take j bs) t' \<and> linked E t' b \<and>
    sdb_journal t' = sdb_journal b \<and> sdb_nextRevisionId t' = sdb_nextRevisionId t"
proof -
  let ?revs = "sdb_validRevisions t" and ?k = "length R + j"
  have revs: "?revs = R @ map revision_of bs" and ok: "sdb_ok E t"
    and ids: "sorted_wrt (<) (map fst R @ map fst bs @ [sdb_nextRevisionId t])" and S: "sorted_wrt (\<lambda>x y. extends E (snd x) (snd y)) (bs @ [(0, t)])"
    using L unfolding layers_def by blast+
  have srt: "sorted_wrt (<) (map fst ?revs)" using ids by (simp add: revs sorted_wrt_append)
  have k: "?k < length ?revs" "?revs ! ?k = (i, length (sdb_journal b))"
    using j b by (simp_all add: revs nth_append revision_of_def)
  have "extends E b t" using sorted_wrt_nth_less [OF S, of j "length bs"] b j by (simp add: nth_append)
  then obtain es u where es: "sdb_journal t = sdb_journal b @ es" "undo_all E (rev es) t = Ok u" "linked E u b"
    by (auto simp: extends_def)
  have keep: "keeps E t u" by (rule undo_all_keeps [OF assms(1) ok es(2)]) (simp add: es(1))
  define t' where "t' = u\<lparr>sdb_journal := sdb_journal b, sdb_validRevisions := take ?k ?revs\<rparr>"
  have R: "RevertToSnapshot E i t = Ok t'"
    using search_revision [OF srt k(1)] k es keep by (simp add: RevertToSnapshot_def Let_def keeps_def t'_def)
  have n: "sdb_nextRevisionId t' = sdb_nextRevisionId t" using keep by (simp add: t'_def keeps_def)
  have l: "linked E t' b" using es(3) by (simp add: t'_def linked_def same_view_def logs_of_def)
  have "extends E (snd x) t'" if x: "x \<in> set (take j bs)" for x
  proof (rule extends_linked [OF _ l])
    obtain m where "m < length (take j bs)" "x = take j bs ! m" using x by (auto simp: in_set_conv_nth simp del: nth_take length_take)
    then have "m < j" "x = bs ! m" by simp_all
    then show "extends E (snd x) b"
      using sorted_wrt_nth_less [OF S, of m j] j b by (simp add: nth_append)
  qed (simp add: t'_def)
  moreover have "sorted_wrt (\<lambda>x y. extends E (snd x) (snd y)) (take j bs)"
    using S by (simp add: sorted_wrt_append sorted_wrt_take)
  moreover have "sdb_ok E t'" using keep es(1) by (auto simp: t'_def sdb_ok_def addr_ok_def keeps_def)
  moreover have "take ?k ?revs = R @ map revision_of (take j bs)" by (simp add: revs take_map)
  moreover have "sorted_wrt (<) (map fst R @ map fst (take j bs) @ [sdb_nextRevisionId t])"
    using sorted_wrt_take_mid [OF ids, of j] by (simp add: take_map)
  moreover have "sdb_validRevisions t' = take ?k ?revs" by (simp add: t'_def)
  moreover note n
  ultimately have "layers E R (take j bs) t'" by (simp add: layers_def sorted_wrt_append)
  moreover have "sdb_journal t' = sdb_journal b" by (simp add: t'_def)
  ultimately show ?thesis using R l n by blast
qed

lemma layers_New:
  assumes "New_statedb E root = Inr s"
  shows "layers E [] [] s"
  using assms by (auto simp: New_statedb_def layers_def sdb_ok_def addr_ok_def split: sum.splits)

lemma RevertToSnapshot_found:
  assumes "RevertToSnapshot E i t = Ok t'"
  obtains j where "j < length (sdb_validRevisions t)" "fst (sdb_validRevisions t ! j) = i"
proof -
  let ?f = "\<lambda>k. fst (sdb_validRevisions t ! k) \<ge> i"
  let ?j = "sort_Search ?f 0 (length (sdb_validRevisions t))"
  have le: "sort_Search f i j \<le> max i j" for f :: "nat \<Rightarrow> bool" and i j
  proof (induction f i j rule: sort_Search.induct)
    case (1 f i j)
    then show ?case by (subst sort_Search.simps) (fastforce simp: Let_def)
  qed
  have "?j \<noteq> length (sdb_validRevisions t) \<and> fst (sdb_validRevisions t ! ?j) = i"
    using assms by (auto simp: RevertToSnapshot_def Let_def split: if_splits)
  then show thesis using le [of ?f 0 "length (sdb_validRevisions t)"] by (intro that [of ?j]) auto
qed

lemma step_layers:
  assumes "env_ok E" and L: "layers E [] (base @ rest) t" and "sdb_step E op t = Ok t'"
    and keep: "\<forall>x \<in> set base. keeps_revision (fst x) op"
  shows "\<exists>rest'. layers E [] (base @ rest') t'"
proof -
  have ok: "sdb_ok E t" using L by (simp add: layers_def)
  consider "op = OpSnapshot" | i where "op = OpRevert i" | "op \<noteq> OpSnapshot" "\<And>i. op \<noteq> OpRevert i" by blast
  then show ?thesis
  proof cases
    case 1
    then show ?thesis using layers_Snapshot [OF L] assms(3) by auto
  next
    case (2 i)
    then have R: "RevertToSnapshot E i t = Ok t'" using assms(3) by simp
    obtain j where j: "j < length (sdb_validRevisions t)" "fst (sdb_validRevisions t ! j) = i"
      by (rule RevertToSnapshot_found [OF R])
    have jb: "j < length (base @ rest)" "fst ((base @ rest) ! j) = i"
      using j L by (simp_all add: layers_def del: map_append)
    have "\<not> j < length base"
    proof
      assume "j < length base"
      then show False using keep jb(2) 2 nth_mem [of j base] by (auto simp: nth_append)
    qed
    then have "take j (base @ rest) = base @ take (j - length base) rest" by simp
    moreover obtain b where "(base @ rest) ! j = (i, b)" using jb(2) by (metis prod.collapse)
    then have "layers E [] (take j (base @ rest)) t'"
      using RevertToSnapshot_layer [OF assms(1) L jb(1)] R by auto
    ultimately show ?thesis by auto
  next
    case 3
    then show ?thesis using mutator_step [OF assms(1) ok assms(3)] layers_step [OF L] by blast
  qed
qed

lemma run_layers:
  assumes "env_ok E" and "layers E [] (base @ rest) t" and "sdb_run E ops t = Ok t'"
    and "\<forall>op \<in> set ops. \<forall>x \<in> set base. keeps_revision (fst x) op"
  shows "\<exists>rest'. layers E [] (base @ rest') t'"
  using assms(2-4)
proof (induction ops arbitrary: t rest)
  case (Cons op ops)
  obtain u where u: "sdb_step E op t = Ok u" "sdb_run E ops u = Ok t'" using Cons.prems(2) by (auto simp: bind_result_Ok_iff)
  obtain rest' where "layers E [] (base @ rest') u" using step_layers [OF assms(1) Cons.prems(1) u(1)] Cons.prems(3) by auto
  then show ?case using Cons.IH [OF _ u(2)] Cons.prems(3) by auto
qed auto

lemma keeps_revision_mono: "i \<le> j \<Longrightarrow> keeps_revision j op \<Longrightarrow> keeps_revision i op"
  by (cases op) auto

text \<open>
  C1. Reverting to a snapshot restores the state. A state is opened, any operations run (snapshots and reverts
  among them), a snapshot is taken, and again any operations run, among them further snapshots and reverts to
  those, but none that returns below the snapshot. Then \<^verbatim>\<open>RevertToSnapshot\<close> succeeds, every account reads as it did
  when the snapshot was taken (existence, nonce, code, every storage slot, the suicide mark), and so do the
  logs, the refund counter and the preimages; journal and revisions are those of that time too.
\<close>

theorem revert_restores:
  assumes "env_ok E" and "New_statedb E root = Inr s0" and "sdb_run E before s0 = Ok s" and "Snapshot s = (i, s1)"
    and "sdb_run E ops s1 = Ok s2" and "\<forall>op \<in> set ops. keeps_revision i op"
  shows "\<exists>s3. RevertToSnapshot E i s2 = Ok s3 \<and> same_view E s3 s \<and> sdb_journal s3 = sdb_journal s \<and>
    sdb_validRevisions s3 = sdb_validRevisions s"
proof -
  have "layers E [] ([] @ []) s0" using layers_New [OF assms(2)] by simp
  then obtain bs where L: "layers E [] bs s" using run_layers [OF assms(1) _ assms(3)] by fastforce
  have i: "i = sdb_nextRevisionId s" "s1 = snd (Snapshot s)" using assms(4) by (auto simp: Snapshot_def Let_def)
  have L1: "layers E [] ((bs @ [(i, s)]) @ []) s1" using layers_Snapshot [OF L] assms(4) by simp
  have "fst x \<le> i" if "x \<in> set (bs @ [(i, s)])" for x
    using L that i(1) by (auto simp: layers_def sorted_wrt_append)
  then have "\<forall>op \<in> set ops. \<forall>x \<in> set (bs @ [(i, s)]). keeps_revision (fst x) op" using assms(6) keeps_revision_mono by blast
  then obtain rest where L2: "layers E [] ((bs @ [(i, s)]) @ rest) s2" using run_layers [OF assms(1) L1 assms(5)] by blast
  obtain s3 where "RevertToSnapshot E i s2 = Ok s3" "layers E [] (take (length bs) ((bs @ [(i, s)]) @ rest)) s3"
    "linked E s3 s" "sdb_journal s3 = sdb_journal s"
    using RevertToSnapshot_layer [OF assms(1) L2, of "length bs" i s] by auto
  then show ?thesis using L by (auto simp: layers_def linked_def)
qed

definition demo_env :: "(bytes \<times> bytes) list sdb_env" where
  "demo_env = \<lparr>OpenTrie = (\<lambda>_. Inr [([1], [7])]), OpenStorageTrie = (\<lambda>_ _. Inr []), EmptyStorageTrie = [], CopyTrie = id,
     ContractCode = (\<lambda>_ _. (None, None)), ContractCodeSize = (\<lambda>_ _. (0, None)),
     t_get = (\<lambda>t k. (case map_of t k of None \<Rightarrow> [] | Some v \<Rightarrow> v, None)), t_update = (\<lambda>t k v. (AList.update k v t, None)),
     t_delete = (\<lambda>t k. (AList.delete k t, None)), t_hash = (\<lambda>t. replicate HashLength (of_nat (length t))),
     keccak = (\<lambda>b. take HashLength (b @ replicate HashLength 0)),
     dec_account = (\<lambda>b. if b = [] then None else Some \<lparr>acc_Nonce = ucast (hd b), acc_Root = zero_hash, acc_CodeHash = None\<rparr>),
     enc_account = (\<lambda>d. Some [ucast (acc_Nonce d)]), dec_hash = id, enc_hash = id\<rparr>"

definition demo_before :: "sdb_op list" where
  "demo_before = [OpCreateAccount [2], OpSnapshot, OpSetNonce [2] 5, OpSnapshot, OpRevert 0, OpSetState [2] [1] [9]]"

definition demo_inside :: "sdb_op list" where
  "demo_inside = [OpSetNonce [1] 8, OpSnapshot, OpSuicide [1], OpSetCode [2] (Some [6]), OpSetState [2] [1] [4],
     OpAddRefund 3, OpCreateAccount [2], OpRevert 3, OpAddPreimage [5] [5], OpSetCode [3] (Some [1, 2])]"

definition demo_opened :: "(bytes \<times> bytes) list statedb" where
  "demo_opened = (case New_statedb demo_env zero_hash of Inr s \<Rightarrow> s)"

definition state_after :: "sdb_op list \<Rightarrow> (bytes \<times> bytes) list statedb \<Rightarrow> (bytes \<times> bytes) list statedb" where
  "state_after ops s = (case sdb_run demo_env ops s of Ok s' \<Rightarrow> s')"

lemma state_after_Ok: "(case sdb_run demo_env ops s of Ok _ \<Rightarrow> True | _ \<Rightarrow> False) \<Longrightarrow> sdb_run demo_env ops s = Ok (state_after ops s)"
  by (simp add: state_after_def split: result.splits)

theorem revert_restores_witness:
  "\<exists>s3. RevertToSnapshot demo_env 2 (state_after demo_inside (snd (Snapshot (state_after demo_before demo_opened)))) = Ok s3 \<and>
     same_view demo_env s3 (state_after demo_before demo_opened) \<and>
     sdb_journal s3 = sdb_journal (state_after demo_before demo_opened) \<and>
     sdb_validRevisions s3 = sdb_validRevisions (state_after demo_before demo_opened)"
proof (rule revert_restores)
  show "env_ok demo_env" by (auto simp: env_ok_def demo_env_def HashLength_def)
  show "New_statedb demo_env zero_hash = Inr demo_opened" by (simp add: demo_opened_def New_statedb_def demo_env_def)
  show "sdb_run demo_env demo_before demo_opened = Ok (state_after demo_before demo_opened)"
    by (rule state_after_Ok) code_simp
  have "fst (Snapshot (state_after demo_before demo_opened)) = 2" by code_simp
  then show "Snapshot (state_after demo_before demo_opened) = (2, snd (Snapshot (state_after demo_before demo_opened)))"
    by (simp add: prod_eq_iff)
  show "sdb_run demo_env demo_inside (snd (Snapshot (state_after demo_before demo_opened)))
      = Ok (state_after demo_inside (snd (Snapshot (state_after demo_before demo_opened))))"
    by (rule state_after_Ok) code_simp
  show "\<forall>op \<in> set demo_inside. keeps_revision 2 op" by (simp add: demo_inside_def)
qed

end
