(* ===== verification/Keccak.thy ===== *)
theory Keccak
  imports Prelude
begin

text \<open>
  The Keccak-f[1600] permutation: the portable implementation \<^verbatim>\<open>utils/crypto/sha3/keccakf.go\<close>, and the
  permutation as FIPS 202 defines it.

  The implementation works in place on 25 lanes and unrolls four rounds; within those rounds the lanes
  move to other positions of the array. Each of \<open>keccak_round1\<close> to \<open>keccak_round4\<close> is one unrolled round: the parities
  of the columns, then five groups of assignments to five lanes each, one binding per assignment of the source. The reference has the five steps of a round, the rotation
  offsets from their walk over the sheet and the round constants from their feedback shift register.
\<close>

subsection \<open>The implementation\<close>

definition rc :: "u64 list" where
  "rc =
    [0x0000000000000001, 0x0000000000008082, 0x800000000000808a, 0x8000000080008000,
     0x000000000000808b, 0x0000000080000001, 0x8000000080008081, 0x8000000000008009,
     0x000000000000008a, 0x0000000000000088, 0x0000000080008009, 0x000000008000000a,
     0x000000008000808b, 0x800000000000008b, 0x8000000000008089, 0x8000000000008003,
     0x8000000000008002, 0x8000000000000080, 0x000000000000800a, 0x800000008000000a,
     0x8000000080008081, 0x8000000000008080, 0x0000000080000001, 0x8000000080008008]"

type_synonym lanes5 = "u64 \<times> u64 \<times> u64 \<times> u64 \<times> u64"

definition theta_d :: "u64 list \<Rightarrow> lanes5" where
  "theta_d a =
     (let bc0 = a ! 0 XOR a ! 5 XOR a ! 10 XOR a ! 15 XOR a ! 20;
          bc1 = a ! 1 XOR a ! 6 XOR a ! 11 XOR a ! 16 XOR a ! 21;
          bc2 = a ! 2 XOR a ! 7 XOR a ! 12 XOR a ! 17 XOR a ! 22;
          bc3 = a ! 3 XOR a ! 8 XOR a ! 13 XOR a ! 18 XOR a ! 23;
          bc4 = a ! 4 XOR a ! 9 XOR a ! 14 XOR a ! 19 XOR a ! 24;
          d0 = bc4 XOR (push_bit 1 bc1 OR drop_bit 63 bc1); d1 = bc0 XOR (push_bit 1 bc2 OR drop_bit 63 bc2);
          d2 = bc1 XOR (push_bit 1 bc3 OR drop_bit 63 bc3); d3 = bc2 XOR (push_bit 1 bc4 OR drop_bit 63 bc4);
          d4 = bc3 XOR (push_bit 1 bc0 OR drop_bit 63 bc0)
      in (d0, d1, d2, d3, d4))"

definition round1_plane1 :: "u64 \<Rightarrow> lanes5 \<Rightarrow> u64 list \<Rightarrow> u64 list" where
  "round1_plane1 rcon = (\<lambda>(d0, d1, d2, d3, d4) a.
       let bc0 = a ! 0 XOR d0;
            t = a ! 6 XOR d1; bc1 = push_bit 44 t OR drop_bit (64 - 44) t;
            t = a ! 12 XOR d2; bc2 = push_bit 43 t OR drop_bit (64 - 43) t;
            t = a ! 18 XOR d3; bc3 = push_bit 21 t OR drop_bit (64 - 21) t;
            t = a ! 24 XOR d4; bc4 = push_bit 14 t OR drop_bit (64 - 14) t;
            a = a[0 := bc0 XOR (bc2 AND NOT bc1) XOR rcon]; a = a[6 := bc1 XOR (bc3 AND NOT bc2)];
            a = a[12 := bc2 XOR (bc4 AND NOT bc3)]; a = a[18 := bc3 XOR (bc0 AND NOT bc4)];
            a = a[24 := bc4 XOR (bc1 AND NOT bc0)]
        in a)"

definition round1_plane2 :: "lanes5 \<Rightarrow> u64 list \<Rightarrow> u64 list" where
  "round1_plane2 = (\<lambda>(d0, d1, d2, d3, d4) a.
       let t = a ! 10 XOR d0; bc2 = push_bit 3 t OR drop_bit (64 - 3) t;
            t = a ! 16 XOR d1; bc3 = push_bit 45 t OR drop_bit (64 - 45) t;
            t = a ! 22 XOR d2; bc4 = push_bit 61 t OR drop_bit (64 - 61) t;
            t = a ! 3 XOR d3; bc0 = push_bit 28 t OR drop_bit (64 - 28) t;
            t = a ! 9 XOR d4; bc1 = push_bit 20 t OR drop_bit (64 - 20) t;
            a = a[10 := bc0 XOR (bc2 AND NOT bc1)]; a = a[16 := bc1 XOR (bc3 AND NOT bc2)];
            a = a[22 := bc2 XOR (bc4 AND NOT bc3)]; a = a[3 := bc3 XOR (bc0 AND NOT bc4)];
            a = a[9 := bc4 XOR (bc1 AND NOT bc0)]
        in a)"

definition round1_plane3 :: "lanes5 \<Rightarrow> u64 list \<Rightarrow> u64 list" where
  "round1_plane3 = (\<lambda>(d0, d1, d2, d3, d4) a.
       let t = a ! 20 XOR d0; bc4 = push_bit 18 t OR drop_bit (64 - 18) t;
            t = a ! 1 XOR d1; bc0 = push_bit 1 t OR drop_bit (64 - 1) t;
            t = a ! 7 XOR d2; bc1 = push_bit 6 t OR drop_bit (64 - 6) t;
            t = a ! 13 XOR d3; bc2 = push_bit 25 t OR drop_bit (64 - 25) t;
            t = a ! 19 XOR d4; bc3 = push_bit 8 t OR drop_bit (64 - 8) t;
            a = a[20 := bc0 XOR (bc2 AND NOT bc1)]; a = a[1 := bc1 XOR (bc3 AND NOT bc2)];
            a = a[7 := bc2 XOR (bc4 AND NOT bc3)]; a = a[13 := bc3 XOR (bc0 AND NOT bc4)];
            a = a[19 := bc4 XOR (bc1 AND NOT bc0)]
        in a)"

definition round1_plane4 :: "lanes5 \<Rightarrow> u64 list \<Rightarrow> u64 list" where
  "round1_plane4 = (\<lambda>(d0, d1, d2, d3, d4) a.
       let t = a ! 5 XOR d0; bc1 = push_bit 36 t OR drop_bit (64 - 36) t;
            t = a ! 11 XOR d1; bc2 = push_bit 10 t OR drop_bit (64 - 10) t;
            t = a ! 17 XOR d2; bc3 = push_bit 15 t OR drop_bit (64 - 15) t;
            t = a ! 23 XOR d3; bc4 = push_bit 56 t OR drop_bit (64 - 56) t;
            t = a ! 4 XOR d4; bc0 = push_bit 27 t OR drop_bit (64 - 27) t;
            a = a[5 := bc0 XOR (bc2 AND NOT bc1)]; a = a[11 := bc1 XOR (bc3 AND NOT bc2)];
            a = a[17 := bc2 XOR (bc4 AND NOT bc3)]; a = a[23 := bc3 XOR (bc0 AND NOT bc4)];
            a = a[4 := bc4 XOR (bc1 AND NOT bc0)]
        in a)"

definition round1_plane5 :: "lanes5 \<Rightarrow> u64 list \<Rightarrow> u64 list" where
  "round1_plane5 = (\<lambda>(d0, d1, d2, d3, d4) a.
       let t = a ! 15 XOR d0; bc3 = push_bit 41 t OR drop_bit (64 - 41) t;
            t = a ! 21 XOR d1; bc4 = push_bit 2 t OR drop_bit (64 - 2) t;
            t = a ! 2 XOR d2; bc0 = push_bit 62 t OR drop_bit (64 - 62) t;
            t = a ! 8 XOR d3; bc1 = push_bit 55 t OR drop_bit (64 - 55) t;
            t = a ! 14 XOR d4; bc2 = push_bit 39 t OR drop_bit (64 - 39) t;
            a = a[15 := bc0 XOR (bc2 AND NOT bc1)]; a = a[21 := bc1 XOR (bc3 AND NOT bc2)];
            a = a[2 := bc2 XOR (bc4 AND NOT bc3)]; a = a[8 := bc3 XOR (bc0 AND NOT bc4)];
            a = a[14 := bc4 XOR (bc1 AND NOT bc0)]
        in a)"

definition keccak_round1 :: "u64 \<Rightarrow> u64 list \<Rightarrow> u64 list" where
  "keccak_round1 rcon a =
     (let d = theta_d a in round1_plane5 d (round1_plane4 d (round1_plane3 d (round1_plane2 d (round1_plane1 rcon d a)))))"

definition round2_plane1 :: "u64 \<Rightarrow> lanes5 \<Rightarrow> u64 list \<Rightarrow> u64 list" where
  "round2_plane1 rcon = (\<lambda>(d0, d1, d2, d3, d4) a.
       let bc0 = a ! 0 XOR d0;
            t = a ! 16 XOR d1; bc1 = push_bit 44 t OR drop_bit (64 - 44) t;
            t = a ! 7 XOR d2; bc2 = push_bit 43 t OR drop_bit (64 - 43) t;
            t = a ! 23 XOR d3; bc3 = push_bit 21 t OR drop_bit (64 - 21) t;
            t = a ! 14 XOR d4; bc4 = push_bit 14 t OR drop_bit (64 - 14) t;
            a = a[0 := bc0 XOR (bc2 AND NOT bc1) XOR rcon]; a = a[16 := bc1 XOR (bc3 AND NOT bc2)];
            a = a[7 := bc2 XOR (bc4 AND NOT bc3)]; a = a[23 := bc3 XOR (bc0 AND NOT bc4)];
            a = a[14 := bc4 XOR (bc1 AND NOT bc0)]
        in a)"

definition round2_plane2 :: "lanes5 \<Rightarrow> u64 list \<Rightarrow> u64 list" where
  "round2_plane2 = (\<lambda>(d0, d1, d2, d3, d4) a.
       let t = a ! 20 XOR d0; bc2 = push_bit 3 t OR drop_bit (64 - 3) t;
            t = a ! 11 XOR d1; bc3 = push_bit 45 t OR drop_bit (64 - 45) t;
            t = a ! 2 XOR d2; bc4 = push_bit 61 t OR drop_bit (64 - 61) t;
            t = a ! 18 XOR d3; bc0 = push_bit 28 t OR drop_bit (64 - 28) t;
            t = a ! 9 XOR d4; bc1 = push_bit 20 t OR drop_bit (64 - 20) t;
            a = a[20 := bc0 XOR (bc2 AND NOT bc1)]; a = a[11 := bc1 XOR (bc3 AND NOT bc2)];
            a = a[2 := bc2 XOR (bc4 AND NOT bc3)]; a = a[18 := bc3 XOR (bc0 AND NOT bc4)];
            a = a[9 := bc4 XOR (bc1 AND NOT bc0)]
        in a)"

definition round2_plane3 :: "lanes5 \<Rightarrow> u64 list \<Rightarrow> u64 list" where
  "round2_plane3 = (\<lambda>(d0, d1, d2, d3, d4) a.
       let t = a ! 15 XOR d0; bc4 = push_bit 18 t OR drop_bit (64 - 18) t;
            t = a ! 6 XOR d1; bc0 = push_bit 1 t OR drop_bit (64 - 1) t;
            t = a ! 22 XOR d2; bc1 = push_bit 6 t OR drop_bit (64 - 6) t;
            t = a ! 13 XOR d3; bc2 = push_bit 25 t OR drop_bit (64 - 25) t;
            t = a ! 4 XOR d4; bc3 = push_bit 8 t OR drop_bit (64 - 8) t;
            a = a[15 := bc0 XOR (bc2 AND NOT bc1)]; a = a[6 := bc1 XOR (bc3 AND NOT bc2)];
            a = a[22 := bc2 XOR (bc4 AND NOT bc3)]; a = a[13 := bc3 XOR (bc0 AND NOT bc4)];
            a = a[4 := bc4 XOR (bc1 AND NOT bc0)]
        in a)"

definition round2_plane4 :: "lanes5 \<Rightarrow> u64 list \<Rightarrow> u64 list" where
  "round2_plane4 = (\<lambda>(d0, d1, d2, d3, d4) a.
       let t = a ! 10 XOR d0; bc1 = push_bit 36 t OR drop_bit (64 - 36) t;
            t = a ! 1 XOR d1; bc2 = push_bit 10 t OR drop_bit (64 - 10) t;
            t = a ! 17 XOR d2; bc3 = push_bit 15 t OR drop_bit (64 - 15) t;
            t = a ! 8 XOR d3; bc4 = push_bit 56 t OR drop_bit (64 - 56) t;
            t = a ! 24 XOR d4; bc0 = push_bit 27 t OR drop_bit (64 - 27) t;
            a = a[10 := bc0 XOR (bc2 AND NOT bc1)]; a = a[1 := bc1 XOR (bc3 AND NOT bc2)];
            a = a[17 := bc2 XOR (bc4 AND NOT bc3)]; a = a[8 := bc3 XOR (bc0 AND NOT bc4)];
            a = a[24 := bc4 XOR (bc1 AND NOT bc0)]
        in a)"

definition round2_plane5 :: "lanes5 \<Rightarrow> u64 list \<Rightarrow> u64 list" where
  "round2_plane5 = (\<lambda>(d0, d1, d2, d3, d4) a.
       let t = a ! 5 XOR d0; bc3 = push_bit 41 t OR drop_bit (64 - 41) t;
            t = a ! 21 XOR d1; bc4 = push_bit 2 t OR drop_bit (64 - 2) t;
            t = a ! 12 XOR d2; bc0 = push_bit 62 t OR drop_bit (64 - 62) t;
            t = a ! 3 XOR d3; bc1 = push_bit 55 t OR drop_bit (64 - 55) t;
            t = a ! 19 XOR d4; bc2 = push_bit 39 t OR drop_bit (64 - 39) t;
            a = a[5 := bc0 XOR (bc2 AND NOT bc1)]; a = a[21 := bc1 XOR (bc3 AND NOT bc2)];
            a = a[12 := bc2 XOR (bc4 AND NOT bc3)]; a = a[3 := bc3 XOR (bc0 AND NOT bc4)];
            a = a[19 := bc4 XOR (bc1 AND NOT bc0)]
        in a)"

definition keccak_round2 :: "u64 \<Rightarrow> u64 list \<Rightarrow> u64 list" where
  "keccak_round2 rcon a =
     (let d = theta_d a in round2_plane5 d (round2_plane4 d (round2_plane3 d (round2_plane2 d (round2_plane1 rcon d a)))))"

definition round3_plane1 :: "u64 \<Rightarrow> lanes5 \<Rightarrow> u64 list \<Rightarrow> u64 list" where
  "round3_plane1 rcon = (\<lambda>(d0, d1, d2, d3, d4) a.
       let bc0 = a ! 0 XOR d0;
            t = a ! 11 XOR d1; bc1 = push_bit 44 t OR drop_bit (64 - 44) t;
            t = a ! 22 XOR d2; bc2 = push_bit 43 t OR drop_bit (64 - 43) t;
            t = a ! 8 XOR d3; bc3 = push_bit 21 t OR drop_bit (64 - 21) t;
            t = a ! 19 XOR d4; bc4 = push_bit 14 t OR drop_bit (64 - 14) t;
            a = a[0 := bc0 XOR (bc2 AND NOT bc1) XOR rcon]; a = a[11 := bc1 XOR (bc3 AND NOT bc2)];
            a = a[22 := bc2 XOR (bc4 AND NOT bc3)]; a = a[8 := bc3 XOR (bc0 AND NOT bc4)];
            a = a[19 := bc4 XOR (bc1 AND NOT bc0)]
        in a)"

definition round3_plane2 :: "lanes5 \<Rightarrow> u64 list \<Rightarrow> u64 list" where
  "round3_plane2 = (\<lambda>(d0, d1, d2, d3, d4) a.
       let t = a ! 15 XOR d0; bc2 = push_bit 3 t OR drop_bit (64 - 3) t;
            t = a ! 1 XOR d1; bc3 = push_bit 45 t OR drop_bit (64 - 45) t;
            t = a ! 12 XOR d2; bc4 = push_bit 61 t OR drop_bit (64 - 61) t;
            t = a ! 23 XOR d3; bc0 = push_bit 28 t OR drop_bit (64 - 28) t;
            t = a ! 9 XOR d4; bc1 = push_bit 20 t OR drop_bit (64 - 20) t;
            a = a[15 := bc0 XOR (bc2 AND NOT bc1)]; a = a[1 := bc1 XOR (bc3 AND NOT bc2)];
            a = a[12 := bc2 XOR (bc4 AND NOT bc3)]; a = a[23 := bc3 XOR (bc0 AND NOT bc4)];
            a = a[9 := bc4 XOR (bc1 AND NOT bc0)]
        in a)"

definition round3_plane3 :: "lanes5 \<Rightarrow> u64 list \<Rightarrow> u64 list" where
  "round3_plane3 = (\<lambda>(d0, d1, d2, d3, d4) a.
       let t = a ! 5 XOR d0; bc4 = push_bit 18 t OR drop_bit (64 - 18) t;
            t = a ! 16 XOR d1; bc0 = push_bit 1 t OR drop_bit (64 - 1) t;
            t = a ! 2 XOR d2; bc1 = push_bit 6 t OR drop_bit (64 - 6) t;
            t = a ! 13 XOR d3; bc2 = push_bit 25 t OR drop_bit (64 - 25) t;
            t = a ! 24 XOR d4; bc3 = push_bit 8 t OR drop_bit (64 - 8) t;
            a = a[5 := bc0 XOR (bc2 AND NOT bc1)]; a = a[16 := bc1 XOR (bc3 AND NOT bc2)];
            a = a[2 := bc2 XOR (bc4 AND NOT bc3)]; a = a[13 := bc3 XOR (bc0 AND NOT bc4)];
            a = a[24 := bc4 XOR (bc1 AND NOT bc0)]
        in a)"

definition round3_plane4 :: "lanes5 \<Rightarrow> u64 list \<Rightarrow> u64 list" where
  "round3_plane4 = (\<lambda>(d0, d1, d2, d3, d4) a.
       let t = a ! 20 XOR d0; bc1 = push_bit 36 t OR drop_bit (64 - 36) t;
            t = a ! 6 XOR d1; bc2 = push_bit 10 t OR drop_bit (64 - 10) t;
            t = a ! 17 XOR d2; bc3 = push_bit 15 t OR drop_bit (64 - 15) t;
            t = a ! 3 XOR d3; bc4 = push_bit 56 t OR drop_bit (64 - 56) t;
            t = a ! 14 XOR d4; bc0 = push_bit 27 t OR drop_bit (64 - 27) t;
            a = a[20 := bc0 XOR (bc2 AND NOT bc1)]; a = a[6 := bc1 XOR (bc3 AND NOT bc2)];
            a = a[17 := bc2 XOR (bc4 AND NOT bc3)]; a = a[3 := bc3 XOR (bc0 AND NOT bc4)];
            a = a[14 := bc4 XOR (bc1 AND NOT bc0)]
        in a)"

definition round3_plane5 :: "lanes5 \<Rightarrow> u64 list \<Rightarrow> u64 list" where
  "round3_plane5 = (\<lambda>(d0, d1, d2, d3, d4) a.
       let t = a ! 10 XOR d0; bc3 = push_bit 41 t OR drop_bit (64 - 41) t;
            t = a ! 21 XOR d1; bc4 = push_bit 2 t OR drop_bit (64 - 2) t;
            t = a ! 7 XOR d2; bc0 = push_bit 62 t OR drop_bit (64 - 62) t;
            t = a ! 18 XOR d3; bc1 = push_bit 55 t OR drop_bit (64 - 55) t;
            t = a ! 4 XOR d4; bc2 = push_bit 39 t OR drop_bit (64 - 39) t;
            a = a[10 := bc0 XOR (bc2 AND NOT bc1)]; a = a[21 := bc1 XOR (bc3 AND NOT bc2)];
            a = a[7 := bc2 XOR (bc4 AND NOT bc3)]; a = a[18 := bc3 XOR (bc0 AND NOT bc4)];
            a = a[4 := bc4 XOR (bc1 AND NOT bc0)]
        in a)"

definition keccak_round3 :: "u64 \<Rightarrow> u64 list \<Rightarrow> u64 list" where
  "keccak_round3 rcon a =
     (let d = theta_d a in round3_plane5 d (round3_plane4 d (round3_plane3 d (round3_plane2 d (round3_plane1 rcon d a)))))"

definition round4_plane1 :: "u64 \<Rightarrow> lanes5 \<Rightarrow> u64 list \<Rightarrow> u64 list" where
  "round4_plane1 rcon = (\<lambda>(d0, d1, d2, d3, d4) a.
       let bc0 = a ! 0 XOR d0;
            t = a ! 1 XOR d1; bc1 = push_bit 44 t OR drop_bit (64 - 44) t;
            t = a ! 2 XOR d2; bc2 = push_bit 43 t OR drop_bit (64 - 43) t;
            t = a ! 3 XOR d3; bc3 = push_bit 21 t OR drop_bit (64 - 21) t;
            t = a ! 4 XOR d4; bc4 = push_bit 14 t OR drop_bit (64 - 14) t;
            a = a[0 := bc0 XOR (bc2 AND NOT bc1) XOR rcon]; a = a[1 := bc1 XOR (bc3 AND NOT bc2)];
            a = a[2 := bc2 XOR (bc4 AND NOT bc3)]; a = a[3 := bc3 XOR (bc0 AND NOT bc4)];
            a = a[4 := bc4 XOR (bc1 AND NOT bc0)]
        in a)"

definition round4_plane2 :: "lanes5 \<Rightarrow> u64 list \<Rightarrow> u64 list" where
  "round4_plane2 = (\<lambda>(d0, d1, d2, d3, d4) a.
       let t = a ! 5 XOR d0; bc2 = push_bit 3 t OR drop_bit (64 - 3) t;
            t = a ! 6 XOR d1; bc3 = push_bit 45 t OR drop_bit (64 - 45) t;
            t = a ! 7 XOR d2; bc4 = push_bit 61 t OR drop_bit (64 - 61) t;
            t = a ! 8 XOR d3; bc0 = push_bit 28 t OR drop_bit (64 - 28) t;
            t = a ! 9 XOR d4; bc1 = push_bit 20 t OR drop_bit (64 - 20) t;
            a = a[5 := bc0 XOR (bc2 AND NOT bc1)]; a = a[6 := bc1 XOR (bc3 AND NOT bc2)];
            a = a[7 := bc2 XOR (bc4 AND NOT bc3)]; a = a[8 := bc3 XOR (bc0 AND NOT bc4)];
            a = a[9 := bc4 XOR (bc1 AND NOT bc0)]
        in a)"

definition round4_plane3 :: "lanes5 \<Rightarrow> u64 list \<Rightarrow> u64 list" where
  "round4_plane3 = (\<lambda>(d0, d1, d2, d3, d4) a.
       let t = a ! 10 XOR d0; bc4 = push_bit 18 t OR drop_bit (64 - 18) t;
            t = a ! 11 XOR d1; bc0 = push_bit 1 t OR drop_bit (64 - 1) t;
            t = a ! 12 XOR d2; bc1 = push_bit 6 t OR drop_bit (64 - 6) t;
            t = a ! 13 XOR d3; bc2 = push_bit 25 t OR drop_bit (64 - 25) t;
            t = a ! 14 XOR d4; bc3 = push_bit 8 t OR drop_bit (64 - 8) t;
            a = a[10 := bc0 XOR (bc2 AND NOT bc1)]; a = a[11 := bc1 XOR (bc3 AND NOT bc2)];
            a = a[12 := bc2 XOR (bc4 AND NOT bc3)]; a = a[13 := bc3 XOR (bc0 AND NOT bc4)];
            a = a[14 := bc4 XOR (bc1 AND NOT bc0)]
        in a)"

definition round4_plane4 :: "lanes5 \<Rightarrow> u64 list \<Rightarrow> u64 list" where
  "round4_plane4 = (\<lambda>(d0, d1, d2, d3, d4) a.
       let t = a ! 15 XOR d0; bc1 = push_bit 36 t OR drop_bit (64 - 36) t;
            t = a ! 16 XOR d1; bc2 = push_bit 10 t OR drop_bit (64 - 10) t;
            t = a ! 17 XOR d2; bc3 = push_bit 15 t OR drop_bit (64 - 15) t;
            t = a ! 18 XOR d3; bc4 = push_bit 56 t OR drop_bit (64 - 56) t;
            t = a ! 19 XOR d4; bc0 = push_bit 27 t OR drop_bit (64 - 27) t;
            a = a[15 := bc0 XOR (bc2 AND NOT bc1)]; a = a[16 := bc1 XOR (bc3 AND NOT bc2)];
            a = a[17 := bc2 XOR (bc4 AND NOT bc3)]; a = a[18 := bc3 XOR (bc0 AND NOT bc4)];
            a = a[19 := bc4 XOR (bc1 AND NOT bc0)]
        in a)"

definition round4_plane5 :: "lanes5 \<Rightarrow> u64 list \<Rightarrow> u64 list" where
  "round4_plane5 = (\<lambda>(d0, d1, d2, d3, d4) a.
       let t = a ! 20 XOR d0; bc3 = push_bit 41 t OR drop_bit (64 - 41) t;
            t = a ! 21 XOR d1; bc4 = push_bit 2 t OR drop_bit (64 - 2) t;
            t = a ! 22 XOR d2; bc0 = push_bit 62 t OR drop_bit (64 - 62) t;
            t = a ! 23 XOR d3; bc1 = push_bit 55 t OR drop_bit (64 - 55) t;
            t = a ! 24 XOR d4; bc2 = push_bit 39 t OR drop_bit (64 - 39) t;
            a = a[20 := bc0 XOR (bc2 AND NOT bc1)]; a = a[21 := bc1 XOR (bc3 AND NOT bc2)];
            a = a[22 := bc2 XOR (bc4 AND NOT bc3)]; a = a[23 := bc3 XOR (bc0 AND NOT bc4)];
            a = a[24 := bc4 XOR (bc1 AND NOT bc0)]
        in a)"

definition keccak_round4 :: "u64 \<Rightarrow> u64 list \<Rightarrow> u64 list" where
  "keccak_round4 rcon a =
     (let d = theta_d a in round4_plane5 d (round4_plane4 d (round4_plane3 d (round4_plane2 d (round4_plane1 rcon d a)))))"

function keccak_loop :: "nat \<Rightarrow> u64 list \<Rightarrow> u64 list" where
  "keccak_loop i a =
     (if i < 24
      then let a = keccak_round1 (rc ! i) a; a = keccak_round2 (rc ! (i + 1)) a;
               a = keccak_round3 (rc ! (i + 2)) a; a = keccak_round4 (rc ! (i + 3)) a
           in keccak_loop (i + 4) a
      else a)"
  by pat_completeness auto
termination by (relation "measure (\<lambda>(i, _). 24 - i)") auto

declare keccak_loop.simps [simp del]

definition keccakF1600 :: "u64 list \<Rightarrow> u64 list" where
  "keccakF1600 a = keccak_loop 0 a"

subsection \<open>The reference\<close>

definition column :: "u64 list \<Rightarrow> nat \<Rightarrow> u64" where
  "column a x = a ! x XOR a ! (x + 5) XOR a ! (x + 10) XOR a ! (x + 15) XOR a ! (x + 20)"

definition theta :: "u64 list \<Rightarrow> u64 list" where
  "theta a = map (\<lambda>i. a ! i XOR (column a ((i + 4) mod 5) XOR word_rotl 1 (column a ((i + 1) mod 5)))) [0..<25]"

text \<open>The walk that gives the rotation offsets: step \<open>t\<close> is at lane \<open>(x, y)\<close>, the next at \<open>(y, 2x + 3y)\<close>.\<close>

fun rho_walk :: "nat \<Rightarrow> nat \<Rightarrow> nat \<Rightarrow> nat \<Rightarrow> nat list \<Rightarrow> nat list" where
  "rho_walk 0 t x y offs = offs"
| "rho_walk (Suc n) t x y offs =
     rho_walk n (Suc t) y ((2 * x + 3 * y) mod 5) (offs[5 * y + x := ((t + 1) * (t + 2) div 2) mod 64])"

definition rho_offsets :: "nat list" where
  "rho_offsets = rho_walk 24 0 1 0 (replicate 25 0)"

definition rho :: "u64 list \<Rightarrow> u64 list" where
  "rho a = map (\<lambda>i. word_rotl (rho_offsets ! i) (a ! i)) [0..<25]"

definition pi_step :: "u64 list \<Rightarrow> u64 list" where
  "pi_step a = map (\<lambda>i. a ! (5 * (i mod 5) + (i mod 5 + 3 * (i div 5)) mod 5)) [0..<25]"

definition chi :: "u64 list \<Rightarrow> u64 list" where
  "chi a = map (\<lambda>i. a ! i XOR (NOT (a ! (5 * (i div 5) + (i + 1) mod 5)) AND a ! (5 * (i div 5) + (i + 2) mod 5))) [0..<25]"

definition iota :: "u64 \<Rightarrow> u64 list \<Rightarrow> u64 list" where
  "iota c a = a[0 := a ! 0 XOR c]"

text \<open>The register of 8 bits, its least significant bit first, and bit \<open>t\<close> of its output.\<close>

fun lfsr :: "nat \<Rightarrow> bool list" where
  "lfsr 0 = [True, False, False, False, False, False, False, False]"
| "lfsr (Suc n) =
     (let r = False # lfsr n; b = r ! 8
      in take 8 (r[0 := r ! 0 \<noteq> b, 4 := r ! 4 \<noteq> b, 5 := r ! 5 \<noteq> b, 6 := r ! 6 \<noteq> b]))"

definition rc_bit :: "nat \<Rightarrow> bool" where
  "rc_bit t = lfsr (t mod 255) ! 0"

definition round_constant :: "nat \<Rightarrow> u64" where
  "round_constant ir = foldr (\<lambda>j c. if rc_bit (j + 7 * ir) then set_bit (2 ^ j - 1) c else c) [0..<7] 0"

definition keccak_round :: "u64 \<Rightarrow> u64 list \<Rightarrow> u64 list" where
  "keccak_round c a = iota c (chi (pi_step (rho (theta a))))"

definition keccak_f :: "u64 list \<Rightarrow> u64 list" where
  "keccak_f a = fold (\<lambda>ir. keccak_round (round_constant ir)) [0..<24] a"

subsection \<open>Agreement\<close>

lemma rotl_shifts:
  assumes "0 < n" and "n < 64"
  shows "word_rotl n (x :: u64) = push_bit n x OR drop_bit (64 - n) x"
proof (rule bit_word_eqI)
  fix k assume "k < LENGTH(64)"
  then have k: "k < 64" by simp
  show "bit (word_rotl n x) k = bit (push_bit n x OR drop_bit (64 - n) x) k"
  proof (cases "n \<le> k")
    case True
    then have "(k + 64 - n) mod 64 = k - n" "\<not> bit x (64 + k - n)"
      using k bit_imp_le_length [of x "64 + k - n"] by (auto simp: mod_if)
    then show ?thesis using True k assms by (auto simp: bit_simps)
  next
    case False
    then have "(k + 64 - n) mod 64 = 64 + k - n" using k by simp
    then show ?thesis using False k assms by (auto simp: bit_simps)
  qed
qed

lemma round_constants: "map round_constant [0..<24] = rc"
  by code_simp

lemma rho_offsets_table:
  "rho_offsets = [0, 1, 62, 28, 27, 36, 44, 6, 55, 20, 3, 10, 43, 25, 39, 41, 45, 15, 21, 8, 18, 2, 61, 56, 14]"
  by code_simp

end
