(* ===== verification/KeccakProof.thy ===== *)
theory KeccakProof
  imports Keccak
begin

text \<open>
  The unrolled implementation of Keccak-f[1600] computes the permutation of FIPS 202.
\<close>

text \<open>
  Where the lanes are: \<open>stored pos xs a\<close> says that lane \<open>i\<close> of the state \<open>xs\<close> is at position \<open>pos ! i\<close> of the
  array. The columns stay in place, so the parities of the columns do not depend on the position.
\<close>

definition stored :: "nat list \<Rightarrow> u64 list \<Rightarrow> u64 list \<Rightarrow> bool" where
  "stored pos xs a \<longleftrightarrow> length a = 25 \<and> length xs = 25 \<and> (\<forall>i < 25. a ! (pos ! i) = xs ! i)"

definition positions :: "nat \<Rightarrow> nat list" where
  "positions r = [
    [0, 1, 2, 3, 4, 5, 6, 7, 8, 9, 10, 11, 12, 13, 14, 15, 16, 17, 18, 19, 20, 21, 22, 23, 24],
    [0, 6, 12, 18, 24, 10, 16, 22, 3, 9, 20, 1, 7, 13, 19, 5, 11, 17, 23, 4, 15, 21, 2, 8, 14],
    [0, 16, 7, 23, 14, 20, 11, 2, 18, 9, 15, 6, 22, 13, 4, 10, 1, 17, 8, 24, 5, 21, 12, 3, 19],
    [0, 11, 22, 8, 19, 15, 1, 12, 23, 9, 5, 16, 2, 13, 24, 20, 6, 17, 3, 14, 10, 21, 7, 18, 4]] ! r"

definition effect :: "u64 list \<Rightarrow> nat \<Rightarrow> u64" where
  "effect a x = column a ((x + 4) mod 5) XOR word_rotl 1 (column a ((x + 1) mod 5))"

lemma lanes25: "(\<forall>i < (25 :: nat). P i) \<longleftrightarrow> P 0 \<and> P 1 \<and> P 2 \<and> P 3 \<and> P 4 \<and> P 5 \<and> P 6 \<and> P 7 \<and> P 8 \<and> P 9 \<and> P 10 \<and> P 11 \<and> P 12 \<and> P 13 \<and> P 14 \<and> P 15 \<and> P 16 \<and> P 17 \<and> P 18 \<and> P 19 \<and> P 20 \<and> P 21 \<and> P 22 \<and> P 23 \<and> P 24"
proof -
  have u: "[0..<25] = [0, 1, 2, 3, 4, 5, 6, 7, 8, 9, 10, 11, 12, 13, 14, 15, 16, 17, 18, 19, 20, 21, 22, 23, 24]"
    by code_simp
  have "(\<forall>i < 25. P i) \<longleftrightarrow> (\<forall>i \<in> set [0..<25]. P i)" by auto
  then show ?thesis unfolding u by simp
qed

lemma rotl_fold: "0 < n \<Longrightarrow> n < 64 \<Longrightarrow> push_bit n x OR drop_bit (64 - n) x = word_rotl n (x :: u64)"
  "push_bit 1 x OR drop_bit 63 x = word_rotl 1 x"
  using rotl_shifts [of n x] rotl_shifts [of 1 x] by simp_all

lemmas xor_ac = xor.assoc xor.commute xor.left_commute

lemma column_stored:
  assumes "stored (positions r) xs a" and "r < 4"
  shows "a ! 0 XOR a ! 5 XOR a ! 10 XOR a ! 15 XOR a ! 20 = column xs 0"
    "a ! 1 XOR a ! 6 XOR a ! 11 XOR a ! 16 XOR a ! 21 = column xs 1"
    "a ! 2 XOR a ! 7 XOR a ! 12 XOR a ! 17 XOR a ! 22 = column xs 2"
    "a ! 3 XOR a ! 8 XOR a ! 13 XOR a ! 18 XOR a ! 23 = column xs 3"
    "a ! 4 XOR a ! 9 XOR a ! 14 XOR a ! 19 XOR a ! 24 = column xs 4"
proof -
  consider "r = 0" | "r = 1" | "r = 2" | "r = 3" using assms(2) by linarith
  then have "a ! 0 XOR a ! 5 XOR a ! 10 XOR a ! 15 XOR a ! 20 = column xs 0 \<and>
    a ! 1 XOR a ! 6 XOR a ! 11 XOR a ! 16 XOR a ! 21 = column xs 1 \<and>
    a ! 2 XOR a ! 7 XOR a ! 12 XOR a ! 17 XOR a ! 22 = column xs 2 \<and>
    a ! 3 XOR a ! 8 XOR a ! 13 XOR a ! 18 XOR a ! 23 = column xs 3 \<and>
    a ! 4 XOR a ! 9 XOR a ! 14 XOR a ! 19 XOR a ! 24 = column xs 4"
    by cases (use assms(1) in \<open>simp_all add: stored_def positions_def lanes25 column_def xor_ac\<close>)
  then show "a ! 0 XOR a ! 5 XOR a ! 10 XOR a ! 15 XOR a ! 20 = column xs 0"
    "a ! 1 XOR a ! 6 XOR a ! 11 XOR a ! 16 XOR a ! 21 = column xs 1"
    "a ! 2 XOR a ! 7 XOR a ! 12 XOR a ! 17 XOR a ! 22 = column xs 2"
    "a ! 3 XOR a ! 8 XOR a ! 13 XOR a ! 18 XOR a ! 23 = column xs 3"
    "a ! 4 XOR a ! 9 XOR a ! 14 XOR a ! 19 XOR a ! 24 = column xs 4" by blast+
qed

lemma theta_d_effect:
  assumes "stored (positions r) xs a" and "r < 4"
  shows "theta_d a = (effect xs 0, effect xs 1, effect xs 2, effect xs 3, effect xs 4)"
  unfolding theta_d_def Let_def column_stored [OF assms] rotl_fold(2)
  by (simp add: effect_def numeral_2_eq_2)

lemma round_lane:
  assumes "length xs = 25" and "i < 25"
  shows "keccak_round c xs ! i =
    (let b = pi_step (rho (theta xs)) in
     (b ! i XOR (b ! (5 * (i div 5) + (i + 2) mod 5) AND NOT (b ! (5 * (i div 5) + (i + 1) mod 5))))
       XOR (if i = 0 then c else 0))"
  using assms by (simp add: keccak_round_def iota_def chi_def Let_def nth_list_update and.commute)

lemma shuffled_lane:
  "i < 25 \<Longrightarrow> pi_step (rho (theta xs)) ! i =
     (let j = 5 * (i mod 5) + (i mod 5 + 3 * (i div 5)) mod 5 in word_rotl (rho_offsets ! j) (xs ! j XOR effect xs (j mod 5)))"
proof -
  assume "i < 25"
  have "i mod 5 < 5" "(i mod 5 + 3 * (i div 5)) mod 5 < 5" by simp_all
  then have "5 * (i mod 5) + (i mod 5 + 3 * (i div 5)) mod 5 < 25" by linarith
  then show ?thesis using \<open>i < 25\<close> by (simp add: pi_step_def rho_def theta_def Let_def effect_def mod_add_left_eq)
qed

lemma round_length: "length (keccak_round c xs) = 25"
  by (simp add: keccak_round_def iota_def chi_def)

lemma rotl_0: "word_rotl 0 (x :: u64) = x"
  by (rule bit_word_eqI) (simp add: bit_simps)

lemma rotl_literals:
  fixes x :: u64
  shows
    "push_bit 1 x OR drop_bit (64 - 1) x = word_rotl 1 x"
    "push_bit 2 x OR drop_bit (64 - 2) x = word_rotl 2 x"
    "push_bit 3 x OR drop_bit (64 - 3) x = word_rotl 3 x"
    "push_bit 6 x OR drop_bit (64 - 6) x = word_rotl 6 x"
    "push_bit 8 x OR drop_bit (64 - 8) x = word_rotl 8 x"
    "push_bit 10 x OR drop_bit (64 - 10) x = word_rotl 10 x"
    "push_bit 14 x OR drop_bit (64 - 14) x = word_rotl 14 x"
    "push_bit 15 x OR drop_bit (64 - 15) x = word_rotl 15 x"
    "push_bit 18 x OR drop_bit (64 - 18) x = word_rotl 18 x"
    "push_bit 20 x OR drop_bit (64 - 20) x = word_rotl 20 x"
    "push_bit 21 x OR drop_bit (64 - 21) x = word_rotl 21 x"
    "push_bit 25 x OR drop_bit (64 - 25) x = word_rotl 25 x"
    "push_bit 27 x OR drop_bit (64 - 27) x = word_rotl 27 x"
    "push_bit 28 x OR drop_bit (64 - 28) x = word_rotl 28 x"
    "push_bit 36 x OR drop_bit (64 - 36) x = word_rotl 36 x"
    "push_bit 39 x OR drop_bit (64 - 39) x = word_rotl 39 x"
    "push_bit 41 x OR drop_bit (64 - 41) x = word_rotl 41 x"
    "push_bit 43 x OR drop_bit (64 - 43) x = word_rotl 43 x"
    "push_bit 44 x OR drop_bit (64 - 44) x = word_rotl 44 x"
    "push_bit 45 x OR drop_bit (64 - 45) x = word_rotl 45 x"
    "push_bit 55 x OR drop_bit (64 - 55) x = word_rotl 55 x"
    "push_bit 56 x OR drop_bit (64 - 56) x = word_rotl 56 x"
    "push_bit 61 x OR drop_bit (64 - 61) x = word_rotl 61 x"
    "push_bit 62 x OR drop_bit (64 - 62) x = word_rotl 62 x"
  by (rule rotl_fold(1); simp)+

lemma round_lanes:
  assumes "length xs = 25"
  shows
    "keccak_round c xs ! 0 = (xs ! 0 XOR effect xs 0) XOR (word_rotl 43 (xs ! 12 XOR effect xs 2) AND NOT (word_rotl 44 (xs ! 6 XOR effect xs 1))) XOR c"
    "keccak_round c xs ! 1 = word_rotl 44 (xs ! 6 XOR effect xs 1) XOR (word_rotl 21 (xs ! 18 XOR effect xs 3) AND NOT (word_rotl 43 (xs ! 12 XOR effect xs 2)))"
    "keccak_round c xs ! 2 = word_rotl 43 (xs ! 12 XOR effect xs 2) XOR (word_rotl 14 (xs ! 24 XOR effect xs 4) AND NOT (word_rotl 21 (xs ! 18 XOR effect xs 3)))"
    "keccak_round c xs ! 3 = word_rotl 21 (xs ! 18 XOR effect xs 3) XOR ((xs ! 0 XOR effect xs 0) AND NOT (word_rotl 14 (xs ! 24 XOR effect xs 4)))"
    "keccak_round c xs ! 4 = word_rotl 14 (xs ! 24 XOR effect xs 4) XOR (word_rotl 44 (xs ! 6 XOR effect xs 1) AND NOT ((xs ! 0 XOR effect xs 0)))"
    "keccak_round c xs ! 5 = word_rotl 28 (xs ! 3 XOR effect xs 3) XOR (word_rotl 3 (xs ! 10 XOR effect xs 0) AND NOT (word_rotl 20 (xs ! 9 XOR effect xs 4)))"
    "keccak_round c xs ! 6 = word_rotl 20 (xs ! 9 XOR effect xs 4) XOR (word_rotl 45 (xs ! 16 XOR effect xs 1) AND NOT (word_rotl 3 (xs ! 10 XOR effect xs 0)))"
    "keccak_round c xs ! 7 = word_rotl 3 (xs ! 10 XOR effect xs 0) XOR (word_rotl 61 (xs ! 22 XOR effect xs 2) AND NOT (word_rotl 45 (xs ! 16 XOR effect xs 1)))"
    "keccak_round c xs ! 8 = word_rotl 45 (xs ! 16 XOR effect xs 1) XOR (word_rotl 28 (xs ! 3 XOR effect xs 3) AND NOT (word_rotl 61 (xs ! 22 XOR effect xs 2)))"
    "keccak_round c xs ! 9 = word_rotl 61 (xs ! 22 XOR effect xs 2) XOR (word_rotl 20 (xs ! 9 XOR effect xs 4) AND NOT (word_rotl 28 (xs ! 3 XOR effect xs 3)))"
    "keccak_round c xs ! 10 = word_rotl 1 (xs ! 1 XOR effect xs 1) XOR (word_rotl 25 (xs ! 13 XOR effect xs 3) AND NOT (word_rotl 6 (xs ! 7 XOR effect xs 2)))"
    "keccak_round c xs ! 11 = word_rotl 6 (xs ! 7 XOR effect xs 2) XOR (word_rotl 8 (xs ! 19 XOR effect xs 4) AND NOT (word_rotl 25 (xs ! 13 XOR effect xs 3)))"
    "keccak_round c xs ! 12 = word_rotl 25 (xs ! 13 XOR effect xs 3) XOR (word_rotl 18 (xs ! 20 XOR effect xs 0) AND NOT (word_rotl 8 (xs ! 19 XOR effect xs 4)))"
    "keccak_round c xs ! 13 = word_rotl 8 (xs ! 19 XOR effect xs 4) XOR (word_rotl 1 (xs ! 1 XOR effect xs 1) AND NOT (word_rotl 18 (xs ! 20 XOR effect xs 0)))"
    "keccak_round c xs ! 14 = word_rotl 18 (xs ! 20 XOR effect xs 0) XOR (word_rotl 6 (xs ! 7 XOR effect xs 2) AND NOT (word_rotl 1 (xs ! 1 XOR effect xs 1)))"
    "keccak_round c xs ! 15 = word_rotl 27 (xs ! 4 XOR effect xs 4) XOR (word_rotl 10 (xs ! 11 XOR effect xs 1) AND NOT (word_rotl 36 (xs ! 5 XOR effect xs 0)))"
    "keccak_round c xs ! 16 = word_rotl 36 (xs ! 5 XOR effect xs 0) XOR (word_rotl 15 (xs ! 17 XOR effect xs 2) AND NOT (word_rotl 10 (xs ! 11 XOR effect xs 1)))"
    "keccak_round c xs ! 17 = word_rotl 10 (xs ! 11 XOR effect xs 1) XOR (word_rotl 56 (xs ! 23 XOR effect xs 3) AND NOT (word_rotl 15 (xs ! 17 XOR effect xs 2)))"
    "keccak_round c xs ! 18 = word_rotl 15 (xs ! 17 XOR effect xs 2) XOR (word_rotl 27 (xs ! 4 XOR effect xs 4) AND NOT (word_rotl 56 (xs ! 23 XOR effect xs 3)))"
    "keccak_round c xs ! 19 = word_rotl 56 (xs ! 23 XOR effect xs 3) XOR (word_rotl 36 (xs ! 5 XOR effect xs 0) AND NOT (word_rotl 27 (xs ! 4 XOR effect xs 4)))"
    "keccak_round c xs ! 20 = word_rotl 62 (xs ! 2 XOR effect xs 2) XOR (word_rotl 39 (xs ! 14 XOR effect xs 4) AND NOT (word_rotl 55 (xs ! 8 XOR effect xs 3)))"
    "keccak_round c xs ! 21 = word_rotl 55 (xs ! 8 XOR effect xs 3) XOR (word_rotl 41 (xs ! 15 XOR effect xs 0) AND NOT (word_rotl 39 (xs ! 14 XOR effect xs 4)))"
    "keccak_round c xs ! 22 = word_rotl 39 (xs ! 14 XOR effect xs 4) XOR (word_rotl 2 (xs ! 21 XOR effect xs 1) AND NOT (word_rotl 41 (xs ! 15 XOR effect xs 0)))"
    "keccak_round c xs ! 23 = word_rotl 41 (xs ! 15 XOR effect xs 0) XOR (word_rotl 62 (xs ! 2 XOR effect xs 2) AND NOT (word_rotl 2 (xs ! 21 XOR effect xs 1)))"
    "keccak_round c xs ! 24 = word_rotl 2 (xs ! 21 XOR effect xs 1) XOR (word_rotl 55 (xs ! 8 XOR effect xs 3) AND NOT (word_rotl 62 (xs ! 2 XOR effect xs 2)))"
  by (simp_all add: round_lane [OF assms] shuffled_lane rho_offsets_table Let_def rotl_0 xor.assoc del: add_2_eq_Suc add_2_eq_Suc')

lemma round1_stored:
  assumes st: "stored (positions 0) xs a"
  shows "stored (positions 1) (keccak_round c xs) (keccak_round1 c a)"
proof -
  have d: "theta_d a = (effect xs 0, effect xs 1, effect xs 2, effect xs 3, effect xs 4)"
    by (rule theta_d_effect [OF st]) simp
  have l: "length xs = 25" "length a = 25" and q: "a ! 0 = xs ! 0" "a ! 1 = xs ! 1" "a ! 2 = xs ! 2" "a ! 3 = xs ! 3" "a ! 4 = xs ! 4" "a ! 5 = xs ! 5" "a ! 6 = xs ! 6" "a ! 7 = xs ! 7" "a ! 8 = xs ! 8" "a ! 9 = xs ! 9" "a ! 10 = xs ! 10" "a ! 11 = xs ! 11" "a ! 12 = xs ! 12" "a ! 13 = xs ! 13" "a ! 14 = xs ! 14" "a ! 15 = xs ! 15" "a ! 16 = xs ! 16" "a ! 17 = xs ! 17" "a ! 18 = xs ! 18" "a ! 19 = xs ! 19" "a ! 20 = xs ! 20" "a ! 21 = xs ! 21" "a ! 22 = xs ! 22" "a ! 23 = xs ! 23" "a ! 24 = xs ! 24"
    using st by (simp_all add: stored_def positions_def lanes25 del: One_nat_def)
  define a1 where "a1 = round1_plane1 c (theta_d a) a"
  have ps: "length a1 = 25" "a1 ! 0 = keccak_round c xs ! 0" "a1 ! 6 = keccak_round c xs ! 1" "a1 ! 12 = keccak_round c xs ! 2" "a1 ! 18 = keccak_round c xs ! 3" "a1 ! 24 = keccak_round c xs ! 4" "\<And>k. k \<notin> {0, 6, 12, 18, 24} \<Longrightarrow> a1 ! k = a ! k"
    unfolding a1_def d round1_plane1_def prod.case Let_def rotl_literals round_lanes [OF l(1)]
    by (simp_all add: l q  del: One_nat_def)
  define a2 where "a2 = round1_plane2 (theta_d a) a1"
  have qs: "length a2 = 25" "a2 ! 10 = keccak_round c xs ! 5" "a2 ! 16 = keccak_round c xs ! 6" "a2 ! 22 = keccak_round c xs ! 7" "a2 ! 3 = keccak_round c xs ! 8" "a2 ! 9 = keccak_round c xs ! 9" "\<And>k. k \<notin> {10, 16, 22, 3, 9} \<Longrightarrow> a2 ! k = a1 ! k"
    unfolding a2_def d round1_plane2_def prod.case Let_def rotl_literals round_lanes [OF l(1)]
    by (simp_all add: l q ps del: One_nat_def)
  define a3 where "a3 = round1_plane3 (theta_d a) a2"
  have rs: "length a3 = 25" "a3 ! 20 = keccak_round c xs ! 10" "a3 ! 1 = keccak_round c xs ! 11" "a3 ! 7 = keccak_round c xs ! 12" "a3 ! 13 = keccak_round c xs ! 13" "a3 ! 19 = keccak_round c xs ! 14" "\<And>k. k \<notin> {20, 1, 7, 13, 19} \<Longrightarrow> a3 ! k = a2 ! k"
    unfolding a3_def d round1_plane3_def prod.case Let_def rotl_literals round_lanes [OF l(1)]
    by (simp_all add: l q ps qs del: One_nat_def)
  define a4 where "a4 = round1_plane4 (theta_d a) a3"
  have ss: "length a4 = 25" "a4 ! 5 = keccak_round c xs ! 15" "a4 ! 11 = keccak_round c xs ! 16" "a4 ! 17 = keccak_round c xs ! 17" "a4 ! 23 = keccak_round c xs ! 18" "a4 ! 4 = keccak_round c xs ! 19" "\<And>k. k \<notin> {5, 11, 17, 23, 4} \<Longrightarrow> a4 ! k = a3 ! k"
    unfolding a4_def d round1_plane4_def prod.case Let_def rotl_literals round_lanes [OF l(1)]
    by (simp_all add: l q ps qs rs del: One_nat_def)
  define a5 where "a5 = round1_plane5 (theta_d a) a4"
  have ts: "length a5 = 25" "a5 ! 15 = keccak_round c xs ! 20" "a5 ! 21 = keccak_round c xs ! 21" "a5 ! 2 = keccak_round c xs ! 22" "a5 ! 8 = keccak_round c xs ! 23" "a5 ! 14 = keccak_round c xs ! 24" "\<And>k. k \<notin> {15, 21, 2, 8, 14} \<Longrightarrow> a5 ! k = a4 ! k"
    unfolding a5_def d round1_plane5_def prod.case Let_def rotl_literals round_lanes [OF l(1)]
    by (simp_all add: l q ps qs rs ss del: One_nat_def)
  have "keccak_round1 c a = a5" by (simp add: keccak_round1_def Let_def a1_def a2_def a3_def a4_def a5_def)
  then show ?thesis by (simp add: stored_def positions_def lanes25 ps qs rs ss ts round_length del: One_nat_def)
qed

lemma round2_stored:
  assumes st: "stored (positions 1) xs a"
  shows "stored (positions 2) (keccak_round c xs) (keccak_round2 c a)"
proof -
  have d: "theta_d a = (effect xs 0, effect xs 1, effect xs 2, effect xs 3, effect xs 4)"
    by (rule theta_d_effect [OF st]) simp
  have l: "length xs = 25" "length a = 25" and q: "a ! 0 = xs ! 0" "a ! 6 = xs ! 1" "a ! 12 = xs ! 2" "a ! 18 = xs ! 3" "a ! 24 = xs ! 4" "a ! 10 = xs ! 5" "a ! 16 = xs ! 6" "a ! 22 = xs ! 7" "a ! 3 = xs ! 8" "a ! 9 = xs ! 9" "a ! 20 = xs ! 10" "a ! 1 = xs ! 11" "a ! 7 = xs ! 12" "a ! 13 = xs ! 13" "a ! 19 = xs ! 14" "a ! 5 = xs ! 15" "a ! 11 = xs ! 16" "a ! 17 = xs ! 17" "a ! 23 = xs ! 18" "a ! 4 = xs ! 19" "a ! 15 = xs ! 20" "a ! 21 = xs ! 21" "a ! 2 = xs ! 22" "a ! 8 = xs ! 23" "a ! 14 = xs ! 24"
    using st by (simp_all add: stored_def positions_def lanes25 del: One_nat_def)
  define a1 where "a1 = round2_plane1 c (theta_d a) a"
  have ps: "length a1 = 25" "a1 ! 0 = keccak_round c xs ! 0" "a1 ! 16 = keccak_round c xs ! 1" "a1 ! 7 = keccak_round c xs ! 2" "a1 ! 23 = keccak_round c xs ! 3" "a1 ! 14 = keccak_round c xs ! 4" "\<And>k. k \<notin> {0, 16, 7, 23, 14} \<Longrightarrow> a1 ! k = a ! k"
    unfolding a1_def d round2_plane1_def prod.case Let_def rotl_literals round_lanes [OF l(1)]
    by (simp_all add: l q  del: One_nat_def)
  define a2 where "a2 = round2_plane2 (theta_d a) a1"
  have qs: "length a2 = 25" "a2 ! 20 = keccak_round c xs ! 5" "a2 ! 11 = keccak_round c xs ! 6" "a2 ! 2 = keccak_round c xs ! 7" "a2 ! 18 = keccak_round c xs ! 8" "a2 ! 9 = keccak_round c xs ! 9" "\<And>k. k \<notin> {20, 11, 2, 18, 9} \<Longrightarrow> a2 ! k = a1 ! k"
    unfolding a2_def d round2_plane2_def prod.case Let_def rotl_literals round_lanes [OF l(1)]
    by (simp_all add: l q ps del: One_nat_def)
  define a3 where "a3 = round2_plane3 (theta_d a) a2"
  have rs: "length a3 = 25" "a3 ! 15 = keccak_round c xs ! 10" "a3 ! 6 = keccak_round c xs ! 11" "a3 ! 22 = keccak_round c xs ! 12" "a3 ! 13 = keccak_round c xs ! 13" "a3 ! 4 = keccak_round c xs ! 14" "\<And>k. k \<notin> {15, 6, 22, 13, 4} \<Longrightarrow> a3 ! k = a2 ! k"
    unfolding a3_def d round2_plane3_def prod.case Let_def rotl_literals round_lanes [OF l(1)]
    by (simp_all add: l q ps qs del: One_nat_def)
  define a4 where "a4 = round2_plane4 (theta_d a) a3"
  have ss: "length a4 = 25" "a4 ! 10 = keccak_round c xs ! 15" "a4 ! 1 = keccak_round c xs ! 16" "a4 ! 17 = keccak_round c xs ! 17" "a4 ! 8 = keccak_round c xs ! 18" "a4 ! 24 = keccak_round c xs ! 19" "\<And>k. k \<notin> {10, 1, 17, 8, 24} \<Longrightarrow> a4 ! k = a3 ! k"
    unfolding a4_def d round2_plane4_def prod.case Let_def rotl_literals round_lanes [OF l(1)]
    by (simp_all add: l q ps qs rs del: One_nat_def)
  define a5 where "a5 = round2_plane5 (theta_d a) a4"
  have ts: "length a5 = 25" "a5 ! 5 = keccak_round c xs ! 20" "a5 ! 21 = keccak_round c xs ! 21" "a5 ! 12 = keccak_round c xs ! 22" "a5 ! 3 = keccak_round c xs ! 23" "a5 ! 19 = keccak_round c xs ! 24" "\<And>k. k \<notin> {5, 21, 12, 3, 19} \<Longrightarrow> a5 ! k = a4 ! k"
    unfolding a5_def d round2_plane5_def prod.case Let_def rotl_literals round_lanes [OF l(1)]
    by (simp_all add: l q ps qs rs ss del: One_nat_def)
  have "keccak_round2 c a = a5" by (simp add: keccak_round2_def Let_def a1_def a2_def a3_def a4_def a5_def)
  then show ?thesis by (simp add: stored_def positions_def lanes25 ps qs rs ss ts round_length del: One_nat_def)
qed

lemma round3_stored:
  assumes st: "stored (positions 2) xs a"
  shows "stored (positions 3) (keccak_round c xs) (keccak_round3 c a)"
proof -
  have d: "theta_d a = (effect xs 0, effect xs 1, effect xs 2, effect xs 3, effect xs 4)"
    by (rule theta_d_effect [OF st]) simp
  have l: "length xs = 25" "length a = 25" and q: "a ! 0 = xs ! 0" "a ! 16 = xs ! 1" "a ! 7 = xs ! 2" "a ! 23 = xs ! 3" "a ! 14 = xs ! 4" "a ! 20 = xs ! 5" "a ! 11 = xs ! 6" "a ! 2 = xs ! 7" "a ! 18 = xs ! 8" "a ! 9 = xs ! 9" "a ! 15 = xs ! 10" "a ! 6 = xs ! 11" "a ! 22 = xs ! 12" "a ! 13 = xs ! 13" "a ! 4 = xs ! 14" "a ! 10 = xs ! 15" "a ! 1 = xs ! 16" "a ! 17 = xs ! 17" "a ! 8 = xs ! 18" "a ! 24 = xs ! 19" "a ! 5 = xs ! 20" "a ! 21 = xs ! 21" "a ! 12 = xs ! 22" "a ! 3 = xs ! 23" "a ! 19 = xs ! 24"
    using st by (simp_all add: stored_def positions_def lanes25 del: One_nat_def)
  define a1 where "a1 = round3_plane1 c (theta_d a) a"
  have ps: "length a1 = 25" "a1 ! 0 = keccak_round c xs ! 0" "a1 ! 11 = keccak_round c xs ! 1" "a1 ! 22 = keccak_round c xs ! 2" "a1 ! 8 = keccak_round c xs ! 3" "a1 ! 19 = keccak_round c xs ! 4" "\<And>k. k \<notin> {0, 11, 22, 8, 19} \<Longrightarrow> a1 ! k = a ! k"
    unfolding a1_def d round3_plane1_def prod.case Let_def rotl_literals round_lanes [OF l(1)]
    by (simp_all add: l q  del: One_nat_def)
  define a2 where "a2 = round3_plane2 (theta_d a) a1"
  have qs: "length a2 = 25" "a2 ! 15 = keccak_round c xs ! 5" "a2 ! 1 = keccak_round c xs ! 6" "a2 ! 12 = keccak_round c xs ! 7" "a2 ! 23 = keccak_round c xs ! 8" "a2 ! 9 = keccak_round c xs ! 9" "\<And>k. k \<notin> {15, 1, 12, 23, 9} \<Longrightarrow> a2 ! k = a1 ! k"
    unfolding a2_def d round3_plane2_def prod.case Let_def rotl_literals round_lanes [OF l(1)]
    by (simp_all add: l q ps del: One_nat_def)
  define a3 where "a3 = round3_plane3 (theta_d a) a2"
  have rs: "length a3 = 25" "a3 ! 5 = keccak_round c xs ! 10" "a3 ! 16 = keccak_round c xs ! 11" "a3 ! 2 = keccak_round c xs ! 12" "a3 ! 13 = keccak_round c xs ! 13" "a3 ! 24 = keccak_round c xs ! 14" "\<And>k. k \<notin> {5, 16, 2, 13, 24} \<Longrightarrow> a3 ! k = a2 ! k"
    unfolding a3_def d round3_plane3_def prod.case Let_def rotl_literals round_lanes [OF l(1)]
    by (simp_all add: l q ps qs del: One_nat_def)
  define a4 where "a4 = round3_plane4 (theta_d a) a3"
  have ss: "length a4 = 25" "a4 ! 20 = keccak_round c xs ! 15" "a4 ! 6 = keccak_round c xs ! 16" "a4 ! 17 = keccak_round c xs ! 17" "a4 ! 3 = keccak_round c xs ! 18" "a4 ! 14 = keccak_round c xs ! 19" "\<And>k. k \<notin> {20, 6, 17, 3, 14} \<Longrightarrow> a4 ! k = a3 ! k"
    unfolding a4_def d round3_plane4_def prod.case Let_def rotl_literals round_lanes [OF l(1)]
    by (simp_all add: l q ps qs rs del: One_nat_def)
  define a5 where "a5 = round3_plane5 (theta_d a) a4"
  have ts: "length a5 = 25" "a5 ! 10 = keccak_round c xs ! 20" "a5 ! 21 = keccak_round c xs ! 21" "a5 ! 7 = keccak_round c xs ! 22" "a5 ! 18 = keccak_round c xs ! 23" "a5 ! 4 = keccak_round c xs ! 24" "\<And>k. k \<notin> {10, 21, 7, 18, 4} \<Longrightarrow> a5 ! k = a4 ! k"
    unfolding a5_def d round3_plane5_def prod.case Let_def rotl_literals round_lanes [OF l(1)]
    by (simp_all add: l q ps qs rs ss del: One_nat_def)
  have "keccak_round3 c a = a5" by (simp add: keccak_round3_def Let_def a1_def a2_def a3_def a4_def a5_def)
  then show ?thesis by (simp add: stored_def positions_def lanes25 ps qs rs ss ts round_length del: One_nat_def)
qed

lemma round4_stored:
  assumes st: "stored (positions 3) xs a"
  shows "stored (positions 0) (keccak_round c xs) (keccak_round4 c a)"
proof -
  have d: "theta_d a = (effect xs 0, effect xs 1, effect xs 2, effect xs 3, effect xs 4)"
    by (rule theta_d_effect [OF st]) simp
  have l: "length xs = 25" "length a = 25" and q: "a ! 0 = xs ! 0" "a ! 11 = xs ! 1" "a ! 22 = xs ! 2" "a ! 8 = xs ! 3" "a ! 19 = xs ! 4" "a ! 15 = xs ! 5" "a ! 1 = xs ! 6" "a ! 12 = xs ! 7" "a ! 23 = xs ! 8" "a ! 9 = xs ! 9" "a ! 5 = xs ! 10" "a ! 16 = xs ! 11" "a ! 2 = xs ! 12" "a ! 13 = xs ! 13" "a ! 24 = xs ! 14" "a ! 20 = xs ! 15" "a ! 6 = xs ! 16" "a ! 17 = xs ! 17" "a ! 3 = xs ! 18" "a ! 14 = xs ! 19" "a ! 10 = xs ! 20" "a ! 21 = xs ! 21" "a ! 7 = xs ! 22" "a ! 18 = xs ! 23" "a ! 4 = xs ! 24"
    using st by (simp_all add: stored_def positions_def lanes25 del: One_nat_def)
  define a1 where "a1 = round4_plane1 c (theta_d a) a"
  have ps: "length a1 = 25" "a1 ! 0 = keccak_round c xs ! 0" "a1 ! 1 = keccak_round c xs ! 1" "a1 ! 2 = keccak_round c xs ! 2" "a1 ! 3 = keccak_round c xs ! 3" "a1 ! 4 = keccak_round c xs ! 4" "\<And>k. k \<notin> {0, 1, 2, 3, 4} \<Longrightarrow> a1 ! k = a ! k"
    unfolding a1_def d round4_plane1_def prod.case Let_def rotl_literals round_lanes [OF l(1)]
    by (simp_all add: l q  del: One_nat_def)
  define a2 where "a2 = round4_plane2 (theta_d a) a1"
  have qs: "length a2 = 25" "a2 ! 5 = keccak_round c xs ! 5" "a2 ! 6 = keccak_round c xs ! 6" "a2 ! 7 = keccak_round c xs ! 7" "a2 ! 8 = keccak_round c xs ! 8" "a2 ! 9 = keccak_round c xs ! 9" "\<And>k. k \<notin> {5, 6, 7, 8, 9} \<Longrightarrow> a2 ! k = a1 ! k"
    unfolding a2_def d round4_plane2_def prod.case Let_def rotl_literals round_lanes [OF l(1)]
    by (simp_all add: l q ps del: One_nat_def)
  define a3 where "a3 = round4_plane3 (theta_d a) a2"
  have rs: "length a3 = 25" "a3 ! 10 = keccak_round c xs ! 10" "a3 ! 11 = keccak_round c xs ! 11" "a3 ! 12 = keccak_round c xs ! 12" "a3 ! 13 = keccak_round c xs ! 13" "a3 ! 14 = keccak_round c xs ! 14" "\<And>k. k \<notin> {10, 11, 12, 13, 14} \<Longrightarrow> a3 ! k = a2 ! k"
    unfolding a3_def d round4_plane3_def prod.case Let_def rotl_literals round_lanes [OF l(1)]
    by (simp_all add: l q ps qs del: One_nat_def)
  define a4 where "a4 = round4_plane4 (theta_d a) a3"
  have ss: "length a4 = 25" "a4 ! 15 = keccak_round c xs ! 15" "a4 ! 16 = keccak_round c xs ! 16" "a4 ! 17 = keccak_round c xs ! 17" "a4 ! 18 = keccak_round c xs ! 18" "a4 ! 19 = keccak_round c xs ! 19" "\<And>k. k \<notin> {15, 16, 17, 18, 19} \<Longrightarrow> a4 ! k = a3 ! k"
    unfolding a4_def d round4_plane4_def prod.case Let_def rotl_literals round_lanes [OF l(1)]
    by (simp_all add: l q ps qs rs del: One_nat_def)
  define a5 where "a5 = round4_plane5 (theta_d a) a4"
  have ts: "length a5 = 25" "a5 ! 20 = keccak_round c xs ! 20" "a5 ! 21 = keccak_round c xs ! 21" "a5 ! 22 = keccak_round c xs ! 22" "a5 ! 23 = keccak_round c xs ! 23" "a5 ! 24 = keccak_round c xs ! 24" "\<And>k. k \<notin> {20, 21, 22, 23, 24} \<Longrightarrow> a5 ! k = a4 ! k"
    unfolding a5_def d round4_plane5_def prod.case Let_def rotl_literals round_lanes [OF l(1)]
    by (simp_all add: l q ps qs rs ss del: One_nat_def)
  have "keccak_round4 c a = a5" by (simp add: keccak_round4_def Let_def a1_def a2_def a3_def a4_def a5_def)
  then show ?thesis by (simp add: stored_def positions_def lanes25 ps qs rs ss ts round_length del: One_nat_def)
qed

lemma positions_id: "stored (positions 0) xs a \<Longrightarrow> a = xs"
proof -
  assume st: "stored (positions 0) xs a"
  have "positions 0 = [0..<25]" by code_simp
  then show "a = xs" using st by (intro nth_equalityI) (simp_all add: stored_def)
qed

lemma four_rounds:
  assumes "length a = 25"
  shows "keccak_round4 c4 (keccak_round3 c3 (keccak_round2 c2 (keccak_round1 c1 a))) =
    keccak_round c4 (keccak_round c3 (keccak_round c2 (keccak_round c1 a)))"
proof -
  have "stored (positions 0) a a" using assms by (simp add: stored_def positions_def lanes25)
  from round4_stored [OF round3_stored [OF round2_stored [OF round1_stored [OF this]]]]
  show ?thesis using positions_id by blast
qed

lemma rc_nth: "i < 24 \<Longrightarrow> rc ! i = round_constant i"
  using arg_cong [OF round_constants, of "\<lambda>l. l ! i"] by simp

lemma loop_reference:
  assumes "length a = 25" and "4 dvd i"
  shows "keccak_loop i a = fold (\<lambda>ir. keccak_round (round_constant ir)) [i..<24] a"
  using assms
proof (induction i a rule: keccak_loop.induct)
  case (1 i a)
  show ?case
  proof (cases "i < 24")
    case True
    then have i: "i + 3 < 24" using 1(3) by presburger
    let ?b = "keccak_round (round_constant (i + 3)) (keccak_round (round_constant (i + 2))
      (keccak_round (round_constant (i + 1)) (keccak_round (round_constant i) a)))"
    have four: "Suc (Suc (Suc (Suc i))) = i + 4" by simp
    have "[i..<24] = i # (i + 1) # (i + 2) # (i + 3) # [i + 4..<24]"
      using i by (simp add: upt_conv_Cons four [symmetric])
    moreover have "keccak_loop i a = keccak_loop (i + 4) ?b"
      using True i 1(2) by (subst keccak_loop.simps) (simp add: Let_def four_rounds rc_nth)
    moreover have "keccak_loop (i + 4) ?b = fold (\<lambda>ir. keccak_round (round_constant ir)) [i + 4..<24] ?b"
      using 1(1) [OF True refl refl refl refl] True i 1(2,3) by (simp add: four_rounds rc_nth round_length)
    ultimately show ?thesis by simp
  next
    case False
    then show ?thesis by (subst keccak_loop.simps) simp
  qed
qed

lemma keccakF1600_reference: "length a = 25 \<Longrightarrow> keccakF1600 a = keccak_f a"
  unfolding keccakF1600_def keccak_f_def by (rule loop_reference) simp_all

lemma length_keccak_f [simp]: "length a = 25 \<Longrightarrow> length (keccak_f a) = 25"
proof -
  have "length (fold (\<lambda>ir. keccak_round (round_constant ir)) irs a) = 25" if "length a = 25" for irs
    using that by (induction irs arbitrary: a) (simp_all add: round_length)
  then show "length a = 25 \<Longrightarrow> length (keccak_f a) = 25" by (simp add: keccak_f_def)
qed

text \<open>
  C3. The unrolled, in-place implementation of the Keccak permutation is the permutation of FIPS 202: theta,
  rho, pi, chi and iota over 24 rounds, with the rotation offsets and the round constants computed from
  their definitions.
\<close>

theorem keccakF1600_correct:
  assumes "length a = 25"
  shows "keccakF1600 a = keccak_f a"
  by (rule keccakF1600_reference [OF assms])

theorem keccakF1600_correct_witness:
  "length (replicate 25 (1 :: u64)) = 25 \<and> keccakF1600 (replicate 25 1) = keccak_f (replicate 25 1)"
  using keccakF1600_correct [of "replicate 25 1"] by simp

end
