(* ===== verification/Sponge.thy ===== *)
theory Sponge
  imports KeccakProof
begin

text \<open>
  The Keccak sponge: \<^verbatim>\<open>utils/crypto/sha3\<close> (sha3.go, xor_generic.go, hashes.go, shake.go) and the hash
  functions of \<^verbatim>\<open>utils/crypto/crypto.go\<close>.

  The buffer of the hash is a slice of its array \<^verbatim>\<open>storage\<close>; the model keeps the array, and the offset and
  the length of the slice. The loops of \<^verbatim>\<open>Write\<close> and \<^verbatim>\<open>Read\<close> do not end for a rate of 0, so their value is an
  option; for the rates in use they are total.
\<close>

subsection \<open>Words and bytes\<close>

fun le_Uint64 :: "bytes \<Rightarrow> u64" where
  "le_Uint64 [] = 0"
| "le_Uint64 (b # bs) = ucast b OR push_bit 8 (le_Uint64 bs)"

definition le_PutUint64 :: "u64 \<Rightarrow> bytes" where
  "le_PutUint64 x = map (\<lambda>i. ucast (drop_bit (8 * i) x)) [0..<8]"

subsection \<open>The state of a hash\<close>

datatype spongeDirection = Absorbing | Squeezing

definition maxRate :: nat where
  "maxRate = 168"

record sponge =
  sp_a :: "u64 list"
  sp_off :: nat
  sp_len :: nat
  sp_rate :: nat
  sp_dsbyte :: byte
  sp_storage :: bytes
  sp_outputLen :: nat
  sp_state :: spongeDirection

definition sp_buf :: "sponge \<Rightarrow> bytes" where
  "sp_buf d = take (sp_len d) (drop (sp_off d) (sp_storage d))"

text \<open>Bytes written into an array from a position on, and \<^verbatim>\<open>append\<close> to the buffer, which has room.\<close>

definition blit :: "nat \<Rightarrow> bytes \<Rightarrow> bytes \<Rightarrow> bytes" where
  "blit i bs st = take i st @ bs @ drop (i + length bs) st"

definition buf_append :: "bytes \<Rightarrow> sponge \<Rightarrow> sponge" where
  "buf_append bs d = d\<lparr>sp_storage := blit (sp_off d + sp_len d) bs (sp_storage d), sp_len := sp_len d + length bs\<rparr>"

function xorIn_loop :: "nat \<Rightarrow> nat \<Rightarrow> bytes \<Rightarrow> u64 list \<Rightarrow> u64 list" where
  "xorIn_loop i n buf a =
     (if i < n then xorIn_loop (i + 1) n (drop 8 buf) (a[i := a ! i XOR le_Uint64 (take 8 buf)]) else a)"
  by pat_completeness auto
termination by (relation "measure (\<lambda>(i, n, _). n - i)") auto

declare xorIn_loop.simps [simp del]

definition xorInGeneric :: "u64 list \<Rightarrow> bytes \<Rightarrow> u64 list" where
  "xorInGeneric a buf = xorIn_loop 0 (length buf div 8) buf a"

text \<open>What \<^verbatim>\<open>copyOutGeneric\<close> writes to a slice of the given length; the rest of the slice keeps its bytes.\<close>

definition copyOutGeneric :: "u64 list \<Rightarrow> nat \<Rightarrow> bytes" where
  "copyOutGeneric a n = concat (map (\<lambda>i. le_PutUint64 (a ! i)) [0..<n div 8])"

definition sp_Reset :: "sponge \<Rightarrow> sponge" where
  "sp_Reset d = d\<lparr>sp_a := replicate 25 0, sp_state := Absorbing, sp_off := 0, sp_len := 0\<rparr>"

definition sp_clone :: "sponge \<Rightarrow> (unit, sponge) result" where
  "sp_clone d =
     (case sp_state d of
        Absorbing \<Rightarrow> Ok (d\<lparr>sp_off := 0\<rparr>)
      | Squeezing \<Rightarrow>
          let c = maxRate - sp_off d
          in if sp_rate d < c then Panic else Ok (d\<lparr>sp_off := sp_rate d - c, sp_len := sp_rate d - (sp_rate d - c)\<rparr>))"

definition fill_buf :: "sponge \<Rightarrow> sponge" where
  "fill_buf d = d\<lparr>sp_storage := blit 0 (copyOutGeneric (sp_a d) (sp_rate d)) (sp_storage d), sp_off := 0, sp_len := sp_rate d\<rparr>"

definition permute :: "sponge \<Rightarrow> sponge" where
  "permute d =
     (case sp_state d of
        Absorbing \<Rightarrow> d\<lparr>sp_a := keccakF1600 (xorInGeneric (sp_a d) (sp_buf d)), sp_off := 0, sp_len := 0\<rparr>
      | Squeezing \<Rightarrow> fill_buf (d\<lparr>sp_a := keccakF1600 (sp_a d)\<rparr>))"

definition padAndPermute :: "byte \<Rightarrow> sponge \<Rightarrow> sponge" where
  "padAndPermute ds d =
     (let d1 = buf_append [ds] d;
          zerosStart = sp_len d1;
          st = blit zerosStart (replicate (sp_rate d - zerosStart) 0) (sp_storage d1);
          st = st[sp_rate d - 1 := st ! (sp_rate d - 1) XOR 0x80];
          d2 = permute (d1\<lparr>sp_storage := st, sp_off := 0, sp_len := sp_rate d\<rparr>)
      in fill_buf (d2\<lparr>sp_state := Squeezing\<rparr>))"

partial_function (option) write_loop :: "sponge \<Rightarrow> bytes \<Rightarrow> sponge option" where
  "write_loop d p =
     (if length p > 0
      then if sp_len d = 0 \<and> length p \<ge> sp_rate d
           then write_loop (d\<lparr>sp_a := keccakF1600 (xorInGeneric (sp_a d) (take (sp_rate d) p))\<rparr>) (drop (sp_rate d) p)
           else let todo = min (sp_rate d - sp_len d) (length p);
                    d1 = buf_append (take todo p) d;
                    d2 = (if sp_len d1 = sp_rate d1 then permute d1 else d1)
                in write_loop d2 (drop todo p)
      else Some d)"

definition sp_Write :: "sponge \<Rightarrow> bytes \<Rightarrow> (unit, sponge) result option" where
  "sp_Write d p = (if sp_state d \<noteq> Absorbing then Some Panic else map_option Ok (write_loop d p))"

partial_function (option) read_loop :: "sponge \<Rightarrow> nat \<Rightarrow> (bytes \<times> sponge) option" where
  "read_loop d need =
     (if need > 0
      then let n = min need (sp_len d);
               got = take n (sp_buf d);
               d1 = d\<lparr>sp_off := sp_off d + n, sp_len := sp_len d - n\<rparr>;
               d2 = (if sp_len d1 = 0 then permute d1 else d1)
           in Option.bind (read_loop d2 (need - n)) (\<lambda>(bs, d'). Some (got @ bs, d'))
      else Some ([], d))"

definition sp_Read :: "sponge \<Rightarrow> nat \<Rightarrow> (bytes \<times> sponge) option" where
  "sp_Read d n = read_loop (if sp_state d = Absorbing then padAndPermute (sp_dsbyte d) d else d) n"

definition sp_Sum :: "sponge \<Rightarrow> bytes \<Rightarrow> (unit, bytes) result option" where
  "sp_Sum d inp =
     (case sp_clone d of
        Ok dup \<Rightarrow> map_option (\<lambda>(h, _). Ok (inp @ h)) (sp_Read dup (sp_outputLen dup))
      | _ \<Rightarrow> Some Panic)"

subsection \<open>The hash functions\<close>

definition new_sponge :: "nat \<Rightarrow> nat \<Rightarrow> byte \<Rightarrow> sponge" where
  "new_sponge rate outputLen ds =
     \<lparr>sp_a = replicate 25 0, sp_off = 0, sp_len = 0, sp_rate = rate, sp_dsbyte = ds, sp_storage = replicate maxRate 0,
      sp_outputLen = outputLen, sp_state = Absorbing\<rparr>"

definition NewKeccak256 :: sponge where
  "NewKeccak256 = new_sponge 136 32 0x01"

definition NewKeccak512 :: sponge where
  "NewKeccak512 = new_sponge 72 64 0x01"

definition New224 :: sponge where
  "New224 = new_sponge 144 28 0x06"

definition New256 :: sponge where
  "New256 = new_sponge 136 32 0x06"

definition New384 :: sponge where
  "New384 = new_sponge 104 48 0x06"

definition New512 :: sponge where
  "New512 = new_sponge 72 64 0x06"

definition NewShake128 :: sponge where
  "NewShake128 = new_sponge 168 0 0x1f"

definition NewShake256 :: sponge where
  "NewShake256 = new_sponge 136 0 0x1f"

text \<open>\<^verbatim>\<open>Write\<close> of several slices in turn; the hash of several slices.\<close>

fun write_all :: "sponge \<Rightarrow> bytes list \<Rightarrow> (unit, sponge) result option" where
  "write_all d [] = Some (Ok d)"
| "write_all d (p # ps) =
     Option.bind (sp_Write d p) (\<lambda>r. case r of Ok d' \<Rightarrow> write_all d' ps | Err e \<Rightarrow> Some (Err e) | Panic \<Rightarrow> Some Panic)"

definition hash_of :: "sponge \<Rightarrow> bytes list \<Rightarrow> (unit, bytes) result option" where
  "hash_of d ps =
     Option.bind (write_all d ps) (\<lambda>r. case r of Ok d' \<Rightarrow> sp_Sum d' [] | Err e \<Rightarrow> Some (Err e) | Panic \<Rightarrow> Some Panic)"

definition Keccak256 :: "bytes list \<Rightarrow> (unit, bytes) result option" where
  "Keccak256 dat = hash_of NewKeccak256 dat"

text \<open>The slice \<^verbatim>\<open>h[:0]\<close> has the capacity of the array, so \<^verbatim>\<open>Sum\<close> appends to it in place and the array is the result.\<close>

definition Keccak256Hash :: "bytes list \<Rightarrow> (unit, bytes) result option" where
  "Keccak256Hash dat = hash_of NewKeccak256 dat"

definition Keccak512 :: "bytes list \<Rightarrow> (unit, bytes) result option" where
  "Keccak512 dat = hash_of NewKeccak512 dat"

definition Sum224 :: "bytes \<Rightarrow> (unit, bytes) result option" where
  "Sum224 dat = hash_of New224 [dat]"

definition Sum256 :: "bytes \<Rightarrow> (unit, bytes) result option" where
  "Sum256 dat = hash_of New256 [dat]"

definition Sum384 :: "bytes \<Rightarrow> (unit, bytes) result option" where
  "Sum384 dat = hash_of New384 [dat]"

definition Sum512 :: "bytes \<Rightarrow> (unit, bytes) result option" where
  "Sum512 dat = hash_of New512 [dat]"

text \<open>\<^verbatim>\<open>ShakeSum\<close> fills the slice it is given; the model takes its length.\<close>

definition shake_sum :: "sponge \<Rightarrow> nat \<Rightarrow> bytes \<Rightarrow> (unit, bytes) result option" where
  "shake_sum d n dat =
     Option.bind (sp_Write d dat) (\<lambda>r. case r of
       Ok d' \<Rightarrow> map_option (\<lambda>(h, _). Ok h) (sp_Read d' n) | Err e \<Rightarrow> Some (Err e) | Panic \<Rightarrow> Some Panic)"

definition ShakeSum128 :: "nat \<Rightarrow> bytes \<Rightarrow> (unit, bytes) result option" where
  "ShakeSum128 n dat = shake_sum NewShake128 n dat"

definition ShakeSum256 :: "nat \<Rightarrow> bytes \<Rightarrow> (unit, bytes) result option" where
  "ShakeSum256 n dat = shake_sum NewShake256 n dat"

end
