(* ===== verification/SpongeProof.thy ===== *)
theory SpongeProof
  imports Sponge
begin

text \<open>
  The hash functions compute the sponge construction of FIPS 202 over Keccak-f[1600]: the message is padded
  to blocks of the rate, the blocks are absorbed in turn and the digest is squeezed out. How the message is
  divided among the calls of \<^verbatim>\<open>Write\<close> makes no difference.
\<close>

subsection \<open>The construction\<close>

definition xor_block :: "u64 list \<Rightarrow> bytes \<Rightarrow> u64 list" where
  "xor_block a blk =
     map (\<lambda>i. if i < length blk div 8 then a ! i XOR le_Uint64 (take 8 (drop (8 * i) blk)) else a ! i) [0..<length a]"

function absorb :: "nat \<Rightarrow> u64 list \<Rightarrow> bytes \<Rightarrow> u64 list" where
  "absorb rate a msg =
     (if 0 < rate \<and> rate \<le> length msg then absorb rate (keccak_f (xor_block a (take rate msg))) (drop rate msg) else a)"
  by pat_completeness auto
termination by (relation "measure (\<lambda>(_, _, msg). length msg)") auto

declare absorb.simps [simp del]

definition padding :: "nat \<Rightarrow> byte \<Rightarrow> nat \<Rightarrow> bytes" where
  "padding rate ds n =
     (let k = rate - n mod rate in if k = 1 then [ds XOR 0x80] else ds # replicate (k - 2) 0 @ [0x80])"

definition block_out :: "nat \<Rightarrow> u64 list \<Rightarrow> bytes" where
  "block_out rate a = concat (map le_PutUint64 (take (rate div 8) a))"

function squeeze :: "nat \<Rightarrow> nat \<Rightarrow> u64 list \<Rightarrow> bytes" where
  "squeeze rate n a =
     (if n \<le> rate \<or> rate = 0 then take n (block_out rate a) else block_out rate a @ squeeze rate (n - rate) (keccak_f a))"
  by pat_completeness auto
termination by (relation "measure (\<lambda>(_, n, _). n)") auto

declare squeeze.simps [simp del]

definition keccak_sponge :: "nat \<Rightarrow> byte \<Rightarrow> nat \<Rightarrow> bytes \<Rightarrow> bytes" where
  "keccak_sponge rate ds n msg = squeeze rate n (absorb rate (replicate 25 0) (msg @ padding rate ds (length msg)))"

subsection \<open>Absorbing\<close>

lemma length_xorIn_loop [simp]: "length (xorIn_loop i n buf a) = length a"
proof (induction i n buf a rule: xorIn_loop.induct)
  case (1 i n buf a)
  then show ?case by (cases "i < n") (simp_all add: xorIn_loop.simps [of i n buf a])
qed

lemma xorIn_loop_nth:
  "j < length a \<Longrightarrow> xorIn_loop i n buf a ! j =
     (if i \<le> j \<and> j < n then a ! j XOR le_Uint64 (take 8 (drop (8 * (j - i)) buf)) else a ! j)"
proof (induction i n buf a rule: xorIn_loop.induct)
  case (1 i n buf a)
  show ?case
  proof (cases "i < n")
    case True
    then have "xorIn_loop i n buf a ! j = xorIn_loop (i + 1) n (drop 8 buf) (a[i := a ! i XOR le_Uint64 (take 8 buf)]) ! j"
      by (simp add: xorIn_loop.simps [of i n buf a])
    also have "\<dots> = (if i \<le> j \<and> j < n then a ! j XOR le_Uint64 (take 8 (drop (8 * (j - i)) buf)) else a ! j)"
    proof (cases "j = i")
      case False
      then have "8 * (j - (i + 1)) + 8 = 8 * (j - i)" if "i < j" using that by simp
      then show ?thesis using False True 1 by (auto simp: add.commute)
    qed (use True 1 in simp)
    finally show ?thesis .
  qed (auto simp: xorIn_loop.simps [of i n buf a])
qed

lemma xorInGeneric_block: "xorInGeneric a blk = xor_block a blk"
  by (rule nth_equalityI) (auto simp: xorInGeneric_def xor_block_def xorIn_loop_nth)

lemma length_xor_block [simp]: "length (xor_block a blk) = length a"
  by (simp add: xor_block_def)

lemma length_absorb [simp]: "length a = 25 \<Longrightarrow> length (absorb rate a msg) = 25"
proof (induction rate a msg rule: absorb.induct)
  case (1 rate a msg)
  then show ?case by (simp add: absorb.simps [of rate a msg])
qed

lemma absorb_append:
  assumes "rate dvd length msg" and "0 < rate"
  shows "absorb rate a (msg @ p) = absorb rate (absorb rate a msg) p"
  using assms
proof (induction rate a msg rule: absorb.induct)
  case (1 rate a msg)
  show ?case
  proof (cases "rate \<le> length msg")
    case True
    then have "rate dvd length (drop rate msg)" using 1(2) by (simp add: dvd_diff_nat)
    then show ?thesis using 1 True by (simp add: absorb.simps [of rate a])
  next
    case False
    then have "msg = []" using 1(2) by (auto dest: dvd_imp_le)
    then show ?thesis using 1(3) by (simp add: absorb.simps [of rate a "[]"])
  qed
qed

lemma absorb_block:
  assumes "0 < rate" and "length blk = rate"
  shows "absorb rate a blk = keccak_f (xor_block a blk)"
  using assms by (simp add: absorb.simps [of rate a blk] absorb.simps [of rate _ "[]"])

text \<open>A rate as the hash functions use it, and a hash that has absorbed a message.\<close>

definition rate_ok :: "nat \<Rightarrow> bool" where
  "rate_ok rate \<longleftrightarrow> 0 < rate \<and> 8 dvd rate \<and> rate \<le> maxRate"

definition absorbed :: "sponge \<Rightarrow> bytes \<Rightarrow> bool" where
  "absorbed d msg \<longleftrightarrow>
     (\<exists>full. msg = full @ sp_buf d \<and> sp_rate d dvd length full \<and> sp_a d = absorb (sp_rate d) (replicate 25 0) full) \<and>
     rate_ok (sp_rate d) \<and> sp_state d = Absorbing \<and> sp_off d = 0 \<and> sp_len d < sp_rate d \<and> length (sp_storage d) = maxRate"

definition same_kind :: "sponge \<Rightarrow> sponge \<Rightarrow> bool" where
  "same_kind d d' \<longleftrightarrow> sp_rate d' = sp_rate d \<and> sp_dsbyte d' = sp_dsbyte d \<and> sp_outputLen d' = sp_outputLen d"

lemma length_sp_buf: "absorbed d msg \<Longrightarrow> length (sp_buf d) = sp_len d"
  by (simp add: absorbed_def sp_buf_def rate_ok_def)

lemma buf_append_buf:
  assumes "sp_off d = 0" and "sp_len d + length bs \<le> length (sp_storage d)"
  shows "sp_buf (buf_append bs d) = sp_buf d @ bs" "length (sp_storage (buf_append bs d)) = length (sp_storage d)"
  using assms by (simp_all add: sp_buf_def buf_append_def blit_def)

lemma absorbed_length: "absorbed d msg \<Longrightarrow> length (sp_a d) = 25"
  by (auto simp: absorbed_def)

lemma absorbed_fast:
  assumes "absorbed d msg" and "sp_len d = 0" and "sp_rate d \<le> length p"
  shows "absorbed (d\<lparr>sp_a := keccakF1600 (xorInGeneric (sp_a d) (take (sp_rate d) p))\<rparr>) (msg @ take (sp_rate d) p)"
proof -
  have r: "0 < sp_rate d" "length (take (sp_rate d) p) = sp_rate d" using assms by (auto simp: absorbed_def rate_ok_def)
  have m: "sp_rate d dvd length msg" "sp_a d = absorb (sp_rate d) (replicate 25 0) msg"
    using assms(1,2) by (auto simp: absorbed_def sp_buf_def)
  have "absorb (sp_rate d) (replicate 25 0) (msg @ take (sp_rate d) p) =
      keccakF1600 (xorInGeneric (sp_a d) (take (sp_rate d) p))"
    using absorb_append [OF m(1) r(1)] absorb_block [OF r]
    by (simp add: m(2) xorInGeneric_block keccakF1600_reference)
  moreover have "sp_buf (d\<lparr>sp_a := x\<rparr>) = []" for x using assms(2) by (simp add: sp_buf_def)
  ultimately show ?thesis using assms m r by (auto simp: absorbed_def)
qed

lemma absorbed_slow:
  assumes "absorbed d msg" and "length bs \<le> sp_rate d - sp_len d"
  shows "absorbed (if sp_len (buf_append bs d) = sp_rate (buf_append bs d) then permute (buf_append bs d) else buf_append bs d)
    (msg @ bs)"
proof -
  let ?d = "buf_append bs d"
  have k: "sp_off d = 0" "sp_len d < sp_rate d" "sp_rate d \<le> length (sp_storage d)" "0 < sp_rate d"
    using assms(1) by (auto simp: absorbed_def rate_ok_def)
  have b: "sp_buf ?d = sp_buf d @ bs" "length (sp_storage ?d) = length (sp_storage d)"
    using buf_append_buf [of d bs] assms(2) k by simp_all
  have f: "sp_len ?d = sp_len d + length bs" "sp_rate ?d = sp_rate d" "sp_off ?d = 0" "sp_a ?d = sp_a d" "sp_state ?d = sp_state d"
    using k by (simp_all add: buf_append_def)
  obtain full where full: "msg = full @ sp_buf d" "sp_rate d dvd length full" "sp_a d = absorb (sp_rate d) (replicate 25 0) full"
    using assms(1) by (auto simp: absorbed_def)
  show ?thesis
  proof (cases "sp_len ?d = sp_rate ?d")
    case True
    have "length (sp_buf ?d) = sp_rate d" using True b(1) f length_sp_buf [OF assms(1)] by simp
    then have "absorb (sp_rate d) (replicate 25 0) (full @ sp_buf ?d) = keccakF1600 (xorInGeneric (sp_a d) (sp_buf ?d))"
      using absorb_append [OF full(2) k(4)] absorb_block [OF k(4)] by (simp add: full(3) xorInGeneric_block keccakF1600_reference)
    then have "absorbed (permute ?d) (full @ sp_buf ?d)"
      using assms(1) b f full(2) \<open>length (sp_buf ?d) = sp_rate d\<close>
      by (auto simp: absorbed_def permute_def sp_buf_def intro!: exI [of _ "full @ sp_buf d @ bs"])
    then show ?thesis using True b full(1) by simp
  next
    case False
    then show ?thesis using assms b f full by (auto simp: absorbed_def)
  qed
qed

lemma write_loop_absorbs:
  assumes "absorbed d msg"
  shows "\<exists>d'. write_loop d p = Some d' \<and> absorbed d' (msg @ p) \<and> same_kind d d'"
  using assms
proof (induction "length p" arbitrary: d msg p rule: less_induct)
  case less
  have k: "sp_len d < sp_rate d" using less.prems by (simp add: absorbed_def)
  consider "p = []" | "p \<noteq> []" "sp_len d = 0 \<and> sp_rate d \<le> length p" | "p \<noteq> []" "\<not> (sp_len d = 0 \<and> sp_rate d \<le> length p)" by blast
  then show ?case
  proof cases
    case 1
    then show ?thesis using less.prems by (simp add: write_loop.simps same_kind_def)
  next
    case 2
    let ?d = "d\<lparr>sp_a := keccakF1600 (xorInGeneric (sp_a d) (take (sp_rate d) p))\<rparr>"
    have "absorbed ?d (msg @ take (sp_rate d) p)" using absorbed_fast [OF less.prems] 2 by blast
    moreover have "length (drop (sp_rate d) p) < length p" using 2 k by simp
    ultimately obtain d' where "write_loop ?d (drop (sp_rate d) p) = Some d'"
      "absorbed d' ((msg @ take (sp_rate d) p) @ drop (sp_rate d) p)" "same_kind ?d d'"
      using less.hyps by blast
    then show ?thesis using 2 by (subst write_loop.simps) (simp add: same_kind_def)
  next
    case 3
    let ?n = "min (sp_rate d - sp_len d) (length p)"
    let ?b = "buf_append (take ?n p) d"
    let ?d = "if sp_len ?b = sp_rate ?b then permute ?b else ?b"
    have "absorbed ?d (msg @ take ?n p)" by (rule absorbed_slow [OF less.prems]) simp
    moreover have "length (drop ?n p) < length p" using 3 k by simp
    ultimately obtain d' where "write_loop ?d (drop ?n p) = Some d'" "absorbed d' ((msg @ take ?n p) @ drop ?n p)" "same_kind ?d d'"
      using less.hyps by blast
    moreover have "same_kind d ?d" using less.prems by (auto simp: same_kind_def permute_def buf_append_def absorbed_def)
    ultimately show ?thesis using 3 by (subst write_loop.simps) (auto simp: same_kind_def Let_def)
  qed
qed

lemma write_all_absorbs:
  "absorbed d msg \<Longrightarrow> \<exists>d'. write_all d ps = Some (Ok d') \<and> absorbed d' (msg @ concat ps) \<and> same_kind d d'"
proof (induction ps arbitrary: d msg)
  case (Cons p ps)
  obtain d1 where d1: "write_loop d p = Some d1" "absorbed d1 (msg @ p)" "same_kind d d1" using write_loop_absorbs [OF Cons.prems] by blast
  obtain d2 where "write_all d1 ps = Some (Ok d2)" "absorbed d2 ((msg @ p) @ concat ps)" "same_kind d1 d2" using Cons.IH [OF d1(2)] by blast
  then show ?case using d1 Cons.prems by (auto simp: sp_Write_def same_kind_def absorbed_def)
qed (simp add: same_kind_def)

subsection \<open>Squeezing\<close>

lemma length_le_PutUint64 [simp]: "length (le_PutUint64 x) = 8"
  by (simp add: le_PutUint64_def)

lemma copyOut_block:
  assumes "length a = 25" and "rate_ok rate"
  shows "copyOutGeneric a rate = block_out rate a" "length (block_out rate a) = rate"
proof -
  have "rate div 8 \<le> 25" using assms(2) by (auto simp: rate_ok_def maxRate_def)
  then have "map (\<lambda>i. le_PutUint64 (a ! i)) [0..<rate div 8] = map le_PutUint64 (take (rate div 8) a)"
    using assms(1) by (intro nth_equalityI) auto
  then show "copyOutGeneric a rate = block_out rate a" by (simp add: copyOutGeneric_def block_out_def)
  have "length (concat (map le_PutUint64 xs)) = 8 * length xs" for xs by (induction xs) simp_all
  then show "length (block_out rate a) = rate"
    using assms \<open>rate div 8 \<le> 25\<close> by (simp add: block_out_def rate_ok_def)
qed

text \<open>A hash that is squeezed: the slice is the rest of the output of the current state.\<close>

definition squeezed :: "sponge \<Rightarrow> bool" where
  "squeezed d \<longleftrightarrow> rate_ok (sp_rate d) \<and> sp_state d = Squeezing \<and> sp_off d + sp_len d = sp_rate d \<and> length (sp_a d) = 25 \<and>
     length (sp_storage d) = maxRate \<and> take (sp_rate d) (sp_storage d) = block_out (sp_rate d) (sp_a d)"

lemma fill_buf_squeezed:
  assumes "rate_ok (sp_rate d)" "sp_state d = Squeezing" "length (sp_a d) = 25" "length (sp_storage d) = maxRate"
  shows "squeezed (fill_buf d)" "0 < sp_len (fill_buf d)" "sp_off (fill_buf d) = 0" "sp_a (fill_buf d) = sp_a d" "same_kind d (fill_buf d)"
  using assms copyOut_block [OF assms(3,1)]
  by (auto simp: squeezed_def fill_buf_def blit_def same_kind_def rate_ok_def)

lemma squeezed_buf: "squeezed d \<Longrightarrow> sp_buf d = drop (sp_off d) (block_out (sp_rate d) (sp_a d))"
proof -
  assume s: "squeezed d"
  then have "sp_len d = sp_rate d - sp_off d" unfolding squeezed_def by linarith
  then have "sp_buf d = drop (sp_off d) (take (sp_rate d) (sp_storage d))"
    by (simp add: sp_buf_def drop_take)
  then show ?thesis using s by (simp add: squeezed_def)
qed

lemma squeeze_le: "n \<le> rate \<Longrightarrow> squeeze rate n a = take n (block_out rate a)"
  by (simp add: squeeze.simps [of rate n a])

lemma squeeze_gt: "0 < rate \<Longrightarrow> rate < n \<Longrightarrow> squeeze rate n a = block_out rate a @ squeeze rate (n - rate) (keccak_f a)"
  by (simp add: squeeze.simps [of rate n a])

lemma read_loop_squeezes:
  assumes "squeezed d" and "0 < sp_len d"
  shows "\<exists>d'. read_loop d n = Some (drop (sp_off d) (squeeze (sp_rate d) (sp_off d + n) (sp_a d)), d') \<and>
    squeezed d' \<and> 0 < sp_len d' \<and> same_kind d d'"
  using assms
proof (induction n arbitrary: d rule: less_induct)
  case (less n)
  let ?out = "block_out (sp_rate d) (sp_a d)"
  have r: "0 < sp_rate d" "sp_off d + sp_len d = sp_rate d" "length ?out = sp_rate d"
    using less.prems copyOut_block(2) by (auto simp: squeezed_def rate_ok_def)
  note buf = squeezed_buf [OF less.prems(1)]
  consider "n = 0" | "0 < n" "n < sp_len d" | "sp_len d \<le> n" "0 < n" by linarith
  then show ?case
  proof cases
    case 1
    then show ?thesis
      using less.prems r by (subst read_loop.simps) (simp add: squeeze_le same_kind_def)
  next
    case 2
    let ?d = "d\<lparr>sp_off := sp_off d + n, sp_len := sp_len d - n\<rparr>"
    have "read_loop ?d 0 = Some ([], ?d)" by (simp add: read_loop.simps)
    moreover have "squeezed ?d" "0 < sp_len ?d" "same_kind d ?d" using less.prems 2 by (auto simp: squeezed_def same_kind_def)
    moreover have "drop (sp_off d) (squeeze (sp_rate d) (sp_off d + n) (sp_a d)) = take n (sp_buf d)"
      using 2 r buf by (simp add: squeeze_le take_drop add.commute)
    ultimately show ?thesis using 2 by (subst read_loop.simps) (simp add: Let_def)
  next
    case 3
    let ?e = "d\<lparr>sp_off := sp_off d + sp_len d, sp_len := 0\<rparr>"
    let ?d = "permute ?e"
    have p: "?d = fill_buf (?e\<lparr>sp_a := keccakF1600 (sp_a d)\<rparr>)" using less.prems by (simp add: permute_def squeezed_def)
    have l: "length (sp_a d) = 25" using less.prems by (simp add: squeezed_def)
    have f: "squeezed ?d" "0 < sp_len ?d" "sp_off ?d = 0" "sp_a ?d = keccak_f (sp_a d)" "same_kind d ?d"
      using fill_buf_squeezed [of "?e\<lparr>sp_a := keccakF1600 (sp_a d)\<rparr>"] less.prems l
      unfolding p by (auto simp: squeezed_def keccakF1600_reference same_kind_def)
    have "n - sp_len d < n" using 3 less.prems by simp
    then obtain d' where d': "read_loop ?d (n - sp_len d) = Some (squeeze (sp_rate d) (n - sp_len d) (keccak_f (sp_a d)), d')"
      "squeezed d'" "0 < sp_len d'" "same_kind ?d d'"
      using less.IH [of "n - sp_len d" ?d] f by (auto simp: same_kind_def)
    have "drop (sp_off d) (squeeze (sp_rate d) (sp_off d + n) (sp_a d)) =
        sp_buf d @ squeeze (sp_rate d) (n - sp_len d) (keccak_f (sp_a d))"
    proof (cases "n = sp_len d")
      case True
      then show ?thesis using r buf by (simp add: squeeze_le)
    next
      case False
      then have "\<not> sp_off d + n \<le> sp_rate d" "sp_off d + n - sp_rate d = n - sp_len d" using 3 r by linarith+
      then show ?thesis using r buf by (simp add: squeeze_gt)
    qed
    moreover have "take (sp_len d) (sp_buf d) = sp_buf d" by (simp add: sp_buf_def)
    moreover have "same_kind d d'" using d'(4) f(5) by (simp add: same_kind_def)
    ultimately show ?thesis using 3 d' min.absorb2 [OF 3(1)] by (subst read_loop.simps) (simp add: Let_def)
  qed
qed

subsection \<open>Padding\<close>

lemma update_last: "length xs = k \<Longrightarrow> (xs @ [y] @ zs)[k := v] = xs @ [v] @ zs" "length xs = k \<Longrightarrow> (xs @ [y] @ zs) ! k = y"
  by (simp_all add: list_update_append nth_append)

lemma padded_block:
  assumes "n < rate" and "rate \<le> length st"
  shows "(let st = blit (Suc n) (replicate (rate - Suc n) 0) (blit n [ds] st)
      in take rate (st[rate - 1 := st ! (rate - 1) XOR 0x80])) = take n st @ padding rate ds n"
    and "length (blit (Suc n) (replicate (rate - Suc n) 0) (blit n [ds] st)) = length st"
proof -
  obtain m where m: "rate = Suc (n + m)" using assms(1) less_iff_Suc_add by auto
  have e: "blit (Suc n) (replicate m 0) (blit n [ds] st) = take n st @ (ds # replicate m 0) @ drop rate st"
    using assms by (simp add: blit_def m add.commute)
  show "length (blit (Suc n) (replicate (rate - Suc n) 0) (blit n [ds] st)) = length st"
    using assms e by (simp add: m)
  have "(let st = take n st @ (ds # replicate m 0) @ drop rate st in take rate (st[n + m := st ! (n + m) XOR 0x80])) =
      take n st @ padding rate ds n"
  proof (cases m)
    case 0
    then show ?thesis using update_last [of "take n st" n ds "drop rate st"] assms
      by (simp add: m padding_def Let_def)
  next
    case (Suc k)
    let ?A = "take n st @ ds # replicate k 0"
    have s: "take n st @ (ds # replicate m 0) @ drop rate st = ?A @ [0] @ drop rate st"
      by (simp add: Suc replicate_append_same [symmetric])
    have l: "length ?A = n + m" using assms Suc by simp
    have "rate - n mod rate = Suc (Suc k)" using assms by (simp add: m Suc)
    then show ?thesis unfolding s Let_def update_last [OF l] using l assms by (simp add: m Suc padding_def)
  qed
  then show "(let st = blit (Suc n) (replicate (rate - Suc n) 0) (blit n [ds] st)
      in take rate (st[rate - 1 := st ! (rate - 1) XOR 0x80])) = take n st @ padding rate ds n"
    using e by (simp add: m Let_def)
qed

lemma padAndPermute_squeezed:
  assumes "absorbed d msg"
  shows "squeezed (padAndPermute ds d)" "0 < sp_len (padAndPermute ds d)" "sp_off (padAndPermute ds d) = 0"
    "sp_a (padAndPermute ds d) = absorb (sp_rate d) (replicate 25 0) (msg @ padding (sp_rate d) ds (length msg))"
    "same_kind d (padAndPermute ds d)"
proof -
  obtain full where full: "msg = full @ sp_buf d" "sp_rate d dvd length full" "sp_a d = absorb (sp_rate d) (replicate 25 0) full"
    using assms by (auto simp: absorbed_def)
  have k: "sp_off d = 0" "sp_len d < sp_rate d" "sp_rate d \<le> length (sp_storage d)" "0 < sp_rate d" "rate_ok (sp_rate d)"
    "sp_state d = Absorbing" "length (sp_storage d) = maxRate"
    using assms by (auto simp: absorbed_def rate_ok_def)
  define st where "st = blit (Suc (sp_len d)) (replicate (sp_rate d - Suc (sp_len d)) 0) (blit (sp_len d) [ds] (sp_storage d))"
  define e where "e = (buf_append [ds] d)\<lparr>sp_storage := st[sp_rate d - 1 := st ! (sp_rate d - 1) XOR 0x80], sp_off := 0, sp_len := sp_rate d\<rparr>"
  have "length msg mod sp_rate d = sp_len d" using full(2) k(2) length_sp_buf [OF assms] by (auto simp: full(1))
  then have n: "padding (sp_rate d) ds (length msg) = padding (sp_rate d) ds (sp_len d)" using k(2) by (simp add: padding_def)
  have buf: "sp_buf e = sp_buf d @ padding (sp_rate d) ds (length msg)"
    using padded_block(1) [OF k(2,3), of ds] k(1) unfolding n by (simp add: e_def st_def sp_buf_def Let_def)
  have "length (sp_buf e) = sp_rate d" using k(3) padded_block(2) [OF k(2,3), of ds] by (simp add: e_def st_def sp_buf_def)
  then have a: "keccakF1600 (xorInGeneric (sp_a d) (sp_buf e)) =
      absorb (sp_rate d) (replicate 25 0) (msg @ padding (sp_rate d) ds (length msg))"
    using absorb_append [OF full(2) k(4)] absorb_block [OF k(4)]
    unfolding full(1) append_assoc buf [unfolded full(1), symmetric]
    by (simp add: full(3) xorInGeneric_block keccakF1600_reference)
  let ?f = "(permute e)\<lparr>sp_state := Squeezing\<rparr>"
  have p: "padAndPermute ds d = fill_buf ?f"
    using k(1) by (simp add: padAndPermute_def Let_def e_def st_def buf_append_def)
  have f: "sp_rate ?f = sp_rate d" "length (sp_storage ?f) = maxRate" "same_kind d ?f"
    "sp_a ?f = keccakF1600 (xorInGeneric (sp_a d) (sp_buf e))"
    using k padded_block(2) [OF k(2,3), of ds] by (auto simp: e_def st_def permute_def buf_append_def same_kind_def)
  then have "length (sp_a ?f) = 25" using a by simp
  from fill_buf_squeezed [of ?f, OF _ _ this f(2)] k(5) f
  show "squeezed (padAndPermute ds d)" "0 < sp_len (padAndPermute ds d)" "sp_off (padAndPermute ds d) = 0"
    "sp_a (padAndPermute ds d) = absorb (sp_rate d) (replicate 25 0) (msg @ padding (sp_rate d) ds (length msg))"
    "same_kind d (padAndPermute ds d)" unfolding p by (simp_all add: a same_kind_def)
qed

lemma sp_Read_squeezes:
  assumes "absorbed d msg"
  shows "\<exists>d'. sp_Read d n = Some (keccak_sponge (sp_rate d) (sp_dsbyte d) n msg, d')"
proof -
  note q = padAndPermute_squeezed [OF assms, of "sp_dsbyte d"]
  have "sp_state d = Absorbing" using assms by (simp add: absorbed_def)
  then show ?thesis
    using read_loop_squeezes [OF q(1,2), of n] q(3-5) by (auto simp: sp_Read_def keccak_sponge_def same_kind_def)
qed

lemma new_sponge_absorbed: "rate_ok rate \<Longrightarrow> absorbed (new_sponge rate n ds) []"
  by (auto simp: absorbed_def new_sponge_def sp_buf_def absorb.simps rate_ok_def)

lemma hash_of_new:
  assumes "rate_ok rate"
  shows "hash_of (new_sponge rate n ds) ps = Some (Ok (keccak_sponge rate ds n (concat ps)))"
proof -
  obtain d where d: "write_all (new_sponge rate n ds) ps = Some (Ok d)" "absorbed d ([] @ concat ps)" "same_kind (new_sponge rate n ds) d"
    using write_all_absorbs [OF new_sponge_absorbed [OF assms]] by blast
  have "sp_clone d = Ok d" using d(2) by (simp add: sp_clone_def absorbed_def)
  then show ?thesis
    using d sp_Read_squeezes [OF d(2), of n] by (auto simp: hash_of_def sp_Sum_def same_kind_def new_sponge_def)
qed

subsection \<open>Properties\<close>

text \<open>
  C4. Every hash function is the sponge construction of FIPS 202 applied to the bytes it is given, with its
  rate, its domain separation and its length. It always ends and never panics, and only the concatenation
  of the slices matters, not where one call of \<^verbatim>\<open>Write\<close> ends and the next begins.
\<close>

theorem hash_functions_correct:
  "Keccak256 ps = Some (Ok (keccak_sponge 136 0x01 32 (concat ps))) \<and>
   Keccak256Hash ps = Some (Ok (keccak_sponge 136 0x01 32 (concat ps))) \<and>
   Keccak512 ps = Some (Ok (keccak_sponge 72 0x01 64 (concat ps))) \<and>
   Sum224 p = Some (Ok (keccak_sponge 144 0x06 28 p)) \<and>
   Sum256 p = Some (Ok (keccak_sponge 136 0x06 32 p)) \<and>
   Sum384 p = Some (Ok (keccak_sponge 104 0x06 48 p)) \<and>
   Sum512 p = Some (Ok (keccak_sponge 72 0x06 64 p))"
proof -
  have "rate_ok 136" "rate_ok 72" "rate_ok 144" "rate_ok 104" by (simp_all add: rate_ok_def maxRate_def)
  then show ?thesis
    by (simp add: Keccak256_def Keccak256Hash_def Keccak512_def Sum224_def Sum256_def Sum384_def Sum512_def
        NewKeccak256_def NewKeccak512_def New224_def New256_def New384_def New512_def hash_of_new)
qed

lemma read_part:
  assumes "absorbed d msg" and "n < sp_rate d" and "sp_Read d n = Some (bs, d')"
  shows "sp_state d' = Squeezing \<and> sp_off d' = n \<and> sp_rate d' = sp_rate d"
proof -
  let ?d = "padAndPermute (sp_dsbyte d) d"
  note q = padAndPermute_squeezed [OF assms(1), of "sp_dsbyte d"]
  have r: "sp_rate ?d = sp_rate d" "sp_state ?d = Squeezing" "sp_len ?d = sp_rate d"
    using q by (auto simp: squeezed_def same_kind_def)
  have s: "sp_state d = Absorbing" using assms(1) by (simp add: absorbed_def)
  show ?thesis
  proof (cases n)
    case 0
    then show ?thesis using assms(3) s r q(3) by (simp add: sp_Read_def read_loop.simps)
  next
    case (Suc k)
    have "read_loop (?d\<lparr>sp_off := n, sp_len := sp_rate d - n\<rparr>) 0 = Some ([], ?d\<lparr>sp_off := n, sp_len := sp_rate d - n\<rparr>)"
      by (simp add: read_loop.simps)
    then have "d' = ?d\<lparr>sp_off := n, sp_len := sp_rate d - n\<rparr>"
      using assms(2,3) s r q(3) Suc unfolding sp_Read_def
      by (subst (asm) (2) read_loop.simps) (simp add: Let_def)
    then show ?thesis using r by simp
  qed
qed



end
