(* ===== verification/Contract.thy ===== *)
theory Contract
  imports StateRuns Transaction
begin

text \<open>
  The built-in balance contract and the execution of a transaction: \<^verbatim>\<open>core/sdk\<close>, \<^verbatim>\<open>core/interpreter\<close> with
  \<^verbatim>\<open>balancetransfer\<close>, and \<^verbatim>\<open>core/stateprocessor/statetransition.go\<close>.

  A world is the state together with the cache \<^verbatim>\<open>TmpStatusManager\<close> of values written by the contract; the manager
  holds a pointer to that same state. A parameter pointer \<^verbatim>\<open>sysparam\<close> is \<open>None\<close> if it is nil, and otherwise says
  whether its \<^verbatim>\<open>SdkHandler\<close> is set. The JSON coding, the key-value store and \<^verbatim>\<open>CreateAddress\<close> (a msgpack coding) are
  arguments. An \<^verbatim>\<open>int\<close> is a 64-bit word, compared as a signed number. The goroutine that \<^verbatim>\<open>SendWork\<close> starts handles one action and
  its result is received at once, so sending work is a call; a panic in it ends the program.
\<close>

subsection \<open>Environment\<close>

datatype jval = JNull | JBool bool | JNum string | JStr string | JArr "jval list" | JObj "(string \<times> jval) list"

type_synonym jparams = "(string \<times> jval) list"

record 't vm_env =
  ve_state :: "'t sdb_env"
  ve_db :: "bytes \<Rightarrow> string + bytes"
  ve_create_address :: "address \<Rightarrow> u64 \<Rightarrow> address"
  json_params :: "bytes \<Rightarrow> string + jparams"
  json_balance :: "bytes \<Rightarrow> string + u64"
  json_of_balance :: "u64 \<Rightarrow> string + bytes"
  json_of_accounts :: "(string \<times> u64) list \<Rightarrow> string + bytes"

text \<open>\<^verbatim>\<open>strconv.Atoi\<close>: the value, and whether there was no error. Out of range the value is the nearest one.\<close>

fun dec_value :: "int \<Rightarrow> string \<Rightarrow> int option" where
  "dec_value acc [] = Some acc"
| "dec_value acc (c # cs) =
     (let n = of_char c :: int in if 48 \<le> n \<and> n \<le> 57 then dec_value (10 * acc + (n - 48)) cs else None)"

definition Atoi :: "string \<Rightarrow> u64 \<times> bool" where
  "Atoi s =
     (let neg = (s \<noteq> [] \<and> hd s = CHR ''-'');
          body = (if s \<noteq> [] \<and> (hd s = CHR ''-'' \<or> hd s = CHR ''+'') then tl s else s)
      in if body = [] then (0, False)
         else case dec_value 0 body of
                None \<Rightarrow> (0, False)
              | Some n \<Rightarrow>
                  if neg then (if n \<le> 2 ^ 63 then (- of_int n, True) else (- (2 ^ 63), False))
                  else (if n < 2 ^ 63 then (of_int n, True) else (2 ^ 63 - 1, False)))"

subsection \<open>Values written by the contract\<close>

record tmp_key =
  tk_contractAddress :: address
  tk_key :: address
  tk_stateRoot :: hash

type_synonym status_node = "(tmp_key \<times> bytes option) list"

record tmp_status =
  tm_coinBase :: address
  tm_TmpConTracts :: "(address \<times> status_node) list"

record 't world =
  w_state :: "'t statedb"
  w_tmp :: tmp_status

definition NewTmpStatusManager :: "address \<Rightarrow> tmp_status" where
  "NewTmpStatusManager coinbase = \<lparr>tm_coinBase = coinbase, tm_TmpConTracts = []\<rparr>"

definition ExistValue :: "status_node \<Rightarrow> tmp_key \<Rightarrow> bytes option" where
  "ExistValue n k = (case map_of n k of Some v \<Rightarrow> v | None \<Rightarrow> None)"

definition node_SetValue :: "status_node \<Rightarrow> tmp_key \<Rightarrow> bytes option \<Rightarrow> status_node" where
  "node_SetValue n k v = AList.update k v n"

definition ExistContract :: "tmp_status \<Rightarrow> address \<Rightarrow> status_node option" where
  "ExistContract m a = map_of (tm_TmpConTracts m) a"

definition tmp_key_of :: "address \<Rightarrow> bytes \<Rightarrow> tmp_key" where
  "tmp_key_of a key = \<lparr>tk_contractAddress = a, tk_key = BytesToAddress key, tk_stateRoot = zero_hash\<rparr>"

definition tm_SetValue :: "tmp_status \<Rightarrow> address \<Rightarrow> bytes \<Rightarrow> bytes option \<Rightarrow> tmp_status" where
  "tm_SetValue m a key v =
     (let node = (case ExistContract m a of Some n \<Rightarrow> n | None \<Rightarrow> [])
      in m\<lparr>tm_TmpConTracts := AList.update a (node_SetValue node (tmp_key_of a key) v) (tm_TmpConTracts m)\<rparr>)"

definition tm_GetValue :: "'t vm_env \<Rightarrow> address \<Rightarrow> bytes \<Rightarrow> 't world \<Rightarrow> bytes option \<times> 't world" where
  "tm_GetValue V a key w =
     (case (case ExistContract (w_tmp w) a of None \<Rightarrow> None | Some n \<Rightarrow> ExistValue n (tmp_key_of a key)) of
        Some d \<Rightarrow> (Some d, w)
      | None \<Rightarrow>
          (let stateKey = keccak (ve_state V) (a @ key);
               (dbKey, s) = sdb_GetState (ve_state V) a stateKey (w_state w)
           in (case ve_db V dbKey of Inl _ \<Rightarrow> None | Inr d \<Rightarrow> Some d, w\<lparr>w_state := s\<rparr>)))"

definition Sys_GetValue :: "'t vm_env \<Rightarrow> bool \<Rightarrow> address \<Rightarrow> bytes \<Rightarrow> 't world \<Rightarrow> bytes option \<times> 't world" where
  "Sys_GetValue V h a key w = (if \<not> h then (None, w) else tm_GetValue V a key w)"

definition Sys_SetValue :: "bool \<Rightarrow> address \<Rightarrow> bytes \<Rightarrow> bytes \<Rightarrow> 't world \<Rightarrow> string option \<times> 't world" where
  "Sys_SetValue h a key v w =
     (if \<not> h then (Some ''ptr'', w) else (None, w\<lparr>w_tmp := tm_SetValue (w_tmp w) a key (Some v)\<rparr>))"

definition Sys_GetCoinbase :: "bool \<Rightarrow> 't world \<Rightarrow> address option" where
  "Sys_GetCoinbase h w = (if \<not> h then None else Some (tm_coinBase (w_tmp w)))"

subsection \<open>The balance contract\<close>

record action_result =
  ar_Key :: bytes
  ar_Val :: bytes

datatype vm_error =
    ErrNoIndex string | ErrParamType | ErrNoCoinbase | ErrNoData address | ErrJson string
  | ErrInsufficient u64 u64 | ErrSet string | ErrFuncId | ErrNoFunc u64 | ErrNoContract
  | ErrContractAddressCollision | ErrContractCodeSizeTooLong | ErrCheckFee

type_synonym 't outcome = "(vm_error, action_result list) result \<times> 't world"

definition BalanceTransferAddress :: address where
  "BalanceTransferAddress = replicate AddressLength 0"

text \<open>\<^verbatim>\<open>param[k].(string)\<close>: absent, a string, or a panic of the type assertion.\<close>

definition string_param :: "jparams \<Rightarrow> string \<Rightarrow> (unit, string option) result" where
  "string_param prm k =
     (case map_of prm k of None \<Rightarrow> Ok None | Some (JStr s) \<Rightarrow> Ok (Some s) | Some _ \<Rightarrow> Panic)"

definition amount_param :: "jparams \<Rightarrow> (unit, u64) result" where
  "amount_param prm =
     bind_result (string_param prm ''amount'') (\<lambda>s. Ok (case s of None \<Rightarrow> 0 | Some s \<Rightarrow> fst (Atoi s)))"

text \<open>The common part of \<^verbatim>\<open>TransferBalance\<close> and \<^verbatim>\<open>TransferFee\<close>, from the balance of the sender on.\<close>

definition move_amount :: "'t vm_env \<Rightarrow> bool \<Rightarrow> address \<Rightarrow> address \<Rightarrow> u64 \<Rightarrow> 't world \<Rightarrow> 't outcome" where
  "move_amount V h fromAddress toAddress amount w =
     (let (dataFrom, w1) = Sys_GetValue V h BalanceTransferAddress fromAddress w in
      case dataFrom of
        None \<Rightarrow> (Err (ErrNoData fromAddress), w1)
      | Some df \<Rightarrow>
          (case json_balance V df of
             Inl e \<Rightarrow> (Err (ErrJson e), w1)
           | Inr balanceFrom \<Rightarrow>
               if sint balanceFrom < sint amount then (Err (ErrInsufficient balanceFrom amount), w1)
               else let (dataTo, w2) = Sys_GetValue V h BalanceTransferAddress toAddress w1 in
                 case (case dataTo of None \<Rightarrow> Inr 0 | Some dt \<Rightarrow> json_balance V dt) of
                   Inl e \<Rightarrow> (Err (ErrJson e), w2)
                 | Inr balanceTo \<Rightarrow>
                     (case json_of_balance V (balanceFrom - amount) of
                        Inl e \<Rightarrow> (Err (ErrJson e), w2)
                      | Inr bytesFrom \<Rightarrow>
                          (case json_of_balance V (balanceTo + amount) of
                             Inl e \<Rightarrow> (Err (ErrJson e), w2)
                           | Inr bytesTo \<Rightarrow>
                               (case Sys_SetValue h BalanceTransferAddress fromAddress bytesFrom w2 of
                                  (Some e, w3) \<Rightarrow> (Err (ErrSet e), w3)
                                | (None, w3) \<Rightarrow>
                                    (case Sys_SetValue h BalanceTransferAddress toAddress bytesTo w3 of
                                       (Some e, w4) \<Rightarrow> (Err (ErrSet e), w4)
                                     | (None, w4) \<Rightarrow>
                                         (let (_, w5) = Sys_GetValue V h BalanceTransferAddress toAddress w4
                                          in (Ok [\<lparr>ar_Key = fromAddress, ar_Val = bytesFrom\<rparr>,
                                                  \<lparr>ar_Key = toAddress, ar_Val = bytesTo\<rparr>], w5))))))))"

definition TransferBalance :: "'t vm_env \<Rightarrow> jparams \<Rightarrow> bool option \<Rightarrow> 't world \<Rightarrow> 't outcome" where
  "TransferBalance V prm sys w =
     (case string_param prm ''from'' of
        Ok (Some from) \<Rightarrow>
          (case string_param prm ''to'' of
             Ok (Some to) \<Rightarrow>
               (case amount_param prm of
                  Ok amount \<Rightarrow>
                    if HexToAddress from = HexToAddress to then (Ok [], w)
                    else (case sys of None \<Rightarrow> (Panic, w) | Some h \<Rightarrow> move_amount V h (HexToAddress from) (HexToAddress to) amount w)
                | _ \<Rightarrow> (Panic, w))
           | Ok None \<Rightarrow> (Err (ErrNoIndex ''to''), w)
           | _ \<Rightarrow> (Panic, w))
      | Ok None \<Rightarrow> (Err (ErrNoIndex ''from''), w)
      | _ \<Rightarrow> (Panic, w))"

definition TransferFee :: "'t vm_env \<Rightarrow> jparams \<Rightarrow> bool option \<Rightarrow> 't world \<Rightarrow> 't outcome" where
  "TransferFee V prm sys w =
     (case string_param prm ''from'' of
        Ok (Some from) \<Rightarrow>
          (case sys of
             None \<Rightarrow> (Panic, w)
           | Some h \<Rightarrow>
               (case Sys_GetCoinbase h w of
                  None \<Rightarrow> (Err ErrNoCoinbase, w)
                | Some toAddress \<Rightarrow>
                    (case amount_param prm of
                       Ok feeAmount \<Rightarrow>
                         if HexToAddress from = toAddress then (Ok [], w)
                         else move_amount V h (HexToAddress from) toAddress feeAmount w
                     | _ \<Rightarrow> (Panic, w))))
      | Ok None \<Rightarrow> (Err (ErrNoIndex ''from''), w)
      | _ \<Rightarrow> (Panic, w))"

definition reward :: u64 where
  "reward = 500000"

definition RewordBlockProducer :: "'t vm_env \<Rightarrow> jparams \<Rightarrow> bool option \<Rightarrow> 't world \<Rightarrow> 't outcome" where
  "RewordBlockProducer V prm sys w =
     (case string_param prm ''producer'' of
        Ok (Some p) \<Rightarrow>
          (case sys of
             None \<Rightarrow> (Panic, w)
           | Some h \<Rightarrow>
               (let producer = HexToAddress p; (dat, w1) = Sys_GetValue V h BalanceTransferAddress producer w in
                case (case dat of
                        None \<Rightarrow> Inr reward
                      | Some d \<Rightarrow> (case json_balance V d of Inl e \<Rightarrow> Inl e | Inr b \<Rightarrow> Inr (b + reward))) of
                  Inl e \<Rightarrow> (Err (ErrJson e), w1)
                | Inr balance \<Rightarrow>
                    (case json_of_balance V balance of
                       Inl e \<Rightarrow> (Err (ErrJson e), w1)
                     | Inr bs \<Rightarrow>
                         (case Sys_SetValue h BalanceTransferAddress producer bs w1 of
                            (Some e, w2) \<Rightarrow> (Err (ErrSet e), w2)
                          | (None, w2) \<Rightarrow> (Ok [\<lparr>ar_Key = producer, ar_Val = bs\<rparr>], w2)))))
      | Ok None \<Rightarrow> (Err (ErrNoIndex ''producer''), w)
      | _ \<Rightarrow> (Panic, w))"

fun request_addresses :: "jval list \<Rightarrow> string list option" where
  "request_addresses [] = Some []"
| "request_addresses (JStr s # vs) = map_option ((#) s) (request_addresses vs)"
| "request_addresses (_ # vs) = None"

fun balances_of :: "'t vm_env \<Rightarrow> bool \<Rightarrow> string list \<Rightarrow> 't world \<Rightarrow> (string \<times> u64) list \<times> 't world" where
  "balances_of V h [] w = ([], w)"
| "balances_of V h (v # vs) w =
     (let (d, w1) = Sys_GetValue V h BalanceTransferAddress (HexToAddress v) w;
          n = (case d of None \<Rightarrow> 0 | Some d \<Rightarrow> (case json_balance V d of Inl _ \<Rightarrow> 0 | Inr b \<Rightarrow> b));
          (rest, w2) = balances_of V h vs w1
      in ((v, n) # rest, w2))"

definition GetBalance :: "'t vm_env \<Rightarrow> jparams \<Rightarrow> bool option \<Rightarrow> 't world \<Rightarrow> 't outcome" where
  "GetBalance V prm sys w =
     (case map_of prm ''addresses'' of
        None \<Rightarrow> (Err (ErrNoIndex ''addresses''), w)
      | Some (JArr vs) \<Rightarrow>
          (case request_addresses vs of
             None \<Rightarrow> (Err ErrParamType, w)
           | Some addrs \<Rightarrow>
               if addrs \<noteq> [] \<and> sys = None then (Panic, w)
               else let (all, w1) = balances_of V (sys = Some True) addrs w in
                 case json_of_accounts V all of
                   Inl e \<Rightarrow> (Err (ErrJson e), w1)
                 | Inr bs \<Rightarrow> (Ok [\<lparr>ar_Key = [], ar_Val = bs\<rparr>], w1))
      | Some _ \<Rightarrow> (Err ErrParamType, w))"

definition DoFun :: "'t vm_env \<Rightarrow> bytes \<Rightarrow> bool option \<Rightarrow> 't world \<Rightarrow> 't outcome" where
  "DoFun V params sys w =
     (case json_params V params of
        Inl e \<Rightarrow> (Err (ErrJson e), w)
      | Inr prm \<Rightarrow>
          (case string_param prm ''funcId'' of
             Ok None \<Rightarrow> (Err ErrFuncId, w)
           | Ok (Some v) \<Rightarrow>
               (case Atoi v of
                  (_, False) \<Rightarrow> (Err ErrFuncId, w)
                | (f, True) \<Rightarrow>
                    if f = 0 then TransferBalance V prm sys w
                    else if f = 1 then RewordBlockProducer V prm sys w
                    else if f = 2 then TransferFee V prm sys w
                    else if f = 3 then GetBalance V prm sys w
                    else (Err (ErrNoFunc f), w))
           | _ \<Rightarrow> (Panic, w)))"

definition CheckFee :: "'t vm_env \<Rightarrow> address \<Rightarrow> bytes \<Rightarrow> (vm_error, u64) result" where
  "CheckFee V addr params =
     (if addr \<noteq> BalanceTransferAddress then Err ErrCheckFee
      else case json_params V params of
             Inl e \<Rightarrow> Err (ErrJson e)
           | Inr prm \<Rightarrow>
               (case string_param prm ''funcId'' of
                  Ok None \<Rightarrow> Err ErrCheckFee
                | Ok (Some v) \<Rightarrow>
                    (case Atoi v of
                       (_, False) \<Rightarrow> Err ErrCheckFee
                     | (f, True) \<Rightarrow>
                         if f \<noteq> 2 then Err ErrCheckFee
                         else (case string_param prm ''amount'' of
                                 Ok None \<Rightarrow> Err ErrCheckFee
                               | Ok (Some a) \<Rightarrow> (case Atoi a of (_, False) \<Rightarrow> Err ErrCheckFee | (n, True) \<Rightarrow> Ok n)
                               | _ \<Rightarrow> Panic))
                | _ \<Rightarrow> Panic))"

subsection \<open>The interpreter\<close>

definition DealAction :: "'t vm_env \<Rightarrow> address \<Rightarrow> action \<Rightarrow> bool option \<Rightarrow> 't world \<Rightarrow> 't outcome" where
  "DealAction V contractAddress a sys w =
     (if contractAddress = BalanceTransferAddress then DoFun V (act_Params a) sys w else (Err ErrNoContract, w))"

text \<open>The address of the sender is an argument that is not used.\<close>

definition SendWork :: "'t vm_env \<Rightarrow> address \<Rightarrow> action \<Rightarrow> bool option \<Rightarrow> 't world \<Rightarrow> 't outcome" where
  "SendWork V from a sys w = (case act_Address a of None \<Rightarrow> (Panic, w) | Some c \<Rightarrow> DealAction V c a sys w)"

definition GetStorage ::
  "'t vm_env \<Rightarrow> address \<Rightarrow> action \<Rightarrow> bool option \<Rightarrow> 't world \<Rightarrow> (vm_error, bytes) result \<times> 't world" where
  "GetStorage V a act sys w =
     (case act_Address act of
        None \<Rightarrow> (Panic, w)
      | Some c \<Rightarrow>
          (let (r, w1) = DealAction V c act sys w in
           (bind_result r (\<lambda>rs. case rs of [] \<Rightarrow> Panic | x # _ \<Rightarrow> Ok (ar_Val x)), w1)))"

definition inter_GetPriority :: "'t vm_env \<Rightarrow> action list \<Rightarrow> (unit, u64) result" where
  "inter_GetPriority V acts =
     (case acts of
        [] \<Rightarrow> Panic
      | a # _ \<Rightarrow>
          (case act_Address a of
             None \<Rightarrow> Panic
           | Some c \<Rightarrow> (case CheckFee V c (act_Params a) of Ok n \<Rightarrow> Ok n | Err _ \<Rightarrow> Ok 0 | Panic \<Rightarrow> Panic)))"

definition MaxCodeSize :: nat where
  "MaxCodeSize = 32768"

end
