(* ===== verification/Bloom.thy ===== *)
theory Bloom
  imports SpongeProof Transaction
begin

text \<open>
  The log filter: \<^verbatim>\<open>utils/bloom/bloom.go\<close> and \<^verbatim>\<open>common/types/bloom.go\<close>. A filter is 256 bytes; each topic sets three bits
  that are read off its Keccak hash. A \<^verbatim>\<open>big.Int\<close> is an integer.
\<close>

definition BloomByteLength :: nat where
  "BloomByteLength = 256"

definition keccak256_bytes :: "bytes \<Rightarrow> bytes" where
  "keccak256_bytes b = (case Sponge.Keccak256 [b] of Some (Ok h) \<Rightarrow> h | _ \<Rightarrow> [])"

definition bloom_bit :: "bytes \<Rightarrow> nat \<Rightarrow> nat" where
  "bloom_bit h i = nat ((uint (h ! (i + 1)) + push_bit 8 (uint (h ! i))) AND 2047)"

definition calculateBloom :: "bytes \<Rightarrow> int" where
  "calculateBloom b =
     (let h = keccak256_bytes b in fold (\<lambda>i r. r OR push_bit (bloom_bit h i) 1) [0, 2, 4] 0)"

definition Bloom_SetBytes :: "bytes \<Rightarrow> bytes \<Rightarrow> (unit, bytes) result" where
  "Bloom_SetBytes b d =
     (if length b < length d then Panic
      else Ok (take (BloomByteLength - length d) b @ go_copy (drop (BloomByteLength - length d) b) d))"

definition BytesToBloom :: "bytes \<Rightarrow> (unit, bytes) result" where
  "BytesToBloom b = Bloom_SetBytes (replicate BloomByteLength 0) b"

definition Bloom_Big :: "bytes \<Rightarrow> int" where
  "Bloom_Big b = big_SetBytes b"

definition CreateBloom :: "bytes list \<Rightarrow> (unit, bytes) result" where
  "CreateBloom topics = BytesToBloom (big_Bytes (foldl (\<lambda>bin t. bin OR calculateBloom t) 0 topics))"

definition BloomLookup :: "bytes \<Rightarrow> bytes \<Rightarrow> bool" where
  "BloomLookup bin topic \<longleftrightarrow> (let cmp = calculateBloom topic in (Bloom_Big bin AND cmp) = cmp)"

subsection \<open>Bounds\<close>

definition in_range :: "int \<Rightarrow> bool" where
  "in_range r \<longleftrightarrow> take_bit 2048 r = r"

lemma in_range_or: "in_range a \<Longrightarrow> in_range b \<Longrightarrow> in_range (a OR b)"
  by (simp add: in_range_def take_bit_or)

lemma bloom_bit_less: "bloom_bit h i < 2048"
proof -
  let ?x = "uint (h ! (i + 1)) + push_bit 8 (uint (h ! i))"
  have "?x AND 2047 = take_bit 11 ?x" by (simp add: take_bit_eq_mask mask_eq_exp_minus_1)
  also have "\<dots> = ?x mod 2048" by (simp add: take_bit_eq_mod)
  finally have "?x AND 2047 = ?x mod 2048" .
  then show ?thesis by (simp add: bloom_bit_def nat_less_iff)
qed

lemma in_range_bit: "k < 2048 \<Longrightarrow> in_range (2 ^ k)"
  unfolding in_range_def by (rule bit_eqI) (auto simp: bit_take_bit_iff bit_exp_iff)

lemma in_range_calculateBloom: "in_range (calculateBloom b)"
  by (simp add: calculateBloom_def Let_def in_range_or in_range_bit bloom_bit_less)

lemma bloom_fold:
  fixes bin :: int
  assumes "in_range bin"
  shows "in_range (foldl (\<lambda>bin t. bin OR calculateBloom t) bin ts)"
    and "bit (foldl (\<lambda>bin t. bin OR calculateBloom t) bin ts) n \<longleftrightarrow> bit bin n \<or> (\<exists>t \<in> set ts. bit (calculateBloom t) n)"
  using assms by (induction ts arbitrary: bin) (auto simp: in_range_or in_range_calculateBloom bit_or_iff)

lemma big_SetBytes_padded: "big_SetBytes (replicate k 0 @ d) = big_SetBytes d"
  by (induction k) (simp_all add: big_SetBytes_def)

lemma Bloom_roundtrip:
  assumes "in_range r"
  shows "\<exists>b. BytesToBloom (big_Bytes r) = Ok b \<and> length b = BloomByteLength \<and> Bloom_Big b = r"
proof -
  have r: "0 \<le> r" "r < 2 ^ 2048" using assms unfolding in_range_def take_bit_int_eq_self_iff by blast+
  have "nat \<bar>r\<bar> < 2 ^ 2048" using r nat_less_iff [of r "2 ^ 2048"] by (simp add: nat_power_eq del: power_numeral)
  then have "BitLen r \<le> 2048" by (simp add: BitLen_def bit_len_le_iff del: power_numeral)
  then have l: "length (big_Bytes r) \<le> BloomByteLength" by (simp add: BloomByteLength_def)
  have "go_copy (replicate (length (big_Bytes r)) 0) (big_Bytes r) = big_Bytes r" by (rule go_copy_full) simp
  then have "BytesToBloom (big_Bytes r) = Ok (replicate (BloomByteLength - length (big_Bytes r)) 0 @ big_Bytes r)"
    using l by (simp add: BytesToBloom_def Bloom_SetBytes_def min_def del: length_big_Bytes)
  then show ?thesis using l r(1) by (simp add: Bloom_Big_def big_SetBytes_padded del: length_big_Bytes)
qed

text \<open>The filter of a list of topics can always be built and has no false negatives.\<close>

lemma CreateBloom_complete:
  "\<exists>b. CreateBloom topics = Ok b \<and> length b = BloomByteLength \<and> (\<forall>t \<in> set topics. BloomLookup b t)"
proof -
  let ?r = "foldl (\<lambda>bin t. bin OR calculateBloom t) 0 topics"
  have z: "in_range 0" by (simp add: in_range_def)
  obtain b where b: "CreateBloom topics = Ok b" "length b = BloomByteLength" "Bloom_Big b = ?r"
    using Bloom_roundtrip [OF bloom_fold(1) [OF z]] unfolding CreateBloom_def by blast
  have "?r AND calculateBloom t = calculateBloom t" if "t \<in> set topics" for t
    by (rule bit_eqI) (use that in \<open>auto simp: bit_and_iff bloom_fold(2) [OF z]\<close>)
  then show ?thesis using b by (auto simp: BloomLookup_def Let_def)
qed

end
