(* ===== verification/StateTransition.thy ===== *)
theory StateTransition
  imports Contract Bloom
begin

text \<open>
  Execution of a transaction on the world state: \<^verbatim>\<open>core/interpreter/interface.go\<close> (creation of a contract) and
  \<^verbatim>\<open>core/stateprocessor\<close> (statetransition.go, stateprocessor.go).
\<close>

subsection \<open>Creation of a contract\<close>

text \<open>The results and the address of the contract; a failed fee returns no error.\<close>

definition Create ::
  "'t vm_env \<Rightarrow> address \<Rightarrow> action list \<Rightarrow> 't world \<Rightarrow> (vm_error, action_result list \<times> address) result \<times> 't world" where
  "Create V sender acts w =
     (let E = ve_state V; zero = replicate AddressLength 0;
          (nonce, s) = GetNonce E sender (w_state w);
          s = sdb_SetNonce E sender (nonce + 1) s;
          contractAddr = ve_create_address V sender nonce;
          (contractHash, s) = GetCodeHash E contractAddr s;
          (n, s) = GetNonce E contractAddr s
      in if n \<noteq> 0 \<or> (contractHash \<noteq> zero_hash \<and> contractHash \<noteq> emptyCodeHash E)
         then (Err ErrContractAddressCollision, w\<lparr>w_state := s\<rparr>)
         else let (snapshot, s) = Snapshot s;
                  s = CreateAccount E contractAddr s;
                  s = sdb_SetNonce E contractAddr 1 s;
                  w = w\<lparr>w_state := s\<rparr>;
                  revert = (\<lambda>r w. case RevertToSnapshot E snapshot (w_state w) of
                      Ok s \<Rightarrow> (r, w\<lparr>w_state := s\<rparr>) | _ \<Rightarrow> (Panic, w))
              in if length acts \<noteq> 2 then revert (Err ErrContractCodeSizeTooLong) w
                 else case SendWork V sender (acts ! 0) None w of
                        (Panic, w) \<Rightarrow> (Panic, w)
                      | (Err e, w) \<Rightarrow> revert (Ok ([], zero)) w
                      | (Ok results, w) \<Rightarrow>
                          if length (act_Params (acts ! 1)) > MaxCodeSize then revert (Err ErrContractCodeSizeTooLong) w
                          else (Ok (results, contractAddr),
                                w\<lparr>w_state := sdb_SetCode E contractAddr (Some (act_Params (acts ! 1))) (w_state w)\<rparr>))"

subsection \<open>The transition\<close>

record mem_database =
  mem_Address :: address
  mem_Key :: bytes
  mem_Val :: bytes

type_synonym db_cache = "(bytes \<times> mem_database) list"

datatype tx_error = NonceTooHigh | NonceTooLow | VmError vm_error | SigError sig_error

definition st_from :: "'t vm_env \<Rightarrow> message \<Rightarrow> 't world \<Rightarrow> address \<times> 't world" where
  "st_from V msg w =
     (let E = ve_state V; f = msg_from msg; (ex, s) = Exist E f (w_state w)
      in (f, w\<lparr>w_state := (if \<not> ex then CreateAccount E f s else s)\<rparr>))"

definition preCheck :: "'t vm_env \<Rightarrow> message \<Rightarrow> 't world \<Rightarrow> tx_error option \<times> 't world" where
  "preCheck V msg w =
     (let (sender, w) = st_from V msg w in
      if msg_checkNonce msg
      then let (nonce, s) = GetNonce (ve_state V) sender (w_state w); w = w\<lparr>w_state := s\<rparr> in
        if nonce < msg_nonce msg then (Some NonceTooHigh, w)
        else if nonce > msg_nonce msg then (Some NonceTooLow, w)
        else (None, w)
      else (None, w))"

definition MakeLog :: "address \<Rightarrow> action_result list \<Rightarrow> u64 \<Rightarrow> tx_log" where
  "MakeLog a results blockNumber =
     \<lparr>log_Address = a, log_Topics = map (BytesToHash \<circ> ar_Key) results, log_Data = map ar_Key results,
      log_BlockNumber = blockNumber, log_TxHash = zero_hash, log_TxIndex = 0, log_BlockHash = zero_hash,
      log_Index = 0, log_Removed = False\<rparr>"

definition results_in :: "address \<Rightarrow> action_result list \<Rightarrow> mem_database list" where
  "results_in a results = map (\<lambda>r. \<lparr>mem_Address = a, mem_Key = ar_Key r, mem_Val = ar_Val r\<rparr>) results"

text \<open>The loop over the actions; \<^verbatim>\<open>Err ()\<close> when one of them fails.\<close>

fun action_loop ::
  "'t vm_env \<Rightarrow> address \<Rightarrow> bool option \<Rightarrow> u64 \<Rightarrow> action list \<Rightarrow> mem_database list \<Rightarrow> 't world
   \<Rightarrow> (unit, mem_database list) result \<times> 't world" where
  "action_loop V sender sys bn [] mem w = (Ok mem, w)"
| "action_loop V sender sys bn (a # acts) mem w =
     (case sys of
        None \<Rightarrow> (Panic, w)
      | Some _ \<Rightarrow>
          (case SendWork V sender a sys w of
             (Panic, w) \<Rightarrow> (Panic, w)
           | (Err e, w) \<Rightarrow> (Err (), w)
           | (Ok results, w) \<Rightarrow>
               (case act_Address a of
                  None \<Rightarrow> (Panic, w)
                | Some c \<Rightarrow>
                    action_loop V sender sys bn acts (mem @ results_in c results)
                      (w\<lparr>w_state := AddLog (MakeLog c results bn) (w_state w)\<rparr>))))"

fun store_results :: "'t vm_env \<Rightarrow> mem_database list \<Rightarrow> 't world \<Rightarrow> db_cache \<Rightarrow> 't world \<times> db_cache" where
  "store_results V [] w cache = (w, cache)"
| "store_results V (r # rs) w cache =
     (let E = ve_state V; storageKey = mem_Address r @ mem_Key r;
          valHash = keccak E (mem_Val r);
          s = sdb_SetState E (mem_Address r) (keccak E storageKey) valHash (w_state w)
      in store_results V rs (w\<lparr>w_state := s\<rparr>)
           (AList.update storageKey \<lparr>mem_Address = mem_Address r, mem_Key = valHash, mem_Val = mem_Val r\<rparr> cache))"

text \<open>The flag of the result says that the transaction failed and was reverted.\<close>

definition TransitionDb ::
  "'t vm_env \<Rightarrow> message \<Rightarrow> bool option \<Rightarrow> u64 \<Rightarrow> 't world \<Rightarrow> db_cache \<Rightarrow> (tx_error, bool) result \<times> 't world \<times> db_cache" where
  "TransitionDb V msg sys bn w cache =
     (case preCheck V msg w of
        (Some e, w) \<Rightarrow> (Err e, w, cache)
      | (None, w) \<Rightarrow>
          (let E = ve_state V; (sender, w) = st_from V msg w; acts = msg_actions msg;
               (snapshot, s) = Snapshot (w_state w); w = w\<lparr>w_state := s\<rparr>;
               revert = (\<lambda>r w. case RevertToSnapshot E snapshot (w_state w) of
                   Ok s \<Rightarrow> (r, w\<lparr>w_state := s\<rparr>, cache) | _ \<Rightarrow> (Panic, w, cache))
           in if length acts = 2 \<and> act_Address (acts ! 1) = None
              then (case Create V sender acts w of
                      (Panic, w) \<Rightarrow> (Panic, w, cache)
                    | (Err e, w) \<Rightarrow> revert (Err (VmError e)) w
                    | (Ok (results, _), w) \<Rightarrow>
                        (case act_Address (acts ! 0) of
                           None \<Rightarrow> (Panic, w, cache)
                         | Some c \<Rightarrow>
                             (let (w, cache) = store_results V (results_in c results)
                                    (w\<lparr>w_state := AddLog (MakeLog c results bn) (w_state w)\<rparr>) cache
                              in (Ok False, w, cache))))
              else let (n, s) = GetNonce E sender (w_state w);
                       w = w\<lparr>w_state := sdb_SetNonce E sender (n + 1) s\<rparr>
                   in case action_loop V sender sys bn acts [] w of
                        (Panic, w) \<Rightarrow> (Panic, w, cache)
                      | (Err _, w) \<Rightarrow> revert (Ok True) w
                      | (Ok mem, w) \<Rightarrow> (let (w, cache) = store_results V mem w cache in (Ok False, w, cache))))"

subsection \<open>Transactions and blocks\<close>

record receipt =
  rc_Status :: nat
  rc_Bloom :: bytes
  rc_Logs :: "tx_log list"
  rc_TxHash :: hash
  rc_ContractAddress :: address

definition ReceiptStatusFailed :: nat where
  "ReceiptStatusFailed = 0"

definition ReceiptStatusSuccessful :: nat where
  "ReceiptStatusSuccessful = 1"

definition NewReceipt :: "bool \<Rightarrow> receipt" where
  "NewReceipt failed =
     \<lparr>rc_Status = (if failed then ReceiptStatusFailed else ReceiptStatusSuccessful), rc_Bloom = replicate BloomByteLength 0,
      rc_Logs = [], rc_TxHash = zero_hash, rc_ContractAddress = replicate AddressLength 0\<rparr>"

definition ApplyTransaction ::
  "'t vm_env \<Rightarrow> 'key crypto_env \<Rightarrow> MSigner \<Rightarrow> u64 \<Rightarrow> transaction \<Rightarrow> bool option \<Rightarrow> 't world \<Rightarrow> db_cache
   \<Rightarrow> (tx_error, receipt) result \<times> 't world \<times> db_cache" where
  "ApplyTransaction V C signer bn tx sys w cache =
     (case AsMessage C tx signer of
        (Panic, _) \<Rightarrow> (Panic, w, cache)
      | (Err e, _) \<Rightarrow> (Err (SigError e), w, cache)
      | (Ok msg, tx) \<Rightarrow>
          (case TransitionDb V msg sys bn w cache of
             (Panic, w, cache) \<Rightarrow> (Panic, w, cache)
           | (Err e, w, cache) \<Rightarrow> (Err e, w, cache)
           | (Ok failed, w, cache) \<Rightarrow>
               (case Finalise (ve_state V) True (w_state w) of
                  Ok s \<Rightarrow>
                    (let h = fst (tx_Hash C tx); acts = Actions (Data tx); logs = GetLogs h s
                     in case CreateBloom (concat (map (\<lambda>l. log_Address l # log_Topics l) logs)) of
                          Ok b \<Rightarrow>
                            (let receipt = (NewReceipt failed)\<lparr>rc_TxHash := h\<rparr>;
                                 receipt = (if length acts = 2 \<and> act_Address (acts ! 1) = None
                                   then receipt\<lparr>rc_ContractAddress := ve_create_address V (msg_from msg) (tx_Nonce tx)\<rparr>
                                   else receipt)
                             in Ok (receipt\<lparr>rc_Logs := logs, rc_Bloom := b\<rparr>),
                             w\<lparr>w_state := s\<rparr>, cache)
                        | _ \<Rightarrow> (Panic, w, cache))
                | _ \<Rightarrow> (Panic, w, cache))))"

text \<open>The loop of \<^verbatim>\<open>Process\<close> over the transactions of a block; the header's producer is recovered before it.\<close>

fun process_loop ::
  "'t vm_env \<Rightarrow> 'key crypto_env \<Rightarrow> MSigner \<Rightarrow> u64 \<Rightarrow> hash \<Rightarrow> u64 \<Rightarrow> transaction list \<Rightarrow> receipt list \<Rightarrow> 't world \<Rightarrow> db_cache
   \<Rightarrow> (tx_error, receipt list) result \<times> 't world \<times> db_cache" where
  "process_loop V C signer bn bhash i [] rs w cache = (Ok rs, w, cache)"
| "process_loop V C signer bn bhash i (tx # txs) rs w cache =
     (let (h, tx) = tx_Hash C tx; w = w\<lparr>w_state := sdb_Prepare h bhash i (w_state w)\<rparr> in
      case ApplyTransaction V C signer bn tx (Some True) w cache of
        (Ok r, w, cache) \<Rightarrow> process_loop V C signer bn bhash (i + 1) txs (rs @ [r]) w cache
      | (Err e, w, cache) \<Rightarrow> (Err e, w, cache)
      | (Panic, w, cache) \<Rightarrow> (Panic, w, cache))"

definition Process ::
  "'t vm_env \<Rightarrow> 'key crypto_env \<Rightarrow> MSigner \<Rightarrow> u64 \<Rightarrow> hash \<Rightarrow> sig_error + address \<Rightarrow> transaction list \<Rightarrow> 't statedb
   \<Rightarrow> (tx_error, receipt list) result \<times> 't world \<times> db_cache" where
  "Process V C signer bn bhash coinbase txs s =
     (case coinbase of
        Inl e \<Rightarrow> (Err (SigError e), \<lparr>w_state = s, w_tmp = NewTmpStatusManager []\<rparr>, [])
      | Inr c \<Rightarrow> process_loop V C signer bn bhash 0 txs [] \<lparr>w_state = s, w_tmp = NewTmpStatusManager c\<rparr> [])"

end
