(* ===== verification/ContractProof.thy ===== *)
theory ContractProof
  imports StateTransition
begin

text \<open>
  Properties of the balance contract and of the state transition: transfers move amounts without creating or
  destroying any, failed calls change no balance, and a failed transaction leaves the world state as it was.
\<close>

subsection \<open>Reading the state\<close>

text \<open>A step that only reads: it may load objects into the cache of the state, and nothing else can be observed.\<close>

definition reads :: "'t sdb_env \<Rightarrow> 't statedb \<Rightarrow> 't statedb \<Rightarrow> bool" where
  "reads E s s' \<longleftrightarrow> (sdb_ok E s \<longrightarrow> sdb_ok E s' \<and> undoes E s s' \<and> same_view E s' s)"

lemma reads_refl [simp]: "reads E s s"
  by (simp add: reads_def undoes_same linked_refl sdb_ok_addr)

lemma reads_trans: "reads E s t \<Longrightarrow> reads E t u \<Longrightarrow> reads E s u"
  unfolding reads_def using undoes_trans same_view_trans by blast

lemma with_object_value:
  assumes "addr_ok s"
  shows "fst (with_object E a d f s) = (case obj_at E s a of None \<Rightarrow> d | Some so \<Rightarrow> fst (f so))"
proof -
  obtain s1 where "getStateObject E a s = (obj_at E s a, s1)" "obj_at E s1 = obj_at E s" "rest_of s1 = rest_of s" "addr_ok s1"
    by (rule getStateObject_cases [OF assms])
  then show ?thesis by (simp add: with_object_def split_beta split: option.split)
qed

lemma with_object_reads:
  assumes "env_ok E"
    and f: "\<And>so. same_obj E (snd (f so)) so \<and> so_address (snd (f so)) = so_address so \<and> so_deleted (snd (f so)) = so_deleted so"
  shows "reads E s (snd (with_object E a d f s))"
  unfolding reads_def
proof
  assume ok: "sdb_ok E s"
  obtain s1 where g: "getStateObject E a s = (obj_at E s a, s1)" "obj_at E s1 = obj_at E s" "sdb_ok E s1" "undoes E s s1"
    "rest_of s1 = rest_of s"
    by (rule getStateObject_step [OF assms(1) ok])
  have v: "same_view E s1 s" using g(2) rest_ofD [OF g(5)] by (simp add: same_view_def logs_of_def option.rel_refl)
  have "same_view E (snd (with_object E a d f s)) s1"
  proof (cases "obj_at E s a")
    case None
    then show ?thesis using g by (simp add: with_object_def)
  next
    case (Some so)
    have so: "so_address so = a" "\<not> so_deleted so" using obj_at_address [OF sdb_ok_addr [OF ok] Some] by auto
    have "same_view E (setStateObject (snd (f so)) s1) s1"
      using f [of so] so Some by (intro same_viewI) (auto simp: obj_at_setStateObject g(2))
    then show ?thesis using Some g(1) by (simp add: with_object_def split_beta)
  qed
  then show "sdb_ok E (snd (with_object E a d f s)) \<and> undoes E s (snd (with_object E a d f s)) \<and>
      same_view E (snd (with_object E a d f s)) s"
    using with_object_step [OF assms(1) ok f] same_view_trans [OF _ v] by blast
qed

lemma GetState_reads: "env_ok E \<Longrightarrow> reads E s (snd (sdb_GetState E a k s))"
  unfolding sdb_GetState_def by (rule with_object_reads) (simp_all add: so_GetState_same)

lemma GetNonce_reads: "env_ok E \<Longrightarrow> reads E s (snd (GetNonce E a s))"
  unfolding GetNonce_def by (rule with_object_reads) simp_all

lemma GetState_view:
  assumes "sdb_ok E s" and "sdb_ok E s'" and "same_view E s' s"
  shows "fst (sdb_GetState E a k s') = fst (sdb_GetState E a k s)"
proof -
  have "rel_option (same_obj E) (obj_at E s' a) (obj_at E s a)" using assms(3) by (simp add: same_view_def)
  then show ?thesis
    using assms(1,2) by (cases "obj_at E s' a"; cases "obj_at E s a")
      (auto simp: sdb_GetState_def with_object_value sdb_ok_addr same_obj_def)
qed

lemma GetNonce_view:
  assumes "sdb_ok E s" and "sdb_ok E s'" and "same_view E s' s"
  shows "fst (GetNonce E a s') = fst (GetNonce E a s)"
proof -
  have "rel_option (same_obj E) (obj_at E s' a) (obj_at E s a)" using assms(3) by (simp add: same_view_def)
  then show ?thesis
    using assms(1,2) by (cases "obj_at E s' a"; cases "obj_at E s a")
      (auto simp: GetNonce_def with_object_value sdb_ok_addr same_obj_def)
qed

subsection \<open>Values of the contract\<close>

lemma BytesToAddress_id: "length b = AddressLength \<Longrightarrow> BytesToAddress b = b"
  by (simp add: BytesToAddress_def Address_SetBytes_def go_copy_def)

lemma length_BytesToAddress [simp]: "length (BytesToAddress b) = AddressLength"
  by (auto simp: BytesToAddress_def Address_SetBytes_def go_copy_def Let_def AddressLength_def)

lemma length_HexToAddress [simp]: "length (HexToAddress s) = AddressLength"
  by (simp add: HexToAddress_def)

text \<open>A world that differs in what was read only, and a step that also keeps the values of the contract.\<close>

definition reads_world :: "'t vm_env \<Rightarrow> 't world \<Rightarrow> 't world \<Rightarrow> bool" where
  "reads_world V w w' \<longleftrightarrow> reads (ve_state V) (w_state w) (w_state w') \<and> w_tmp w' = w_tmp w"

lemma reads_world_refl [simp]: "reads_world V w w"
  by (simp add: reads_world_def)

lemma reads_world_trans: "reads_world V w u \<Longrightarrow> reads_world V u v \<Longrightarrow> reads_world V w v"
  unfolding reads_world_def using reads_trans by metis

lemma tm_GetValue_reads: "env_ok (ve_state V) \<Longrightarrow> reads_world V w (snd (tm_GetValue V a k w))"
  using GetState_reads [of "ve_state V" "w_state w" a "keccak (ve_state V) (a @ k)"]
  by (simp add: reads_world_def tm_GetValue_def Let_def split_beta split: option.split)

lemma tm_GetValue_view:
  assumes "reads_world V w w'" and "sdb_ok (ve_state V) (w_state w)"
  shows "fst (tm_GetValue V a k w') = fst (tm_GetValue V a k w)"
proof -
  have "sdb_ok (ve_state V) (w_state w')" "same_view (ve_state V) (w_state w') (w_state w)" "w_tmp w' = w_tmp w"
    using assms by (auto simp: reads_world_def reads_def)
  then show ?thesis
    using GetState_view [OF assms(2)] by (simp add: tm_GetValue_def Let_def split_beta split: option.split)
qed

lemma tm_GetValue_SetValue:
  "fst (tm_GetValue V a k (w\<lparr>w_tmp := tm_SetValue (w_tmp w) a k' (Some v)\<rparr>)) =
     (if BytesToAddress k = BytesToAddress k' then Some v else fst (tm_GetValue V a k w))"
  by (auto simp: tm_GetValue_def tm_SetValue_def ExistContract_def ExistValue_def node_SetValue_def tmp_key_of_def
      Let_def split_beta update_conv' split: option.splits)

text \<open>The balance of an account as the contract reads it.\<close>

definition balance_at :: "'t vm_env \<Rightarrow> 't world \<Rightarrow> address \<Rightarrow> u64" where
  "balance_at V w a =
     (case fst (tm_GetValue V BalanceTransferAddress a w) of
        None \<Rightarrow> 0 | Some d \<Rightarrow> (case json_balance V d of Inl _ \<Rightarrow> 0 | Inr b \<Rightarrow> b))"

text \<open>The hypothesis on the JSON coding: a balance can be written and reads back.\<close>

definition json_ok :: "'t vm_env \<Rightarrow> bool" where
  "json_ok V \<longleftrightarrow> (\<forall>b. \<exists>bs. json_of_balance V b = Inr bs \<and> json_balance V bs = Inr b)"

lemma balance_at_reads:
  "reads_world V w w' \<Longrightarrow> sdb_ok (ve_state V) (w_state w) \<Longrightarrow> balance_at V w' a = balance_at V w a"
  by (simp add: balance_at_def tm_GetValue_view)

lemma balance_at_SetValue:
  assumes "length a = AddressLength" and "length k = AddressLength" and "json_balance V v = Inr b"
  shows "balance_at V (w\<lparr>w_tmp := tm_SetValue (w_tmp w) BalanceTransferAddress k (Some v)\<rparr>) a =
    (if a = k then b else balance_at V w a)"
  using assms by (simp add: balance_at_def tm_GetValue_SetValue BytesToAddress_id)

definition world_ok :: "'t vm_env \<Rightarrow> 't world \<Rightarrow> bool" where
  "world_ok V w \<longleftrightarrow> env_ok (ve_state V) \<and> sdb_ok (ve_state V) (w_state w) \<and> length (tm_coinBase (w_tmp w)) = AddressLength"

lemma reads_world_ok: "reads_world V w w' \<Longrightarrow> world_ok V w \<Longrightarrow> world_ok V w'"
  by (simp add: world_ok_def reads_world_def reads_def)

lemma Sys_GetValue_reads: "env_ok (ve_state V) \<Longrightarrow> Sys_GetValue V h a k w = (d, w') \<Longrightarrow> reads_world V w w'"
  using tm_GetValue_reads [of V w a k] by (auto simp: Sys_GetValue_def split: if_splits)

text \<open>What a transfer does: an error only reads, a success moves the amount.\<close>

lemma balance_of_data:
  assumes "Sys_GetValue V h BalanceTransferAddress a w = (d, w')" and "h"
    and "(case d of None \<Rightarrow> Inr 0 | Some x \<Rightarrow> json_balance V x) = Inr b"
  shows "balance_at V w a = b"
  using assms by (auto simp: Sys_GetValue_def balance_at_def split: option.splits)

lemma move_amount_cases:
  assumes "world_ok V w" and "json_ok V" and "move_amount V h from to amount w = (r, w')"
    and ne: "from \<noteq> to" and len: "length from = AddressLength" "length to = AddressLength"
  shows "r \<noteq> Panic \<and> (\<forall>e. r = Err e \<longrightarrow> reads_world V w w') \<and>
    (\<forall>rs. r = Ok rs \<longrightarrow> map ar_Key rs = [from, to] \<and> sint amount \<le> sint (balance_at V w from) \<and>
      reads (ve_state V) (w_state w) (w_state w') \<and> tm_coinBase (w_tmp w') = tm_coinBase (w_tmp w) \<and>
      balance_at V w' from = balance_at V w from - amount \<and> balance_at V w' to = balance_at V w to + amount \<and>
      (\<forall>a. length a = AddressLength \<longrightarrow> a \<noteq> from \<longrightarrow> a \<noteq> to \<longrightarrow> balance_at V w' a = balance_at V w a))"
proof -
  have env: "env_ok (ve_state V)" and sok: "sdb_ok (ve_state V) (w_state w)" using assms(1) by (auto simp: world_ok_def)
  obtain df w1 where g1: "Sys_GetValue V h BalanceTransferAddress from w = (df, w1)" by fastforce
  obtain dt w2 where g2: "Sys_GetValue V h BalanceTransferAddress to w1 = (dt, w2)" by fastforce
  note r1 = Sys_GetValue_reads [OF env g1] and r2 = Sys_GetValue_reads [OF env g2]
  note r12 = reads_world_trans [OF r1 r2]
  show ?thesis
  proof (cases "\<exists>e. r = Err e \<and> (w' = w1 \<or> w' = w2)")
    case True
    then show ?thesis using r1 r12 by auto
  next
    case False
    obtain d bf where d: "df = Some d" "json_balance V d = Inr bf" and le: "\<not> sint bf < sint amount"
      using assms(3) False by (auto simp: move_amount_def g1 split: option.splits sum.splits if_splits)
    obtain bt where bt: "(case dt of None \<Rightarrow> Inr 0 | Some x \<Rightarrow> json_balance V x) = Inr bt"
      using assms(3) False d le by (cases "case dt of None \<Rightarrow> Inr 0 | Some x \<Rightarrow> json_balance V x") (auto simp: move_amount_def g1 g2)
    have h: h using g1 d(1) by (auto simp: Sys_GetValue_def split: if_splits)
    obtain bsF where F: "json_of_balance V (bf - amount) = Inr bsF" "json_balance V bsF = Inr (bf - amount)"
      using assms(2) unfolding json_ok_def by blast
    obtain bsT where T: "json_of_balance V (bt + amount) = Inr bsT" "json_balance V bsT = Inr (bt + amount)"
      using assms(2) unfolding json_ok_def by blast
    define w3 where "w3 = w2\<lparr>w_tmp := tm_SetValue (w_tmp w2) BalanceTransferAddress from (Some bsF)\<rparr>"
    define w4 where "w4 = w3\<lparr>w_tmp := tm_SetValue (w_tmp w3) BalanceTransferAddress to (Some bsT)\<rparr>"
    have s: "Sys_SetValue h BalanceTransferAddress from bsF w2 = (None, w3)" "Sys_SetValue h BalanceTransferAddress to bsT w3 = (None, w4)"
      using h by (simp_all add: Sys_SetValue_def w3_def w4_def)
    obtain d5 w5 where g5: "Sys_GetValue V h BalanceTransferAddress to w4 = (d5, w5)" by fastforce
    have w': "r = Ok [\<lparr>ar_Key = from, ar_Val = bsF\<rparr>, \<lparr>ar_Key = to, ar_Val = bsT\<rparr>]" "w' = w5"
      using assms(3) d le bt F(1) T(1) by (simp_all add: move_amount_def g1 g2 s g5)
    have r5: "reads_world V w4 w'" using Sys_GetValue_reads [OF env g5] w'(2) by simp
    have st: "w_state w4 = w_state w2" "tm_coinBase (w_tmp w4) = tm_coinBase (w_tmp w2)"
      by (simp_all add: w3_def w4_def tm_SetValue_def Let_def)
    have ok2: "sdb_ok (ve_state V) (w_state w2)" using reads_world_ok [OF r12 assms(1)] by (simp add: world_ok_def)
    have b: "balance_at V w from = bf" "balance_at V w to = bt"
      using balance_of_data [OF g1 h] balance_of_data [OF g2 h bt] d balance_at_reads [OF r1 sok] by auto
    have "balance_at V w' a = (if a = to then bt + amount else if a = from then bf - amount else balance_at V w a)"
      if a: "length a = AddressLength" for a
    proof -
      have "balance_at V w' a = balance_at V w4 a" using balance_at_reads [OF r5] ok2 st(1) by simp
      also have "\<dots> = (if a = to then bt + amount else balance_at V w3 a)"
        unfolding w4_def by (rule balance_at_SetValue [OF a len(2) T(2)])
      also have "balance_at V w3 a = (if a = from then bf - amount else balance_at V w2 a)"
        unfolding w3_def by (rule balance_at_SetValue [OF a len(1) F(2)])
      finally show ?thesis using balance_at_reads [OF r12 sok] by simp
    qed
    moreover have "reads (ve_state V) (w_state w) (w_state w')" "tm_coinBase (w_tmp w') = tm_coinBase (w_tmp w)"
      using r12 r5 st reads_trans [of "ve_state V" "w_state w" "w_state w2" "w_state w'"] by (auto simp: reads_world_def)
    ultimately show ?thesis using w'(1) b le ne len by simp
  qed
qed

text \<open>The effect of a successful transfer, and the effect of a call: only a success changes values.\<close>

definition keeps_state :: "'t vm_env \<Rightarrow> 't world \<Rightarrow> 't world \<Rightarrow> bool" where
  "keeps_state V w w' \<longleftrightarrow> reads (ve_state V) (w_state w) (w_state w') \<and> tm_coinBase (w_tmp w') = tm_coinBase (w_tmp w)"

lemma reads_world_keeps: "reads_world V w w' \<Longrightarrow> keeps_state V w w'"
  by (simp add: reads_world_def keeps_state_def)

lemma keeps_state_ok: "keeps_state V w w' \<Longrightarrow> world_ok V w \<Longrightarrow> world_ok V w'"
  by (simp add: keeps_state_def world_ok_def reads_def)

definition moved :: "'t vm_env \<Rightarrow> 't world \<Rightarrow> 't world \<Rightarrow> action_result list \<Rightarrow> bool" where
  "moved V w w' rs \<longleftrightarrow> rs = [] \<and> reads_world V w w' \<or>
     (\<exists>from to amount. from \<noteq> to \<and> length from = AddressLength \<and> length to = AddressLength \<and> map ar_Key rs = [from, to] \<and>
        keeps_state V w w' \<and> balance_at V w' from = balance_at V w from - amount \<and> balance_at V w' to = balance_at V w to + amount \<and>
        (\<forall>a. length a = AddressLength \<longrightarrow> a \<noteq> from \<longrightarrow> a \<noteq> to \<longrightarrow> balance_at V w' a = balance_at V w a))"

definition effect_of :: "('t vm_env \<Rightarrow> 't world \<Rightarrow> 't world \<Rightarrow> action_result list \<Rightarrow> bool) \<Rightarrow> 't vm_env \<Rightarrow> 't world \<Rightarrow> 't outcome \<Rightarrow> bool" where
  "effect_of P V w o' = (case fst o' of Ok rs \<Rightarrow> P V w (snd o') rs | _ \<Rightarrow> reads_world V w (snd o'))"

lemma effect_of_simps [simp]:
  "effect_of P V w (Ok rs, w') = P V w w' rs" "effect_of P V w (Err e, w') = reads_world V w w'"
  "effect_of P V w (Panic, w') = reads_world V w w'"
  by (simp_all add: effect_of_def)

lemma move_amount_effect:
  assumes "world_ok V w" and "json_ok V" and "from \<noteq> to" and "length from = AddressLength" and "length to = AddressLength"
  shows "effect_of moved V w (move_amount V h from to amount w)"
proof (cases "move_amount V h from to amount w")
  case (Pair r w')
  from move_amount_cases [OF assms(1,2) Pair assms(3-5)] show ?thesis
    using assms(3-5) Pair by (cases r) (auto simp: moved_def keeps_state_def)
qed

lemma moved_nil [simp]: "moved V w w []"
  by (simp add: moved_def)

lemma TransferBalance_effect: "world_ok V w \<Longrightarrow> json_ok V \<Longrightarrow> effect_of moved V w (TransferBalance V prm sys w)"
  by (simp add: TransferBalance_def move_amount_effect split: result.split option.split)

lemma TransferFee_effect:
  assumes "world_ok V w" and "json_ok V"
  shows "effect_of moved V w (TransferFee V prm sys w)"
proof -
  have "length (tm_coinBase (w_tmp w)) = AddressLength" using assms(1) by (simp add: world_ok_def)
  then show ?thesis
    using assms by (simp add: TransferFee_def move_amount_effect Sys_GetCoinbase_def split: result.split option.split)
qed

lemma moved_conserves:
  assumes "moved V w w' rs" and "sdb_ok (ve_state V) (w_state w)"
    and "finite A" and "\<forall>a \<in> A. length a = AddressLength" and "ar_Key ` set rs \<subseteq> A"
  shows "sum (balance_at V w') A = sum (balance_at V w) A"
proof (cases "rs = []")
  case True
  then have "reads_world V w w'" using assms(1) by (auto simp: moved_def)
  from balance_at_reads [OF this assms(2)] show ?thesis by simp
next
  case False
  obtain src dst amount where m: "src \<noteq> dst" "map ar_Key rs = [src, dst]"
    "balance_at V w' src = balance_at V w src - amount" "balance_at V w' dst = balance_at V w dst + amount"
    "\<forall>a. length a = AddressLength \<longrightarrow> a \<noteq> src \<longrightarrow> a \<noteq> dst \<longrightarrow> balance_at V w' a = balance_at V w a"
    using assms(1) False unfolding moved_def by (elim disjE exE conjE) (simp, rule that)
  have "set (map ar_Key rs) \<subseteq> A" using assms(5) by simp
  then have A: "src \<in> A" "dst \<in> A - {src}" using m(1,2) by auto
  have parts: "sum f A = f src + (f dst + sum f (A - {src} - {dst}))" for f :: "address \<Rightarrow> u64"
    using sum.remove [OF assms(3) A(1), of f] sum.remove [OF finite_Diff [OF assms(3)] A(2), of f] by (simp only:)
  have "sum (balance_at V w') (A - {src} - {dst}) = sum (balance_at V w) (A - {src} - {dst})"
    by (rule sum.cong) (use m(5) assms(4) in auto)
  then show ?thesis unfolding parts [of "balance_at V w'"] parts [of "balance_at V w"] by (simp add: m(3,4))
qed

text \<open>Calls that fail only read, and so do the calls that ask for balances.\<close>

lemma RewordBlockProducer_effect:
  assumes "world_ok V w"
  shows "effect_of (\<lambda>V w w' rs. keeps_state V w w') V w (RewordBlockProducer V prm sys w)"
proof -
  have env: "env_ok (ve_state V)" using assms by (simp add: world_ok_def)
  have "effect_of (\<lambda>V w w' rs. keeps_state V w w') V w
      (case x of Inl e \<Rightarrow> (Err (ErrJson e), w1)
       | Inr balance \<Rightarrow> (case json_of_balance V balance of Inl e \<Rightarrow> (Err (ErrJson e), w1)
          | Inr bs \<Rightarrow> (case Sys_SetValue h BalanceTransferAddress q bs w1 of
              (Some e, w2) \<Rightarrow> (Err (ErrSet e), w2) | (None, w2) \<Rightarrow> (Ok [\<lparr>ar_Key = q, ar_Val = bs\<rparr>], w2))))"
    if "reads_world V w w1" for x w1 h q
    using that by (simp add: Sys_SetValue_def reads_world_def keeps_state_def tm_SetValue_def Let_def split: sum.split)
  then show ?thesis
    using Sys_GetValue_reads [OF env]
    by (simp add: RewordBlockProducer_def Let_def split: result.split option.split prod.split)
qed

lemma balances_of_reads: "env_ok (ve_state V) \<Longrightarrow> reads_world V w (snd (balances_of V h vs w))"
proof (induction vs arbitrary: w)
  case (Cons v vs)
  obtain d w1 where g: "Sys_GetValue V h BalanceTransferAddress (HexToAddress v) w = (d, w1)" by fastforce
  from reads_world_trans [OF Sys_GetValue_reads [OF Cons.prems g] Cons.IH [OF Cons.prems]] show ?case
    by (simp add: g Let_def split_beta)
qed simp

lemma GetBalance_reads: "env_ok (ve_state V) \<Longrightarrow> reads_world V w (snd (GetBalance V prm sys w))"
  by (simp add: GetBalance_def Let_def split_beta balances_of_reads split: option.split jval.split sum.split)

lemma DoFun_failure:
  assumes "world_ok V w" and "json_ok V" and "\<forall>rs. fst (DoFun V params sys w) \<noteq> Ok rs"
  shows "reads_world V w (snd (DoFun V params sys w))"
proof -
  have t: "reads_world V w (snd x)" if "effect_of P V w x" "\<forall>rs. fst x \<noteq> Ok rs" for P x
    using that by (cases "fst x") (auto simp: effect_of_def)
  have env: "env_ok (ve_state V)" using assms(1) by (simp add: world_ok_def)
  show ?thesis
    using assms(3) t [OF TransferBalance_effect [OF assms(1,2)]] t [OF TransferFee_effect [OF assms(1,2)]]
      t [OF RewordBlockProducer_effect [OF assms(1)]] GetBalance_reads [OF env]
    by (auto simp: DoFun_def split: sum.splits result.splits option.splits prod.splits bool.splits if_splits)
qed

lemma effect_keeps_state: "effect_of P V w x \<Longrightarrow> (\<And>w' rs. P V w w' rs \<Longrightarrow> keeps_state V w w') \<Longrightarrow> keeps_state V w (snd x)"
  by (cases "fst x") (auto simp: effect_of_def reads_world_keeps)

lemma moved_keeps_state: "moved V w w' rs \<Longrightarrow> keeps_state V w w'"
  unfolding moved_def using reads_world_keeps by blast

lemma DoFun_keeps_state:
  assumes "world_ok V w" and "json_ok V"
  shows "keeps_state V w (snd (DoFun V params sys w))"
proof -
  have "env_ok (ve_state V)" using assms(1) by (simp add: world_ok_def)
  then have g: "keeps_state V w (snd (GetBalance V prm sys w))" "keeps_state V w w" for prm
    using GetBalance_reads reads_world_keeps reads_world_refl by blast+
  show ?thesis
    using effect_keeps_state [OF TransferBalance_effect [OF assms] moved_keeps_state]
      effect_keeps_state [OF TransferFee_effect [OF assms] moved_keeps_state]
      effect_keeps_state [OF RewordBlockProducer_effect [OF assms(1)]] g
    by (simp add: DoFun_def split: sum.split result.split option.split prod.split bool.split)
qed

text \<open>A transfer whose accounts can be read is decided by the comparison of the amount with the sender's balance.\<close>

definition readable :: "'t vm_env \<Rightarrow> 't world \<Rightarrow> address \<Rightarrow> bool" where
  "readable V w a = (case fst (tm_GetValue V BalanceTransferAddress a w) of None \<Rightarrow> True | Some d \<Rightarrow> \<not> isl (json_balance V d))"

definition has_account :: "'t vm_env \<Rightarrow> 't world \<Rightarrow> address \<Rightarrow> bool" where
  "has_account V w a \<longleftrightarrow> fst (tm_GetValue V BalanceTransferAddress a w) \<noteq> None"

lemma move_amount_run:
  assumes "world_ok V w" and "json_ok V" and "has_account V w from" and "readable V w from" and "readable V w to"
  shows "fst (move_amount V True from to amount w) =
      (if sint (balance_at V w from) < sint amount then Err (ErrInsufficient (balance_at V w from) amount)
       else Ok [\<lparr>ar_Key = from, ar_Val = projr (json_of_balance V (balance_at V w from - amount))\<rparr>,
                \<lparr>ar_Key = to, ar_Val = projr (json_of_balance V (balance_at V w to + amount))\<rparr>])"
proof -
  have ok: "sdb_ok (ve_state V) (w_state w)" and env: "env_ok (ve_state V)" using assms(1) by (auto simp: world_ok_def)
  obtain df w1 where g1: "tm_GetValue V BalanceTransferAddress from w = (df, w1)" by fastforce
  obtain dt w2 where g2: "tm_GetValue V BalanceTransferAddress to w1 = (dt, w2)" by fastforce
  have dt: "fst (tm_GetValue V BalanceTransferAddress to w) = dt"
    using tm_GetValue_view [OF _ ok, of w1 BalanceTransferAddress to] tm_GetValue_reads [OF env, of w BalanceTransferAddress "from"] g1 g2 by simp
  obtain d bf where d: "df = Some d" "json_balance V d = Inr bf"
    using assms(3,4) g1 by (auto simp: has_account_def readable_def isl_def) (metis sum.exhaust)
  obtain bt where bt: "(case dt of None \<Rightarrow> Inr 0 | Some x \<Rightarrow> json_balance V x) = Inr bt"
    using assms(5) dt by (cases dt) (auto simp: readable_def isl_def, metis sum.exhaust)
  have b: "balance_at V w from = bf" "balance_at V w to = bt"
    using g1 d dt bt by (auto simp: balance_at_def split: option.splits)
  obtain x y where "json_of_balance V (bf - amount) = Inr x" "json_of_balance V (bt + amount) = Inr y"
    using assms(2) unfolding json_ok_def by meson
  then show ?thesis
    using d bt by (simp add: move_amount_def Sys_GetValue_def Sys_SetValue_def g1 g2 b split_beta)
qed


text \<open>
  An environment to run the contract in: balances are written in unary, a hash keeps the last 32 bytes, and the
  key-value store knows the preimage of every hash. The account of the first address starts with 10.
\<close>

definition vm_demo_params :: "bytes \<Rightarrow> string + jparams" where
  "vm_demo_params b =
     (if b = [1] then Inr [(''funcId'', JStr ''0''), (''from'', JStr ''01''), (''to'', JStr ''02''), (''amount'', JStr ''5'')]
      else if b = [2] then Inr [(''funcId'', JStr ''0''), (''from'', JStr ''02''), (''to'', JStr ''03''), (''amount'', JStr ''5'')]
      else if b = [3] then Inr [(''funcId'', JStr ''0''), (''from'', JStr ''01''), (''to'', JStr ''02''), (''amount'', JStr ''-5'')]
      else if b = [4] then Inr [(''funcId'', JStr ''0''), (''from'', JStr ''01''), (''to'', JStr ''02''), (''amount'', JStr ''11'')]
      else Inl ''syntax'')"

definition vm_demo_env :: "(bytes \<times> bytes) list vm_env" where
  "vm_demo_env =
     \<lparr>ve_state = StateRuns.demo_env\<lparr>keccak := \<lambda>b. drop (length b) (replicate HashLength 0 @ b)\<rparr>,
      ve_db = (\<lambda>h. if list_all (\<lambda>x. x = 0) h then Inl ''not found'' else Inr (dropWhile (\<lambda>x. x = 0) h)),
      ve_create_address = (\<lambda>a n. a), json_params = vm_demo_params,
      json_balance = (\<lambda>b. Inr (of_nat (length b))), json_of_balance = (\<lambda>n. Inr (replicate (unat n) 1)),
      json_of_accounts = (\<lambda>_. Inr [])\<rparr>"

definition vm_demo_world :: "(bytes \<times> bytes) list world" where
  "vm_demo_world =
     (let E = ve_state vm_demo_env in
      \<lparr>w_state = sdb_SetState E BalanceTransferAddress (keccak E (BalanceTransferAddress @ HexToAddress ''01''))
         (keccak E (replicate 10 1)) demo_opened, w_tmp = NewTmpStatusManager (HexToAddress ''09'')\<rparr>)"

definition vm_demo_after :: "bytes \<Rightarrow> (bytes \<times> bytes) list outcome" where
  "vm_demo_after b = DoFun vm_demo_env b (Some True) vm_demo_world"

lemma vm_demo_json: "json_ok vm_demo_env"
  by (simp add: json_ok_def vm_demo_env_def)

lemma vm_demo_env_ok: "env_ok (ve_state vm_demo_env)"
  by (auto simp: env_ok_def vm_demo_env_def StateRuns.demo_env_def HashLength_def)

lemma vm_demo_ok: "world_ok vm_demo_env vm_demo_world"
proof -
  have "sdb_ok (ve_state vm_demo_env) demo_opened"
    by (simp add: demo_opened_def New_statedb_def StateRuns.demo_env_def sdb_ok_def addr_ok_def)
  then show ?thesis
    using SetState_step [OF vm_demo_env_ok] vm_demo_env_ok
    by (simp add: world_ok_def vm_demo_world_def Let_def NewTmpStatusManager_def)
qed


text \<open>
  C17. A call of the contract that fails changes nothing that can be observed: every account keeps its balance and the
  values of the contract and the world state read as before, whatever the function, its parameters and the error.
\<close>

theorem failed_call_changes_nothing:
  assumes "world_ok V w" and "json_ok V" and "SendWork V sender a sys w = (Err e, w')"
  shows "balance_at V w' b = balance_at V w b \<and> w_tmp w' = w_tmp w \<and> same_view (ve_state V) (w_state w') (w_state w)"
proof -
  have "reads_world V w w'"
    using DoFun_failure [OF assms(1,2), of "act_Params a" sys] assms(3)
    by (auto simp: SendWork_def DealAction_def split: option.splits if_splits)
  moreover have "sdb_ok (ve_state V) (w_state w)" using assms(1) by (simp add: world_ok_def)
  ultimately show ?thesis using balance_at_reads by (auto simp: reads_world_def reads_def)
qed

definition vm_demo_action :: "bytes \<Rightarrow> action" where
  "vm_demo_action b = \<lparr>act_Address = Some BalanceTransferAddress, act_Params = b\<rparr>"

theorem failed_call_changes_nothing_witness:
  "balance_at vm_demo_env (snd (SendWork vm_demo_env (HexToAddress ''01'') (vm_demo_action [4]) (Some True) vm_demo_world)) (HexToAddress ''01'')
     = balance_at vm_demo_env vm_demo_world (HexToAddress ''01'')"
proof -
  let ?o = "SendWork vm_demo_env (HexToAddress ''01'') (vm_demo_action [4]) (Some True) vm_demo_world"
  have "fst ?o = Err (ErrInsufficient 10 11)" by code_simp
  then have "?o = (Err (ErrInsufficient 10 11), snd ?o)" by (cases ?o) simp
  from failed_call_changes_nothing [OF vm_demo_ok vm_demo_json this] show ?thesis by simp
qed

text \<open>
  C16. What a transfer does, exactly. Between two different accounts whose values can be read, the sender's being present,
  \<^verbatim>\<open>TransferBalance\<close> fails with the insufficient balance if the amount exceeds it as a signed number, and otherwise takes the
  amount from the sender, gives it to the receiver and leaves every other account alone.
\<close>

theorem TransferBalance_exact:
  assumes "world_ok V w" and "json_ok V" and "string_param prm ''from'' = Ok (Some f)" and "string_param prm ''to'' = Ok (Some t)"
    and "amount_param prm = Ok amount" and "HexToAddress f \<noteq> HexToAddress t"
    and "has_account V w (HexToAddress f)" and "readable V w (HexToAddress f)" and "readable V w (HexToAddress t)"
    and "length a = AddressLength" and "TransferBalance V prm (Some True) w = (r, w')"
  shows "if sint (balance_at V w (HexToAddress f)) < sint amount
    then r = Err (ErrInsufficient (balance_at V w (HexToAddress f)) amount) \<and> balance_at V w' a = balance_at V w a
    else (\<exists>rs. r = Ok rs \<and> map ar_Key rs = [HexToAddress f, HexToAddress t]) \<and>
      balance_at V w' a = (if a = HexToAddress f then balance_at V w a - amount
        else if a = HexToAddress t then balance_at V w a + amount else balance_at V w a)"
proof -
  have m: "move_amount V True (HexToAddress f) (HexToAddress t) amount w = (r, w')"
    using assms(3-6,11) by (simp add: TransferBalance_def)
  have ok: "sdb_ok (ve_state V) (w_state w)" using assms(1) by (simp add: world_ok_def)
  have r: "r = fst (move_amount V True (HexToAddress f) (HexToAddress t) amount w)" using m by simp
  note c = move_amount_cases [OF assms(1,2) m assms(6) length_HexToAddress length_HexToAddress]
  show ?thesis
  proof (cases "sint (balance_at V w (HexToAddress f)) < sint amount")
    case True
    then have e: "r = Err (ErrInsufficient (balance_at V w (HexToAddress f)) amount)"
      unfolding r by (simp add: move_amount_run [OF assms(1,2,7-9)])
    then have "reads_world V w w'" using c by blast
    then show ?thesis using True e balance_at_reads [OF _ ok, of w'] by simp
  next
    case False
    then obtain rs where "r = Ok rs" unfolding r by (simp add: move_amount_run [OF assms(1,2,7-9)])
    then show ?thesis using False c assms(10) by auto
  qed
qed

theorem TransferBalance_exact_witness:
  "balance_at vm_demo_env (snd (TransferBalance vm_demo_env (projr (vm_demo_params [1])) (Some True) vm_demo_world)) (HexToAddress ''02'')
     = balance_at vm_demo_env vm_demo_world (HexToAddress ''02'') + 5"
proof -
  let ?p = "projr (vm_demo_params [1])"
  have "string_param ?p ''from'' = Ok (Some ''01'')" "string_param ?p ''to'' = Ok (Some ''02'')" "amount_param ?p = Ok 5"
    "HexToAddress ''01'' \<noteq> HexToAddress ''02''" "has_account vm_demo_env vm_demo_world (HexToAddress ''01'')"
    "readable vm_demo_env vm_demo_world (HexToAddress ''01'')" "readable vm_demo_env vm_demo_world (HexToAddress ''02'')"
    "balance_at vm_demo_env vm_demo_world (HexToAddress ''01'') = 10" "sint (5::u64) \<le> sint (10::u64)"
    by code_simp+
  with TransferBalance_exact [OF vm_demo_ok vm_demo_json this(1-7) length_HexToAddress prod.collapse [symmetric], of "''02''"]
  show ?thesis by simp
qed

text \<open>
  C18. A negative amount is not refused. If the sender's balance is not negative, a transfer of a negative amount succeeds
  whatever the receiver owns: it takes the absolute value of the amount from the receiver, who did not sign, and gives it to the
  sender.
\<close>

theorem negative_transfer_takes:
  assumes "world_ok V w" and "json_ok V" and "string_param prm ''from'' = Ok (Some f)" and "string_param prm ''to'' = Ok (Some t)"
    and "amount_param prm = Ok (- n)" and "sint (- n) < 0" and "HexToAddress f \<noteq> HexToAddress t"
    and "has_account V w (HexToAddress f)" and "readable V w (HexToAddress f)" and "readable V w (HexToAddress t)"
    and "0 \<le> sint (balance_at V w (HexToAddress f))"
  shows "\<exists>rs w'. TransferBalance V prm (Some True) w = (Ok rs, w') \<and>
    balance_at V w' (HexToAddress f) = balance_at V w (HexToAddress f) + n \<and>
    balance_at V w' (HexToAddress t) = balance_at V w (HexToAddress t) - n"
proof -
  obtain r w' where m: "move_amount V True (HexToAddress f) (HexToAddress t) (- n) w = (r, w')" by fastforce
  have "r = fst (move_amount V True (HexToAddress f) (HexToAddress t) (- n) w)" using m by simp
  then obtain rs where "r = Ok rs" using assms(6,11) by (simp add: move_amount_run [OF assms(1,2,8-10)])
  then show ?thesis
    using move_amount_cases [OF assms(1,2) m assms(7) length_HexToAddress length_HexToAddress] m assms(3-5,7)
    by (simp add: TransferBalance_def)
qed

theorem negative_transfer_takes_witness:
  "\<exists>rs w'. TransferBalance vm_demo_env (projr (vm_demo_params [3])) (Some True) vm_demo_world = (Ok rs, w') \<and>
    balance_at vm_demo_env w' (HexToAddress ''01'') = balance_at vm_demo_env vm_demo_world (HexToAddress ''01'') + 5 \<and>
    balance_at vm_demo_env w' (HexToAddress ''02'') = balance_at vm_demo_env vm_demo_world (HexToAddress ''02'') - 5"
  by (rule negative_transfer_takes [OF vm_demo_ok vm_demo_json]; code_simp)

end
