(* ===== verification/TransitionProof.thy ===== *)
theory TransitionProof
  imports ContractProof
begin

text \<open>
  Properties of the state transition of \<^verbatim>\<open>core/stateprocessor\<close>: a transaction one of whose actions fails leaves the world
  state and the results as they were, and what it does leave behind in the values of the contract.
\<close>

subsection \<open>The sender's account\<close>

lemma Exist_reads:
  assumes "env_ok E"
  shows "reads E s (snd (Exist E a s))"
  unfolding reads_def
proof
  assume ok: "sdb_ok E s"
  obtain s1 where g: "getStateObject E a s = (obj_at E s a, s1)" "obj_at E s1 = obj_at E s" "sdb_ok E s1" "undoes E s s1"
    "rest_of s1 = rest_of s"
    by (rule getStateObject_step [OF assms ok])
  then show "sdb_ok E (snd (Exist E a s)) \<and> undoes E s (snd (Exist E a s)) \<and> same_view E (snd (Exist E a s)) s"
    using rest_ofD [OF g(5)] by (simp add: Exist_def same_view_def logs_of_def option.rel_refl)
qed

lemma Exist_value:
  assumes "env_ok E" and "sdb_ok E s"
  shows "fst (Exist E a s) \<longleftrightarrow> obj_at E s a \<noteq> None"
  by (rule getStateObject_step [OF assms, of a]) (simp add: Exist_def)

lemma CreateAccount_step:
  assumes "env_ok E" and "sdb_ok E s"
  shows "sdb_ok E (CreateAccount E a s) \<and> undoes E s (CreateAccount E a s) \<and> obj_at E (CreateAccount E a s) a = Some (fresh_object E a)"
  by (rule createObject_step [OF assms, of a]) (simp add: CreateAccount_def)

lemma GetNonce_value: "sdb_ok E s \<Longrightarrow> fst (GetNonce E a s) = (case obj_at E s a of None \<Rightarrow> 0 | Some so \<Rightarrow> acc_Nonce (so_data so))"
  by (simp add: GetNonce_def with_object_value sdb_ok_addr split: option.split)

lemma reads_obj_at: "reads E s s' \<Longrightarrow> sdb_ok E s \<Longrightarrow> obj_at E s' a = None \<longleftrightarrow> obj_at E s a = None"
  unfolding reads_def same_view_def by (metis option.rel_sel)

text \<open>A step that a revert can take back.\<close>

definition undoable :: "'t vm_env \<Rightarrow> 't world \<Rightarrow> 't world \<Rightarrow> bool" where
  "undoable V w w' \<longleftrightarrow> world_ok V w' \<and> undoes (ve_state V) (w_state w) (w_state w')"

lemma keeps_state_undoable: "world_ok V w \<Longrightarrow> keeps_state V w w' \<Longrightarrow> undoable V w w'"
  by (auto simp: undoable_def keeps_state_def world_ok_def reads_def)

lemma undoable_trans: "undoable V w u \<Longrightarrow> undoable V u v \<Longrightarrow> undoable V w v"
  unfolding undoable_def using undoes_trans by blast

lemma undoable_layers: "undoable V w w' \<Longrightarrow> layers (ve_state V) R bs (w_state w) \<Longrightarrow> layers (ve_state V) R bs (w_state w')"
  using layers_step by (auto simp: undoable_def world_ok_def)

lemma undoable_state:
  "world_ok V w \<Longrightarrow> sdb_ok (ve_state V) s \<and> undoes (ve_state V) (w_state w) s \<Longrightarrow> undoable V w (w\<lparr>w_state := s\<rparr>)"
  by (simp add: undoable_def world_ok_def)

lemma st_from_step:
  assumes "world_ok V w"
  shows "undoable V w (snd (st_from V msg w))" and "w_tmp (snd (st_from V msg w)) = w_tmp w"
    and "obj_at (ve_state V) (w_state (snd (st_from V msg w))) (msg_from msg) \<noteq> None"
    and "fst (GetNonce (ve_state V) (msg_from msg) (w_state (snd (st_from V msg w)))) = fst (GetNonce (ve_state V) (msg_from msg) (w_state w))"
    and "obj_at (ve_state V) (w_state w) (msg_from msg) \<noteq> None \<Longrightarrow> reads_world V w (snd (st_from V msg w))"
proof -
  let ?E = "ve_state V" and ?f = "msg_from msg" and ?w = "snd (st_from V msg w)"
  have env: "env_ok ?E" and ok: "sdb_ok ?E (w_state w)" using assms by (auto simp: world_ok_def)
  obtain ex s where e: "Exist ?E ?f (w_state w) = (ex, s)" by fastforce
  have ex: "ex \<longleftrightarrow> obj_at ?E (w_state w) ?f \<noteq> None" using Exist_value [OF env ok, of ?f] e by simp
  have rd: "reads ?E (w_state w) s" using Exist_reads [OF env, of "w_state w" ?f] e by simp
  then have s: "sdb_ok ?E s" "undoes ?E (w_state w) s" using ok by (auto simp: reads_def)
  note c = CreateAccount_step [OF env s(1), of ?f]
  have w: "?w = w\<lparr>w_state := (if ex then s else CreateAccount ?E ?f s)\<rparr>" by (simp add: st_from_def Let_def e)
  show "w_tmp ?w = w_tmp w" by (simp add: w)
  show "undoable V w ?w" unfolding w using c s undoes_trans [OF s(2)] by (intro undoable_state [OF assms]) auto
  show "obj_at ?E (w_state ?w) ?f \<noteq> None" using c ex reads_obj_at [OF rd ok, of ?f] by (auto simp: w)
  show "fst (GetNonce ?E ?f (w_state ?w)) = fst (GetNonce ?E ?f (w_state w))"
    using c s ok ex GetNonce_view [OF ok s(1), of ?f] rd by (auto simp: w GetNonce_value fresh_object_def newObject_def reads_def)
  show "reads_world V w ?w" if "obj_at ?E (w_state w) ?f \<noteq> None" using that rd ex by (simp add: w reads_world_def)
qed

lemma preCheck_reads:
  assumes "world_ok V w"
  shows "reads_world V (snd (st_from V msg w)) (snd (preCheck V msg w))"
proof -
  obtain f w1 where s: "st_from V msg w = (f, w1)" by fastforce
  have "env_ok (ve_state V)" using assms by (simp add: world_ok_def)
  from GetNonce_reads [OF this, of "w_state w1" f] show ?thesis
    by (simp add: preCheck_def s Let_def split_beta reads_world_def)
qed

text \<open>The account exists after the check of the nonce, so asking for the sender again only reads.\<close>

lemma sender_settled:
  assumes "world_ok V w"
  shows "reads_world V (snd (st_from V msg w)) (snd (st_from V msg (snd (preCheck V msg w))))"
    and "world_ok V (snd (st_from V msg (snd (preCheck V msg w))))"
proof -
  let ?w1 = "snd (st_from V msg w)" and ?w2 = "snd (preCheck V msg w)"
  have w1: "world_ok V ?w1" using st_from_step(1) [OF assms] by (simp add: undoable_def)
  note r = preCheck_reads [OF assms, of msg]
  have w2: "world_ok V ?w2" by (rule reads_world_ok [OF r w1])
  have "obj_at (ve_state V) (w_state ?w2) (msg_from msg) \<noteq> None"
    using reads_obj_at [of "ve_state V" "w_state ?w1" "w_state ?w2" "msg_from msg"] r w1 st_from_step(3) [OF assms]
    by (simp add: reads_world_def world_ok_def)
  from st_from_step(5) [OF w2 this] have "reads_world V ?w2 (snd (st_from V msg ?w2))" .
  from reads_world_trans [OF r this] show "reads_world V ?w1 (snd (st_from V msg ?w2))" .
  then show "world_ok V (snd (st_from V msg ?w2))" by (rule reads_world_ok) (rule w1)
qed

subsection \<open>The actions\<close>

lemma SendWork_undoable:
  assumes "world_ok V w" and "json_ok V"
  shows "undoable V w (snd (SendWork V sender a sys w))"
  using keeps_state_undoable [OF assms(1) DoFun_keeps_state [OF assms, of "act_Params a" sys]]
    keeps_state_undoable [OF assms(1) reads_world_keeps [OF reads_world_refl]]
  by (simp add: SendWork_def DealAction_def split: option.split)

lemma action_loop_undoable:
  assumes "world_ok V w" and "json_ok V"
  shows "undoable V w (snd (action_loop V sender sys bn acts mem w))"
  using assms(1)
proof (induction acts arbitrary: mem w)
  case Nil
  then show ?case using keeps_state_undoable [OF _ reads_world_keeps [OF reads_world_refl]] by simp
next
  case (Cons a acts)
  obtain r w1 where s: "SendWork V sender a sys w = (r, w1)" by fastforce
  have u: "undoable V w w1" using SendWork_undoable [OF Cons.prems assms(2), of sender a sys] s by simp
  then have w1: "world_ok V w1" by (simp add: undoable_def)
  have l: "undoable V w (w1\<lparr>w_state := AddLog x (w_state w1)\<rparr>)" for x
  proof (rule undoable_trans [OF u undoable_state [OF w1 AddLog_step]])
    show "sdb_ok (ve_state V) (w_state w1)" using w1 by (simp add: world_ok_def)
  qed
  then have "undoable V w (snd (action_loop V sender sys bn acts mem' (w1\<lparr>w_state := AddLog x (w_state w1)\<rparr>)))" for mem' x
    using undoable_trans Cons.IH by (metis undoable_def)
  moreover have "undoable V w w" using keeps_state_undoable [OF Cons.prems reads_world_keeps [OF reads_world_refl]] .
  ultimately show ?case using u s by (cases sys) (auto split: option.split result.split)
qed

text \<open>
  The identifiers of the snapshots that can be reverted to are increasing and smaller than the next one. Opening a state,
  every operation, snapshot and revert keep this.
\<close>

definition revisions_ok :: "'t statedb \<Rightarrow> bool" where
  "revisions_ok s \<longleftrightarrow> sorted_wrt (<) (map fst (sdb_validRevisions s) @ [sdb_nextRevisionId s])"

lemma revert_after_snapshot:
  assumes "env_ok E" and "sdb_ok E s" and "revisions_ok s" and "Snapshot s = (i, s1)" and "undoes E s1 s2" and "sdb_ok E s2"
  obtains s3 where "RevertToSnapshot E i s2 = Ok s3" "same_view E s3 s" "sdb_ok E s3" "sdb_validRevisions s3 = sdb_validRevisions s"
proof -
  let ?R = "sdb_validRevisions s"
  have "layers E ?R [] s" using assms(2,3) by (simp add: layers_def revisions_ok_def)
  from layers_Snapshot [OF this] have "layers E ?R [(i, s)] s1" by (simp add: assms(4))
  then have L: "layers E ?R [(i, s)] s2" by (rule layers_step [OF _ assms(6,5)])
  from RevertToSnapshot_layer [OF assms(1) L, of 0 i s] obtain t where
    "RevertToSnapshot E i s2 = Ok t" "layers E ?R [] t" "linked E t s" by auto
  then show thesis by (intro that [of t]) (auto simp: layers_def linked_def)
qed

text \<open>A failed transaction comes from the loop over the actions, and what ran before the revert can be taken back.\<close>

lemma failed_loop:
  assumes "TransitionDb V msg sys bn w cache = (Ok True, w', cache')"
    and "Snapshot (w_state (snd (st_from V msg (snd (preCheck V msg w))))) = (i, s1)"
    and "world_ok V ((snd (st_from V msg (snd (preCheck V msg w))))\<lparr>w_state := s1\<rparr>)" and "json_ok V"
  shows "\<exists>w5. undoable V ((snd (st_from V msg (snd (preCheck V msg w))))\<lparr>w_state := s1\<rparr>) w5 \<and>
    (case RevertToSnapshot (ve_state V) i (w_state w5) of
       Ok s \<Rightarrow> (Ok True, w5\<lparr>w_state := s\<rparr>, cache) | _ \<Rightarrow> (Panic, w5, cache)) = (Ok True, w', cache')"
proof -
  let ?E = "ve_state V"
  obtain e w1 where p: "preCheck V msg w = (e, w1)" by fastforce
  obtain f w2 where st: "st_from V msg w1 = (f, w2)" by fastforce
  define w3 where "w3 = w2\<lparr>w_state := s1\<rparr>"
  obtain n s4 where g: "GetNonce ?E f s1 = (n, s4)" by fastforce
  define w4 where "w4 = w3\<lparr>w_state := sdb_SetNonce ?E f (n + 1) s4\<rparr>"
  obtain r w5 where l: "action_loop V f sys bn (msg_actions msg) [] w4 = (r, w5)" by fastforce
  have sn: "Snapshot (w_state w2) = (i, s1)" and w3: "world_ok V w3" using assms(2,3) by (simp_all add: p st w3_def)
  then have env: "env_ok ?E" and ok: "sdb_ok ?E s1" by (simp_all add: world_ok_def w3_def)
  have "sdb_ok ?E s4" "undoes ?E s1 s4" using GetNonce_step [OF env ok, of f] g by simp_all
  then have "undoable V w3 w4"
    using SetNonce_step [OF env, of s4 f "n + 1"] undoes_trans [of ?E s1 s4]
    unfolding w4_def by (intro undoable_state [OF w3]) (auto simp: w3_def)
  moreover have "undoable V w4 w5" if "world_ok V w4"
    using action_loop_undoable [OF that assms(4), of f sys bn "msg_actions msg" "[]"] l by simp
  ultimately have u: "undoable V w3 w5" using undoable_trans by (metis undoable_def)
  have "(case RevertToSnapshot ?E i (w_state w5) of
      Ok s \<Rightarrow> (Ok True, w5\<lparr>w_state := s\<rparr>, cache) | _ \<Rightarrow> (Panic, w5, cache)) = (Ok True, w', cache')"
    using assms(1) l unfolding w4_def w3_def
    by (auto simp: TransitionDb_def p st sn g Let_def split: option.splits if_splits result.splits prod.splits)
  then show ?thesis using u by (auto simp: p st w3_def)
qed

text \<open>
  C5. A transaction one of whose actions fails leaves the world state alone. If \<^verbatim>\<open>TransitionDb\<close> reports a failed transaction,
  every account, slot and log reads as it did once the sender's account existed, the results for the block are
  unchanged, and the sender's nonce is what it was before the transaction.
\<close>

theorem failed_transaction_reverts:
  assumes "world_ok V w" and "json_ok V" and "revisions_ok (w_state w)"
    and "TransitionDb V msg sys bn w cache = (Ok True, w', cache')"
  shows "same_view (ve_state V) (w_state w') (w_state (snd (st_from V msg w))) \<and> cache' = cache \<and>
    fst (GetNonce (ve_state V) (msg_from msg) (w_state w')) = fst (GetNonce (ve_state V) (msg_from msg) (w_state w)) \<and>
    sdb_validRevisions (w_state w') = sdb_validRevisions (w_state w)"
proof -
  let ?E = "ve_state V" and ?w1 = "snd (st_from V msg w)" and ?w2 = "snd (st_from V msg (snd (preCheck V msg w)))"
  have env: "env_ok ?E" using assms(1) by (simp add: world_ok_def)
  note w2 = sender_settled [OF assms(1), of msg] and w1 = st_from_step [OF assms(1), of msg]
  have ok1: "sdb_ok ?E (w_state ?w1)" and ok2: "sdb_ok ?E (w_state ?w2)" and sv: "same_view ?E (w_state ?w2) (w_state ?w1)"
    and u1: "undoes ?E (w_state w) (w_state ?w1)" and u2: "undoes ?E (w_state ?w1) (w_state ?w2)"
    using w1(1) w2 by (auto simp: undoable_def world_ok_def reads_world_def reads_def)
  have rev: "revisions_ok (w_state ?w2)" "sdb_validRevisions (w_state ?w2) = sdb_validRevisions (w_state w)"
    using undoes_trans [OF u1 u2] assms(3) by (auto simp: undoes_def revisions_ok_def)
  obtain i s1 where sn: "Snapshot (w_state ?w2) = (i, s1)" by fastforce
  define w3 where "w3 = ?w2\<lparr>w_state := s1\<rparr>"
  have "sdb_ok ?E s1" using ok2 sn by (auto simp: Snapshot_def Let_def sdb_ok_def addr_ok_def)
  then have w3: "world_ok V w3" using w2(2) by (simp add: w3_def world_ok_def)
  obtain w5 where w5: "undoable V w3 w5" and R: "(case RevertToSnapshot ?E i (w_state w5) of
      Ok s \<Rightarrow> (Ok True, w5\<lparr>w_state := s\<rparr>, cache) | _ \<Rightarrow> (Panic, w5, cache)) = (Ok True, w', cache')"
    using failed_loop [OF assms(4) sn] w3 assms(2) unfolding w3_def by blast
  obtain s3 where s3: "RevertToSnapshot ?E i (w_state w5) = Ok s3" "same_view ?E s3 (w_state ?w2)" "sdb_ok ?E s3"
    "sdb_validRevisions s3 = sdb_validRevisions (w_state ?w2)"
    by (rule revert_after_snapshot [OF env ok2 rev(1) sn, of "w_state w5"]) (use w5 in \<open>auto simp: undoable_def world_ok_def w3_def\<close>)
  have w': "w_state w' = s3" "cache' = cache" using R s3(1) by auto
  have v: "same_view ?E s3 (w_state ?w1)" by (rule same_view_trans [OF s3(2) sv])
  then show ?thesis using w' s3(3,4) rev(2) GetNonce_view [OF ok1 s3(3) v] w1(4) by simp
qed

definition demo_message :: "string \<Rightarrow> bytes list \<Rightarrow> message" where
  "demo_message f ps = \<lparr>msg_from = HexToAddress f, msg_nonce = 0, msg_actions = map vm_demo_action ps, msg_checkNonce = True\<rparr>"

definition demo_transition :: "message \<Rightarrow> (bytes \<times> bytes) list world \<Rightarrow> (tx_error, bool) result \<times> (bytes \<times> bytes) list world \<times> db_cache" where
  "demo_transition msg w = TransitionDb vm_demo_env msg (Some True) 1 w []"

theorem failed_transaction_reverts_witness:
  "fst (GetNonce (ve_state vm_demo_env) (HexToAddress ''01'') (w_state (fst (snd (demo_transition (demo_message ''01'' [[1], [4]]) vm_demo_world)))))
     = fst (GetNonce (ve_state vm_demo_env) (HexToAddress ''01'') (w_state vm_demo_world))"
proof -
  let ?o = "demo_transition (demo_message ''01'' [[1], [4]]) vm_demo_world"
  have "fst ?o = Ok True" by code_simp
  then have eq: "TransitionDb vm_demo_env (demo_message ''01'' [[1], [4]]) (Some True) 1 vm_demo_world [] = (Ok True, fst (snd ?o), snd (snd ?o))"
    unfolding demo_transition_def by (metis prod.collapse)
  have "revisions_ok (w_state vm_demo_world)" by code_simp
  from failed_transaction_reverts [OF vm_demo_ok vm_demo_json this eq] show ?thesis by (simp add: demo_message_def)
qed



end
