(* ===== verification/TxPool.thy ===== *)
theory TxPool
  imports TxListProofs Contract
begin

text \<open>
  The bookkeeping of the transaction pool, \<^verbatim>\<open>core/txprocessor/tx_pool.go\<close>: adding, queueing, promoting and removing a
  transaction. The hash and the sender of a transaction are arguments, as for the lists; the sender is the zero address
  if it cannot be recovered, since the pool drops that error. The time of a heartbeat is an argument. The disk journal, the
  event feed and the locks are left out.
\<close>

subsection \<open>The pool\<close>

record 't tx_pool =
  po_GlobalSlots :: u64
  po_GlobalQueue :: u64
  po_pendingState :: "'t managed_state"
  po_locals :: "address list"
  po_pending :: "(address \<times> txList) list"
  po_queue :: "(address \<times> txList) list"
  po_beats :: "(address \<times> nat) list"
  po_all :: tx_pool_all
  po_priorited :: txPriorityList

datatype pool_error = ErrKnown hash | ErrUnderPriority | ErrPoolFull | ErrReplaceUnderpriority

record 't pool_env =
  pe_vm :: "'t vm_env"
  pe_hash :: "transaction \<Rightarrow> hash"
  pe_sender :: "transaction \<Rightarrow> address option"

definition pool_sender :: "'t pool_env \<Rightarrow> transaction \<Rightarrow> address" where
  "pool_sender P tx = (case pe_sender P tx of None \<Rightarrow> replicate AddressLength 0 | Some a \<Rightarrow> a)"

definition as_contains :: "address list \<Rightarrow> address \<Rightarrow> bool" where
  "as_contains accounts a \<longleftrightarrow> a \<in> set accounts"

definition as_containsTx :: "'t pool_env \<Rightarrow> address list \<Rightarrow> transaction \<Rightarrow> bool" where
  "as_containsTx P accounts tx = (case pe_sender P tx of None \<Rightarrow> False | Some a \<Rightarrow> as_contains accounts a)"

definition as_add :: "address list \<Rightarrow> address \<Rightarrow> address list" where
  "as_add accounts a = List.insert a accounts"

definition po_Get :: "'t tx_pool \<Rightarrow> hash \<Rightarrow> transaction option" where
  "po_Get pool h = map_of (po_all pool) h"

text \<open>Deleting a transaction from the known ones, with the notice to the priority list.\<close>

definition po_delete :: "hash \<Rightarrow> 't tx_pool \<Rightarrow> 't tx_pool" where
  "po_delete h pool =
     (let all = AList.delete h (po_all pool)
      in pool\<lparr>po_all := all, po_priorited := p_Removed all (po_priorited pool)\<rparr>)"

definition po_put :: "hash \<Rightarrow> transaction \<Rightarrow> 't tx_pool \<Rightarrow> 't tx_pool" where
  "po_put h tx pool =
     pool\<lparr>po_all := AList.update h tx (po_all pool), po_priorited := p_Put (po_priorited pool) tx\<rparr>"

definition delete_old :: "'t pool_env \<Rightarrow> transaction option \<Rightarrow> 't tx_pool \<Rightarrow> 't tx_pool" where
  "delete_old P old pool = (case old of None \<Rightarrow> pool | Some o' \<Rightarrow> po_delete (pe_hash P o') pool)"

subsection \<open>Operations\<close>

definition enqueueTx :: "'t pool_env \<Rightarrow> hash \<Rightarrow> transaction \<Rightarrow> 't tx_pool \<Rightarrow> (pool_error, bool) result \<times> 't tx_pool" where
  "enqueueTx P h tx pool =
     (let from = pool_sender P tx;
          l = (case map_of (po_queue pool) from of None \<Rightarrow> newTxList False | Some l \<Rightarrow> l)
      in case l_Add l tx of
           Ok ((inserted, old), l') \<Rightarrow>
             (let pool = pool\<lparr>po_queue := AList.update from l' (po_queue pool)\<rparr>
              in if \<not> inserted then (Err ErrReplaceUnderpriority, pool)
                 else (Ok (old \<noteq> None), po_put h tx (delete_old P old pool)))
         | _ \<Rightarrow> (Panic, pool\<lparr>po_queue := AList.update from l (po_queue pool)\<rparr>))"

definition promoteTx ::
  "'t pool_env \<Rightarrow> nat \<Rightarrow> address \<Rightarrow> hash \<Rightarrow> transaction \<Rightarrow> 't tx_pool \<Rightarrow> (pool_error, unit) result \<times> 't tx_pool" where
  "promoteTx P now addr h tx pool =
     (let l = (case map_of (po_pending pool) addr of None \<Rightarrow> newTxList True | Some l \<Rightarrow> l)
      in case l_Add l tx of
           Ok ((inserted, old), l') \<Rightarrow>
             (let pool = pool\<lparr>po_pending := AList.update addr l' (po_pending pool)\<rparr>
              in if \<not> inserted then (Ok (), po_delete h pool)
                 else let pool = delete_old P old pool;
                          pool = (if po_Get pool h = None then po_put h tx pool else pool)
                      in (Ok (), pool\<lparr>po_beats := AList.update addr now (po_beats pool),
                            po_pendingState := ms_SetNonce (ve_state (pe_vm P)) addr (tx_Nonce tx + 1) (po_pendingState pool)\<rparr>))
         | _ \<Rightarrow> (Panic, pool\<lparr>po_pending := AList.update addr l (po_pending pool)\<rparr>))"

text \<open>Putting back the transactions that follow a removed one; errors are dropped.\<close>

fun enqueue_invalids :: "'t pool_env \<Rightarrow> transaction list \<Rightarrow> 't tx_pool \<Rightarrow> (pool_error, unit) result \<times> 't tx_pool" where
  "enqueue_invalids P [] pool = (Ok (), pool)"
| "enqueue_invalids P (tx # txs) pool =
     (case enqueueTx P (pe_hash P tx) tx pool of
        (Panic, pool) \<Rightarrow> (Panic, pool)
      | (_, pool) \<Rightarrow> enqueue_invalids P txs pool)"

definition reset_nonce :: "'t pool_env \<Rightarrow> address \<Rightarrow> u64 \<Rightarrow> 't tx_pool \<Rightarrow> 't tx_pool" where
  "reset_nonce P addr nonce pool =
     (let E = ve_state (pe_vm P); (n, ms) = ms_GetNonce E addr (po_pendingState pool)
      in pool\<lparr>po_pendingState := (if n > nonce then ms_SetNonce E addr nonce ms else ms)\<rparr>)"

definition remove_future :: "address \<Rightarrow> transaction \<Rightarrow> 't tx_pool \<Rightarrow> (pool_error, unit) result \<times> 't tx_pool" where
  "remove_future addr tx pool =
     (case map_of (po_queue pool) addr of
        None \<Rightarrow> (Ok (), pool)
      | Some l \<Rightarrow>
          (case l_Remove l tx of
             Ok (_, l') \<Rightarrow>
               (Ok (), pool\<lparr>po_queue := (if l_Empty l' then AList.delete addr (po_queue pool) else AList.update addr l' (po_queue pool))\<rparr>)
           | _ \<Rightarrow> (Panic, pool)))"

definition removeTx :: "'t pool_env \<Rightarrow> hash \<Rightarrow> 't tx_pool \<Rightarrow> (pool_error, unit) result \<times> 't tx_pool" where
  "removeTx P h pool =
     (case po_Get pool h of
        None \<Rightarrow> (Ok (), pool)
      | Some tx \<Rightarrow>
          (let addr = pool_sender P tx; pool = po_delete h pool in
           case map_of (po_pending pool) addr of
             None \<Rightarrow> remove_future addr tx pool
           | Some l \<Rightarrow>
               (case l_Remove l tx of
                  Ok ((removed, invalids), l') \<Rightarrow>
                    (let pool = pool\<lparr>po_pending := AList.update addr l' (po_pending pool)\<rparr> in
                     if \<not> removed then remove_future addr tx pool
                     else if l_Empty l'
                     then (Ok (), reset_nonce P addr (tx_Nonce tx)
                             (pool\<lparr>po_pending := AList.delete addr (po_pending pool), po_beats := AList.delete addr (po_beats pool)\<rparr>))
                     else (case enqueue_invalids P invalids pool of
                             (Panic, pool) \<Rightarrow> (Panic, pool)
                           | (_, pool) \<Rightarrow> (Ok (), reset_nonce P addr (tx_Nonce tx) pool)))
                | _ \<Rightarrow> (Panic, pool))))"

fun remove_all :: "'t pool_env \<Rightarrow> transaction list \<Rightarrow> 't tx_pool \<Rightarrow> (pool_error, unit) result \<times> 't tx_pool" where
  "remove_all P [] pool = (Ok (), pool)"
| "remove_all P (tx # txs) pool =
     (case removeTx P (pe_hash P tx) pool of
        (Panic, pool) \<Rightarrow> (Panic, pool)
      | (_, pool) \<Rightarrow> remove_all P txs pool)"

definition make_room :: "'t pool_env \<Rightarrow> transaction \<Rightarrow> 't tx_pool \<Rightarrow> (pool_error, bool) result \<times> 't tx_pool" where
  "make_room P tx pool =
     (let locals = as_containsTx P (po_locals pool) in
      case p_Underpriority (pe_hash P) (po_all pool) (po_priorited pool) tx locals of
        Ok (True, pr) \<Rightarrow> (Err ErrUnderPriority, pool\<lparr>po_priorited := pr\<rparr>)
      | Ok (False, pr) \<Rightarrow>
          (case p_Discard (pe_hash P) (po_all pool) pr
                  (sint (of_nat (length (po_all pool)) - (po_GlobalSlots pool + po_GlobalQueue pool - 1))) locals of
             Ok (drop', pr') \<Rightarrow>
               (case remove_all P drop' (pool\<lparr>po_priorited := pr'\<rparr>) of
                  (Panic, pool) \<Rightarrow> (Panic, pool)
                | (_, pool) \<Rightarrow> (Err ErrPoolFull, pool))
           | _ \<Rightarrow> (Panic, pool\<lparr>po_priorited := pr\<rparr>))
      | _ \<Rightarrow> (Panic, pool))"

definition add_future :: "'t pool_env \<Rightarrow> hash \<Rightarrow> transaction \<Rightarrow> bool \<Rightarrow> 't tx_pool \<Rightarrow> (pool_error, bool) result \<times> 't tx_pool" where
  "add_future P h tx local pool =
     (case enqueueTx P h tx pool of
        (Ok replace, pool) \<Rightarrow>
          (Ok replace, if local then pool\<lparr>po_locals := as_add (po_locals pool) (pool_sender P tx)\<rparr> else pool)
      | (r, pool) \<Rightarrow> (r, pool))"

definition add :: "'t pool_env \<Rightarrow> transaction \<Rightarrow> bool \<Rightarrow> 't tx_pool \<Rightarrow> (pool_error, bool) result \<times> 't tx_pool" where
  "add P tx local pool =
     (case inter_GetPriority (pe_vm P) (Actions (Data tx)) of
        Ok priority \<Rightarrow>
          (let tx = SetPriority tx (sint priority); h = pe_hash P tx; from = pool_sender P tx in
           if po_Get pool h \<noteq> None then (Err (ErrKnown h), pool)
           else if of_nat (length (po_all pool)) \<ge> po_GlobalSlots pool + po_GlobalQueue pool then make_room P tx pool
           else case map_of (po_pending pool) from of
                  Some l \<Rightarrow>
                    if l_Overlaps l tx
                    then (case l_Add l tx of
                            Ok ((inserted, old), l') \<Rightarrow>
                              (let pool = pool\<lparr>po_pending := AList.update from l' (po_pending pool)\<rparr>
                               in if \<not> inserted then (Err ErrReplaceUnderpriority, pool)
                                  else (case old of
                                          Some o' \<Rightarrow> (Ok True, po_delete (pe_hash P o') pool)
                                        | None \<Rightarrow> (Ok True, pool\<lparr>po_all := AList.update h tx (po_all pool)\<rparr>)))
                          | _ \<Rightarrow> (Panic, pool))
                    else add_future P h tx local pool
                | None \<Rightarrow> add_future P h tx local pool)
      | _ \<Rightarrow> (Panic, pool))"

subsection \<open>The known transactions\<close>

text \<open>
  A pool is well formed if its lists are, if every transaction is in the list of its sender, in one of the two maps
  only, and if it is found under its hash.
\<close>

definition held :: "'t pool_env \<Rightarrow> (address \<times> txList) list \<Rightarrow> transaction \<Rightarrow> bool" where
  "held P m tx \<longleftrightarrow> (case map_of m (pool_sender P tx) of None \<Rightarrow> False | Some l \<Rightarrow> tx \<in> set (flat (l_txs l)))"

definition lists_ok :: "'t pool_env \<Rightarrow> (address \<times> txList) list \<Rightarrow> bool" where
  "lists_ok P m \<longleftrightarrow> (\<forall>a l. map_of m a = Some l \<longrightarrow> l_inv l \<and> (\<forall>tx \<in> set (flat (l_txs l)). pool_sender P tx = a))"

definition pool_ok :: "'t pool_env \<Rightarrow> 't tx_pool \<Rightarrow> bool" where
  "pool_ok P pool \<longleftrightarrow> lists_ok P (po_pending pool) \<and> lists_ok P (po_queue pool) \<and>
     (\<forall>tx. held P (po_pending pool) tx \<longrightarrow> \<not> held P (po_queue pool) tx) \<and>
     (\<forall>tx. held P (po_pending pool) tx \<or> held P (po_queue pool) tx \<longrightarrow> po_Get pool (pe_hash P tx) = Some tx)"

lemma l_Add_cases:
  assumes "l_inv l" and "priced tx" and "l_Add l tx = r"
  obtains ok old l' where "r = Ok ((ok, old), l')" "l_inv l'"
    "set (flat (l_txs l')) = (if ok then insert tx {t \<in> set (flat (l_txs l)). tx_Nonce t \<noteq> tx_Nonce tx} else set (flat (l_txs l)))"
    "\<And>t. old = Some t \<longleftrightarrow> ok \<and> t \<in> set (flat (l_txs l)) \<and> tx_Nonce t = tx_Nonce tx"
    "ok \<longleftrightarrow> (\<forall>t \<in> set (flat (l_txs l)). tx_Nonce t = tx_Nonce tx \<longrightarrow> prio t < prio tx)"
proof -
  have inv: "sm_inv (l_txs l)" using assms(1) by (simp add: l_inv_def)
  show thesis
    by (rule l_Add_spec [OF assms(1,2)], rule that)
      (use assms(3) in \<open>auto simp: set_insort_key sm_Get_Some_iff [OF inv] split: if_splits\<close>)
qed

lemma held_update:
  "held P (AList.update a l m) tx \<longleftrightarrow> (if pool_sender P tx = a then tx \<in> set (flat (l_txs l)) else held P m tx)"
  by (simp add: held_def update_conv')

lemma lists_ok_update:
  "lists_ok P m \<Longrightarrow> l_inv l \<Longrightarrow> \<forall>tx \<in> set (flat (l_txs l)). pool_sender P tx = a \<Longrightarrow> lists_ok P (AList.update a l m)"
  by (simp add: lists_ok_def update_conv')

lemma po_Get_simps [simp]:
  "po_Get (po_put h tx pool) k = (if k = h then Some tx else po_Get pool k)"
  "po_Get (po_delete h pool) k = (if k = h then None else po_Get pool k)"
  "po_Get (pool\<lparr>po_queue := q\<rparr>) k = po_Get pool k" "po_Get (pool\<lparr>po_pending := q\<rparr>) k = po_Get pool k"
  by (simp_all add: po_Get_def po_put_def po_delete_def Let_def update_conv' delete_conv')

lemma po_maps [simp]:
  "po_queue (po_put h tx pool) = po_queue pool" "po_pending (po_put h tx pool) = po_pending pool"
  "po_queue (delete_old P old pool) = po_queue pool" "po_pending (delete_old P old pool) = po_pending pool"
  "po_pending (po_delete h pool) = po_pending pool"
  by (simp_all add: po_put_def delete_old_def po_delete_def Let_def split: option.split)

lemma flat_new: "flat (l_txs (newTxList strict)) = []"
  by (simp add: newTxList_def newTxSortedMap_def txs_of_def)

text \<open>
  C10. Queueing a transaction keeps the pool well formed. A transaction with a priority whose hash is not known is
  queued without a panic; it can then be looked up unless one of its nonce and at least its priority is there,
  the one it replaces is forgotten, and every transaction of every list is still found under its hash.
\<close>

theorem enqueueTx_keeps_pool:
  assumes "pool_ok P pool" and "priced tx" and "po_Get pool (pe_hash P tx) = None"
    and "enqueueTx P (pe_hash P tx) tx pool = (r, pool')"
  shows "pool_ok P pool' \<and> (case r of Ok _ \<Rightarrow> po_Get pool' (pe_hash P tx) = Some tx \<and> held P (po_queue pool') tx
    | Err e \<Rightarrow> e = ErrReplaceUnderpriority \<and> (\<exists>t. held P (po_queue pool) t \<and> tx_Nonce t = tx_Nonce tx \<and> prio t \<ge> prio tx) | Panic \<Rightarrow> False)"
proof -
  let ?a = "pool_sender P tx" and ?h = "pe_hash P tx"
  define l where "l = (case map_of (po_queue pool) ?a of None \<Rightarrow> newTxList False | Some l \<Rightarrow> l)"
  have ok: "lists_ok P (po_pending pool)" "lists_ok P (po_queue pool)" "\<And>t. held P (po_pending pool) t \<Longrightarrow> \<not> held P (po_queue pool) t"
    "\<And>t. held P (po_pending pool) t \<or> held P (po_queue pool) t \<Longrightarrow> po_Get pool (pe_hash P t) = Some t"
    using assms(1) by (auto simp: pool_ok_def)
  have l: "l_inv l" "\<forall>t \<in> set (flat (l_txs l)). pool_sender P t = ?a"
    using ok(2) l_inv_new flat_new by (auto simp: l_def lists_ok_def split: option.split)
  have q: "held P (po_queue pool) t \<longleftrightarrow> t \<in> set (flat (l_txs l))" if "pool_sender P t = ?a" for t
    using that by (simp add: held_def l_def flat_new split: option.split)
  obtain ins old l' where A: "l_Add l tx = Ok ((ins, old), l')" "l_inv l'"
    "set (flat (l_txs l')) = (if ins then insert tx {t \<in> set (flat (l_txs l)). tx_Nonce t \<noteq> tx_Nonce tx} else set (flat (l_txs l)))"
    "\<And>t. old = Some t \<longleftrightarrow> ins \<and> t \<in> set (flat (l_txs l)) \<and> tx_Nonce t = tx_Nonce tx"
    "ins \<longleftrightarrow> (\<forall>t \<in> set (flat (l_txs l)). tx_Nonce t = tx_Nonce tx \<longrightarrow> prio t < prio tx)"
    by (rule l_Add_cases [OF l(1) assms(2) refl]) (rule that)
  define q' where "q' = AList.update ?a l' (po_queue pool)"
  have lq: "lists_ok P q'" unfolding q'_def by (rule lists_ok_update [OF ok(2) A(2)]) (use A(3) l(2) in auto)
  have hq: "held P q' t \<longleftrightarrow> (if pool_sender P t = ?a \<and> ins then t = tx \<or> held P (po_queue pool) t \<and> tx_Nonce t \<noteq> tx_Nonce tx
      else held P (po_queue pool) t)" for t
    using q [of t] A(3) by (auto simp: q'_def held_update)
  have E: "enqueueTx P ?h tx pool = (if ins then (Ok (old \<noteq> None), po_put ?h tx (delete_old P old (pool\<lparr>po_queue := q'\<rparr>)))
      else (Err ErrReplaceUnderpriority, pool\<lparr>po_queue := q'\<rparr>))"
    by (simp add: enqueueTx_def Let_def l_def [symmetric] A(1) q'_def)
  show ?thesis
  proof (cases ins)
    case False
    then obtain t where "t \<in> set (flat (l_txs l))" "tx_Nonce t = tx_Nonce tx" "prio t \<ge> prio tx" using A(5) by (auto simp: not_less)
    then show ?thesis using False E assms(4) ok lq hq q [of t] l(2) by (auto simp: pool_ok_def)
  next
    case True
    have new: "\<not> held P (po_pending pool) tx" "\<not> held P (po_queue pool) tx" using ok(4) [of tx] assms(3) by auto
    have old: "old = Some t \<longleftrightarrow> held P (po_queue pool) t \<and> pool_sender P t = ?a \<and> tx_Nonce t = tx_Nonce tx" for t
      using A(4) [of t] True q [of t] l(2) by auto
    have get: "po_Get (po_put ?h tx (delete_old P old (pool\<lparr>po_queue := q'\<rparr>))) (pe_hash P t) = Some t"
      if "t = tx \<or> (held P (po_pending pool) t \<or> held P (po_queue pool) t) \<and> old \<noteq> Some t" for t
    proof (cases "t = tx")
      case False
      then have t: "po_Get pool (pe_hash P t) = Some t" "pe_hash P t \<noteq> ?h" using that ok(4) [of t] assms(3) by auto
      have "pe_hash P t \<noteq> pe_hash P o'" if "old = Some o'" for o'
        using that t(1) ok(4) [of o'] old [of o'] \<open>t = tx \<or> _\<close> False by auto
      then show ?thesis using t by (simp add: delete_old_def split: option.split)
    qed simp
    have "pool_ok P (po_put ?h tx (delete_old P old (pool\<lparr>po_queue := q'\<rparr>)))"
      using ok(1,3) lq hq new old True get by (auto simp: pool_ok_def split: if_splits)
    then show ?thesis using True E assms(4) hq [of tx] by auto
  qed
qed

text \<open>A pool with two pending transactions of one account.\<close>

definition pool_demo_env :: "(bytes \<times> bytes) list pool_env" where
  "pool_demo_env =
     \<lparr>pe_vm = \<lparr>ve_state = StateRuns.demo_env, ve_db = (\<lambda>_. Inl []), ve_create_address = (\<lambda>a _. a),
        json_params = (\<lambda>_. Inr [(''funcId'', JStr ''2''), (''amount'', JStr ''8'')]),
        json_balance = (\<lambda>_. Inl []), json_of_balance = (\<lambda>_. Inl []), json_of_accounts = (\<lambda>_. Inl [])\<rparr>,
      pe_hash = (\<lambda>tx. [ucast (tx_Nonce tx), of_int (prio tx)]), pe_sender = (\<lambda>_. Some (replicate AddressLength 1))\<rparr>"

definition pool_demo_tx :: transaction where
  "pool_demo_tx = newTransaction 3 [\<lparr>act_Address = Some BalanceTransferAddress, act_Params = []\<rparr>]"

definition pool_demo :: "u64 \<Rightarrow> (bytes \<times> bytes) list tx_pool" where
  "pool_demo slots =
     \<lparr>po_GlobalSlots = slots, po_GlobalQueue = 0, po_pendingState = \<lparr>ms_state = demo_opened, ms_accounts = []\<rparr>, po_locals = [],
      po_pending = [(replicate AddressLength 1, demo_list)], po_queue = [], po_beats = [],
      po_all = [([3, 5], demo_nonce_tx 3 5), ([4, 9], demo_nonce_tx 4 9)],
      po_priorited = \<lparr>p_items = [demo_nonce_tx 3 5, demo_nonce_tx 4 9], p_stales = 0\<rparr>\<rparr>"

lemma pool_demo_sender [simp]: "pool_sender pool_demo_env tx = replicate AddressLength 1"
  by (simp add: pool_sender_def pool_demo_env_def)

lemma pool_demo_ok: "pool_ok pool_demo_env (pool_demo slots)"
  using demo_list_inv
  by (auto simp: pool_ok_def lists_ok_def held_def pool_demo_def po_Get_def pool_sender_def pool_demo_env_def big_Int64_def split: if_splits)

theorem enqueueTx_keeps_pool_witness:
  "pool_ok pool_demo_env (snd (enqueueTx pool_demo_env [7, 2] (demo_nonce_tx 7 2) (pool_demo 10)))"
proof -
  have h: "pe_hash pool_demo_env (demo_nonce_tx 7 2) = [7, 2]" by (simp add: pool_demo_env_def big_Int64_def)
  have "po_Get (pool_demo 10) (pe_hash pool_demo_env (demo_nonce_tx 7 2)) = None" by (simp add: h po_Get_def pool_demo_def)
  from enqueueTx_keeps_pool [OF pool_demo_ok _ this prod.collapse [symmetric]] show ?thesis by (simp add: h)
qed

text \<open>
  C19. A transaction that replaces a pending one cannot be looked up. If the pool is not full and the sender has a
  pending transaction of the same nonce and a lower priority, \<^verbatim>\<open>add\<close> puts the new transaction in its place and reports success, but
  removes only the old one from the known transactions: the new one is pending and unknown to the pool.
\<close>

theorem replacement_not_known:
  assumes "inter_GetPriority (pe_vm P) (Actions (Data tx)) = Ok p" and "t' = SetPriority tx (sint p)"
    and "po_Get pool (pe_hash P t') = None" and "of_nat (length (po_all pool)) < po_GlobalSlots pool + po_GlobalQueue pool"
    and "map_of (po_pending pool) (pool_sender P t') = Some l" and "l_inv l"
    and "t \<in> set (flat (l_txs l))" and "tx_Nonce t = tx_Nonce tx" and "prio t < prio t'"
  shows "\<exists>pool' l'. add P tx local pool = (Ok True, pool') \<and> map_of (po_pending pool') (pool_sender P t') = Some l' \<and>
    t' \<in> set (flat (l_txs l')) \<and> po_Get pool' (pe_hash P t') = None"
proof -
  have pr: "priced t'" "tx_Nonce t' = tx_Nonce tx" using assms(2) by (simp_all add: priced_def SetPriority_def)
  have inv: "sm_inv (l_txs l)" using assms(6) by (simp add: l_inv_def)
  have ov: "l_Overlaps l t'" using sm_Get_Some_iff [OF inv, of "tx_Nonce t'" t] assms(7,8) pr(2) by (simp add: l_Overlaps_def)
  obtain ok old l' where A: "l_Add l t' = Ok ((ok, old), l')"
    "set (flat (l_txs l')) = (if ok then insert t' {t \<in> set (flat (l_txs l)). tx_Nonce t \<noteq> tx_Nonce t'} else set (flat (l_txs l)))"
    "\<And>t. old = Some t \<longleftrightarrow> ok \<and> t \<in> set (flat (l_txs l)) \<and> tx_Nonce t = tx_Nonce t'"
    "ok \<longleftrightarrow> (\<forall>t \<in> set (flat (l_txs l)). tx_Nonce t = tx_Nonce t' \<longrightarrow> prio t < prio t')"
    by (rule l_Add_cases [OF assms(6) pr(1) refl]) (rule that)
  have ok: ok using A(4) same_nonce_eq [OF inv _ assms(7)] assms(8,9) pr(2) by metis
  then have o: "old = Some t" using A(3) assms(7,8) pr(2) by simp
  moreover have "\<not> po_GlobalSlots pool + po_GlobalQueue pool \<le> of_nat (length (po_all pool))" using assms(4) by (simp add: not_le)
  ultimately have "add P tx local pool = (Ok True, po_delete (pe_hash P t) (pool\<lparr>po_pending := AList.update (pool_sender P t') l' (po_pending pool)\<rparr>))"
    using assms(1-5) ov A(1) ok by (simp add: add_def Let_def)
  then show ?thesis using A(2) ok assms(3) by (simp add: update_conv')
qed

theorem replacement_not_known_witness:
  "\<exists>pool' l'. add pool_demo_env pool_demo_tx False (pool_demo 10) = (Ok True, pool') \<and>
    map_of (po_pending pool') (replicate AddressLength 1) = Some l' \<and> SetPriority pool_demo_tx 8 \<in> set (flat (l_txs l')) \<and>
    po_Get pool' (pe_hash pool_demo_env (SetPriority pool_demo_tx 8)) = None"
proof -
  let ?t = "SetPriority pool_demo_tx (sint (8::u64))"
  have p: "inter_GetPriority (pe_vm pool_demo_env) (Actions (Data pool_demo_tx)) = Ok 8" by code_simp
  have t: "tx_Nonce pool_demo_tx = 3" "prio ?t = 8" by code_simp+
  have g: "po_Get (pool_demo 10) (pe_hash pool_demo_env ?t) = None" by code_simp
  have "\<exists>pool' l'. add pool_demo_env pool_demo_tx False (pool_demo 10) = (Ok True, pool') \<and>
      map_of (po_pending pool') (pool_sender pool_demo_env ?t) = Some l' \<and> ?t \<in> set (flat (l_txs l')) \<and>
      po_Get pool' (pe_hash pool_demo_env ?t) = None"
    by (rule replacement_not_known [OF p refl g, of demo_list "demo_nonce_tx 3 5"])
      (use demo_list_inv t in \<open>simp_all add: pool_demo_def big_Int64_def\<close>)
  then show ?thesis by simp
qed

text \<open>
  C21. A full pool takes no transaction. When the pool holds as many transactions as it may, \<^verbatim>\<open>add\<close> fails for every
  transaction, also for one of a high priority for which it has just discarded others.
\<close>

theorem full_pool_rejects:
  assumes "of_nat (length (po_all pool)) \<ge> po_GlobalSlots pool + po_GlobalQueue pool"
  shows "fst (add P tx local pool) \<noteq> Ok b"
  using assms by (auto simp: add_def make_room_def Let_def split: result.split prod.split bool.split)

theorem full_pool_rejects_witness:
  "fst (add pool_demo_env pool_demo_tx False (pool_demo 2)) \<noteq> Ok True"
  by (rule full_pool_rejects) (simp add: pool_demo_def)


end
