(* ===== verification/Spec2Isabelle.thy ===== *)
theory Spec2Isabelle
  imports Compress Bitutil Gomath HexTypes TrieRefine TxPriority TxOrder StateRuns SpongeProof TransitionProof TxPool
begin

text \<open>
  \<^bold>\<open>The mjoy node.\<close> A Go implementation of a blockchain node, under \<^verbatim>\<open>mjoy.io/\<close> of the source tree. Paths below
  are relative to it. This library models the parts that decide what the chain contains: the hash
  functions, the encodings, the trie that authenticates the state, the journaled world state, the
  transactions with their signatures, the lists of the transaction pool and the filling of a block, the built-in
  balance contract and the state transition that executes a block.

  \<^bold>\<open>How the parts interact.\<close> A block producer takes transactions from the pool (\<^verbatim>\<open>core/txprocessor/tx_list.go\<close>) in
  the order of priority and nonce (\<^verbatim>\<open>core/transaction/transaction.go\<close>, \<^verbatim>\<open>blockproducer/producer.go\<close>), recovers
  the sender from the signature and runs the actions of each (\<^verbatim>\<open>core/stateprocessor\<close>) through the interpreter and the
  balance contract (\<^verbatim>\<open>core/interpreter\<close>), which keeps its values in a cache (\<^verbatim>\<open>core/sdk\<close>) above the world state (\<^verbatim>\<open>core/state\<close>). The state
  undoes failed transactions through its journal; the logs of the others go into a bloom filter of the receipt. The state is committed to a Merkle Patricia trie (\<^verbatim>\<open>trie/\<close>), whose keys and
  nodes are hashed with Keccak (\<^verbatim>\<open>utils/crypto/sha3\<close>).

  \<^bold>\<open>Conventions.\<close> A slice is a list, a Go map an association list in its iteration order, a struct a record, a
  machine integer a word, a \<^verbatim>\<open>big.Int\<close> an \<^typ>\<open>int\<close>. An operation returns the updated state; one that can fail or
  panic returns a \<open>result\<close>. Code outside the source tree (the msgpack coding, the secp256k1 curve, the key-value
  store) is an argument, with the laws that are used as named hypotheses; every theorem with hypotheses has
  a witness that instantiates the arguments with concrete functions.

  \<^bold>\<open>Theories.\<close>
  \<^item> \<^verbatim>\<open>Prelude\<close>: machine types, results, shared lemmas.
  \<^item> \<^verbatim>\<open>Compress\<close> (\<^verbatim>\<open>common/bitutil/compress.go\<close>): the sparse bitset compression. Compressing and decompressing give
    the data back, and the decoder accepts canonical encodings only.
  \<^item> \<^verbatim>\<open>Bitutil\<close> (\<^verbatim>\<open>common/bitutil/bitutil.go\<close>): XOR, AND, OR and the test for zero, by words and by bytes; the locale
    \<open>bytewise\<close> carries the equivalence of both paths.
  \<^item> \<^verbatim>\<open>Gomath\<close> (\<^verbatim>\<open>common/math\<close>): overflow-checked arithmetic, parsing of integers, big-integer helpers.
  \<^item> \<^verbatim>\<open>HexTypes\<close> (\<^verbatim>\<open>common\<close>, \<^verbatim>\<open>common/hex\<close>, \<^verbatim>\<open>common/types\<close>): hexadecimal text, hashes and addresses, with round trips.
  \<^item> \<^verbatim>\<open>TrieEncoding\<close>, \<^verbatim>\<open>Trie\<close>, \<^verbatim>\<open>TrieSpec\<close>, \<^verbatim>\<open>TrieRefine\<close> (\<^verbatim>\<open>trie/encoding.go\<close>, \<^verbatim>\<open>node.go\<close>, \<^verbatim>\<open>trie.go\<close>): key encodings; lookup, insertion
    and deletion; the trie as a finite map (locale \<open>map_store\<close>, interpreted on the model), and that its shape depends
    on its content only. The operations are partial functions into an option and are shown to be total.
  \<^item> \<^verbatim>\<open>Transaction\<close> (\<^verbatim>\<open>core/transaction\<close>): transactions, the signer, sender recovery and its cache.
  \<^item> \<^verbatim>\<open>GoHeap\<close>, \<^verbatim>\<open>TxList\<close>, \<^verbatim>\<open>TxListProofs\<close>, \<^verbatim>\<open>TxPriority\<close>, \<^verbatim>\<open>TxOrder\<close>: the binary heap of the Go library (locale
    \<open>heap_order\<close>, interpreted for the three orders in use), the lists of the pool, the transaction sets and the loop
    that fills a block.
  \<^item> \<^verbatim>\<open>TxPool\<close> (\<^verbatim>\<open>core/txprocessor/tx_pool.go\<close>): adding, queueing, promoting and removing a transaction. Queueing keeps every
    listed transaction known; replacing and removing pending ones do not, and a full pool takes nothing.
  \<^item> \<^verbatim>\<open>StateDB\<close>, \<^verbatim>\<open>StateRevert\<close>, \<^verbatim>\<open>StateRuns\<close> (\<^verbatim>\<open>core/state\<close>): the world state with its journal, dirty set, snapshots,
    finalisation, commit and managed nonces; every operation is undone by its journal entries; sequences of
    operations with nested snapshots.
  \<^item> \<^verbatim>\<open>Keccak\<close>, \<^verbatim>\<open>KeccakProof\<close>, \<^verbatim>\<open>Sponge\<close>, \<^verbatim>\<open>SpongeProof\<close> (\<^verbatim>\<open>utils/crypto/sha3\<close>, \<^verbatim>\<open>utils/crypto/crypto.go\<close>): the unrolled permutation,
    the sponge and the hash functions, against the definitions of FIPS 202.
  \<^item> \<^verbatim>\<open>Bloom\<close> (\<^verbatim>\<open>utils/bloom\<close>, \<^verbatim>\<open>common/types/bloom.go\<close>): the filter of the logs, on top of \<^verbatim>\<open>Sponge\<close>; it has no false negatives. This theory
    adds that every log of a receipt is found through the filter of the receipt.
  \<^item> \<^verbatim>\<open>Contract\<close>, \<^verbatim>\<open>ContractProof\<close> (\<^verbatim>\<open>core/sdk\<close>, \<^verbatim>\<open>core/interpreter\<close>): the cache of contract values, the four functions of the balance
    contract and the calls of the interpreter. Transfers conserve the balances and move exactly the amount, failed
    calls change nothing, and negative amounts are not refused.
  \<^item> \<^verbatim>\<open>StateTransition\<close>, \<^verbatim>\<open>TransitionProof\<close> (\<^verbatim>\<open>core/stateprocessor\<close>, \<^verbatim>\<open>core/interpreter/interface.go\<close>): the creation of contracts, the
    transition of a transaction, its receipt and the loop over a block. A failed transaction leaves the state as it was, by
    the lemmas of \<^verbatim>\<open>StateRuns\<close>, but not the cache of contract values, and the
    sender of a transaction need not own what it transfers.

  \<^bold>\<open>Bounds.\<close> Nothing is bounded by fuel. Loops that are not structural have a measure; the loops of the trie and of
  the sponge that could run forever on ill-formed arguments are partial functions into an option.

  \<^bold>\<open>Not modelled.\<close> The peer-to-peer layer, the downloader and the fetcher, the RPC servers, the account manager, the
  command line and the metrics are concurrent I/O around third-party protocols. Files named \<^verbatim>\<open>_gen.go\<close> are
  generated msgpack coders. The LevelDB wrapper and the caches only pass calls on to third-party stores. The
  assembly of the permutation and the C library of the curve are not Go. The main loop of the transaction pool
  and its eviction (over wall-clock heartbeats and a third-party priority queue), the
  storage of blocks and headers and the consensus engines work over channels, clocks and the key-value store; the
  call of the engine after the loop of \<^verbatim>\<open>Process\<close> is left out, and the block's signer and hash are arguments there.
\<close>

text \<open>
  C22. Every log of a receipt can be found through the receipt's filter. When \<^verbatim>\<open>ApplyTransaction\<close> returns a receipt, the lookup of
  the address and of every topic of each of its logs in its bloom filter succeeds, and the filter has 256 bytes.
\<close>

theorem receipt_filter_complete:
  assumes "ApplyTransaction V C signer bn tx sys w cache = (Ok r, w', cache')"
  shows "length (rc_Bloom r) = BloomByteLength \<and>
    (\<forall>l \<in> set (rc_Logs r). BloomLookup (rc_Bloom r) (log_Address l) \<and> (\<forall>t \<in> set (log_Topics l). BloomLookup (rc_Bloom r) t))"
proof -
  have "CreateBloom (concat (map (\<lambda>l. log_Address l # log_Topics l) (rc_Logs r))) = Ok (rc_Bloom r)"
    using assms by (auto simp: ApplyTransaction_def Let_def split: prod.splits result.splits)
  then show ?thesis
    using CreateBloom_complete [of "concat (map (\<lambda>l. log_Address l # log_Topics l) (rc_Logs r))"] by fastforce
qed

definition demo_signed :: transaction where
  "demo_signed = the_Ok (WithSignature (NewMSigner (Some 5)) (newTransaction 0 [vm_demo_action [1]]) demo_sig)"

definition demo_prepared :: "(bytes \<times> bytes) list world" where
  "demo_prepared = vm_demo_world\<lparr>w_state := sdb_Prepare (fst (tx_Hash Transaction.demo_env demo_signed)) zero_hash 0 (w_state vm_demo_world)\<rparr>"

definition demo_receipt :: "(tx_error, receipt) result \<times> (bytes \<times> bytes) list world \<times> db_cache" where
  "demo_receipt = ApplyTransaction vm_demo_env Transaction.demo_env (NewMSigner (Some 5)) 1 demo_signed (Some True) demo_prepared []"

lemma ApplyTransaction_receipt:
  assumes "AsMessage C tx signer = (Ok msg, tx')" and "TransitionDb V msg sys bn w cache = (Ok failed, w1, c1)"
    and "Finalise (ve_state V) True (w_state w1) = Ok s"
  shows "\<exists>r. ApplyTransaction V C signer bn tx sys w cache = (Ok r, w1\<lparr>w_state := s\<rparr>, c1) \<and> rc_Logs r = GetLogs (fst (tx_Hash C tx')) s"
proof -
  obtain b where "CreateBloom (concat (map (\<lambda>l. log_Address l # log_Topics l) (GetLogs (fst (tx_Hash C tx')) s))) = Ok b"
    using CreateBloom_complete by blast
  then show ?thesis by (simp add: ApplyTransaction_def assms Let_def)
qed

lemma demo_receipt_ok: "\<exists>r w c. demo_receipt = (Ok r, w, c) \<and> map log_Address (rc_Logs r) = [BalanceTransferAddress]"
proof -
  have "case AsMessage Transaction.demo_env demo_signed (NewMSigner (Some 5)) of
      (Ok msg, tx) \<Rightarrow> (case TransitionDb vm_demo_env msg (Some True) 1 demo_prepared [] of
        (Ok failed, w, c) \<Rightarrow> (case Finalise (ve_state vm_demo_env) True (w_state w) of
          Ok s \<Rightarrow> map log_Address (GetLogs (fst (tx_Hash Transaction.demo_env tx)) s) = [BalanceTransferAddress] | _ \<Rightarrow> False)
      | _ \<Rightarrow> False) | _ \<Rightarrow> False"
    by code_simp
  note runs = this
  obtain ra tx where a: "AsMessage Transaction.demo_env demo_signed (NewMSigner (Some 5)) = (ra, tx)" by fastforce
  obtain rt w c where t: "TransitionDb vm_demo_env (the_Ok ra) (Some True) 1 demo_prepared [] = (rt, w, c)" by (metis prod.collapse)
  obtain rs where f: "Finalise (ve_state vm_demo_env) True (w_state w) = rs" by blast
  obtain msg failed s where ok: "ra = Ok msg" "rt = Ok failed" "rs = Ok s"
    using runs t f by (cases ra; cases rt; cases rs; simp add: a)
  then have l: "map log_Address (GetLogs (fst (tx_Hash Transaction.demo_env tx)) s) = [BalanceTransferAddress]"
    using runs t f by (simp add: a)
  obtain r where "demo_receipt = (Ok r, w\<lparr>w_state := s\<rparr>, c)" "rc_Logs r = GetLogs (fst (tx_Hash Transaction.demo_env tx)) s"
    unfolding demo_receipt_def using ApplyTransaction_receipt a t f unfolding ok result.sel by blast
  with l show ?thesis by (intro exI conjI) (assumption, simp only:)
qed

theorem receipt_filter_complete_witness:
  "\<exists>r w c. demo_receipt = (Ok r, w, c) \<and> map log_Address (rc_Logs r) = [BalanceTransferAddress] \<and> BloomLookup (rc_Bloom r) BalanceTransferAddress"
proof -
  obtain r w c where r: "demo_receipt = (Ok r, w, c)" "map log_Address (rc_Logs r) = [BalanceTransferAddress]"
    using demo_receipt_ok by (elim exE conjE) (rule that)
  from arg_cong [OF this(2), of set] have "BalanceTransferAddress \<in> log_Address ` set (rc_Logs r)" by simp
  with receipt_filter_complete [OF r(1) [unfolded demo_receipt_def]] have "BloomLookup (rc_Bloom r) BalanceTransferAddress" by auto
  with r show ?thesis by (intro exI conjI)
qed

end
